(* ===== verification/Ursa_Prelude.thy ===== *)
theory Ursa_Prelude
  imports Main "HOL-Library.Word"
begin

text \<open>
  Shared vocabulary of the development: machine bytes, the identifiers that cross crate
  borders, the outcome of a Rust function (\<open>Ok\<close>, \<open>Err\<close> or a panic), the error values that
  the crates build with \<open>anyhow!\<close>, the operations of the third-party \<open>cid\<close> crate the
  sources call, and the generic lemmas and named collections used by the component theories.
\<close>

section \<open>Collections of facts\<close>

named_theorems outcome_simps \<open>computation rules for outcomes\<close>
named_theorems ursa_inv \<open>preservation of component invariants\<close>

section \<open>Bytes and strings\<close>

type_synonym byte = "8 word"
type_synonym bytes = "byte list"

text \<open>
  A Rust \<open>String\<close> is its UTF-8 byte sequence; a HOL string is a list of 8-bit characters, so
  \<open>String::as_bytes\<close> is a map over the characters.
\<close>

definition as_bytes :: "string \<Rightarrow> bytes" where
  "as_bytes s = map (\<lambda>c. word_of_nat (of_char c)) s"

definition bytes_to_string :: "bytes \<Rightarrow> string" where
  "bytes_to_string b = map (\<lambda>w. char_of (unat w)) b"

section \<open>Identifiers\<close>

text \<open>
  A CID and a peer id are opaque to this code base apart from equality, hashing and the
  conversions passed in as parameters. \<open>QueryId\<close> (bitswap), \<open>RequestId\<close>
  (request/response) and one-shot channel ends are opaque tokens.
\<close>

datatype cid = Cid nat
datatype peer_id = PeerId nat

text \<open>
  \<open>libp2p::identity::Keypair\<close> is an enum of signature schemes; the sources construct and match
  the Ed25519 variant only. Key material is opaque.
\<close>

datatype keypair = Ed25519 nat | OtherKeypair nat
datatype public_key = PublicKey nat

type_synonym query_id = nat
type_synonym request_id = nat
type_synonym chan = nat

instantiation cid :: linorder
begin

definition less_eq_cid :: "cid \<Rightarrow> cid \<Rightarrow> bool" where
  "less_eq_cid a b \<longleftrightarrow> case_cid (\<lambda>m. case_cid (\<lambda>n. m \<le> n) b) a"

definition less_cid :: "cid \<Rightarrow> cid \<Rightarrow> bool" where
  "less_cid a b \<longleftrightarrow> case_cid (\<lambda>m. case_cid (\<lambda>n. m < n) b) a"

instance
  by standard (auto simp: less_eq_cid_def less_cid_def split: cid.splits)

end

section \<open>Multiaddresses\<close>

text \<open>
  \<open>libp2p::Multiaddr\<close> is a sequence of protocol components. The sources build and match the
  variants below; every other component is \<open>OtherProtocol\<close>. \<open>P2p\<close> carries a multihash.
\<close>

type_synonym multihash = bytes

datatype protocol =
    Ip4 "32 word" | Ip6 "128 word" | Tcp "16 word" | P2p multihash | P2pCircuit
  | OtherProtocol string

type_synonym multiaddr = "protocol list"

section \<open>Outcomes\<close>

datatype panic =
    UnwrapErr            \<comment> \<open>\<open>Result::unwrap\<close> on an \<open>Err\<close>\<close>
  | UnwrapNone           \<comment> \<open>\<open>Option::unwrap\<close> on \<open>None\<close>\<close>
  | Expect string        \<comment> \<open>\<open>expect\<close> with its message\<close>
  | IndexOutOfBounds     \<comment> \<open>slice or \<open>Vec\<close> indexing\<close>
  | Todo                 \<comment> \<open>\<open>todo!()\<close>\<close>
  | Explicit string      \<comment> \<open>\<open>panic!\<close>\<close>

datatype ('e, 'a) outcome = Ok 'a | Err 'e | Panic panic

fun obind :: "('e, 'a) outcome \<Rightarrow> ('a \<Rightarrow> ('e, 'b) outcome) \<Rightarrow> ('e, 'b) outcome" where
  "obind (Ok a) f = f a"
| "obind (Err e) f = Err e"
| "obind (Panic p) f = Panic p"

fun map_err :: "('e \<Rightarrow> 'f) \<Rightarrow> ('e, 'a) outcome \<Rightarrow> ('f, 'a) outcome" where
  "map_err g (Ok a) = Ok a"
| "map_err g (Err e) = Err (g e)"
| "map_err g (Panic p) = Panic p"

fun unwrap :: "('e, 'a) outcome \<Rightarrow> ('f, 'a) outcome" where
  "unwrap (Ok a) = Ok a"
| "unwrap (Err e) = Panic UnwrapErr"
| "unwrap (Panic p) = Panic p"

fun expect :: "string \<Rightarrow> ('e, 'a) outcome \<Rightarrow> ('f, 'a) outcome" where
  "expect m (Ok a) = Ok a"
| "expect m (Err e) = Panic (Expect m)"
| "expect m (Panic p) = Panic p"

fun unwrap_opt :: "'a option \<Rightarrow> ('e, 'a) outcome" where
  "unwrap_opt (Some a) = Ok a"
| "unwrap_opt None = Panic UnwrapNone"

fun is_ok :: "('e, 'a) outcome \<Rightarrow> bool" where
  "is_ok (Ok a) = True"
| "is_ok (Err e) = False"
| "is_ok (Panic p) = False"

section \<open>Errors built with anyhow\<close>

datatype error =
    External string                   \<comment> \<open>an error value of a third-party crate\<close>
  | MissingDag cid                    \<comment> \<open>"Some of the cids for root is missing for the root"\<close>
  | NoPeersProvided                   \<comment> \<open>"There were no peers provided and the block does not exist in local store"\<close>
  | BlockNotFoundWithPeers cid        \<comment> \<open>"The requested block with cid is not found with any peers"\<close>
  | NoBootstrapNodes                  \<comment> \<open>"No bootstrap nodes configured"\<close>
  | AdNotFound                        \<comment> \<open>"ad not found"\<close>
  | NoHeadFound                       \<comment> \<open>"No head found"\<close>
  | BlockNotFound                     \<comment> \<open>"Block not found"\<close>
  | SendError                         \<comment> \<open>the receiver of the command channel is gone\<close>
  | Canceled                          \<comment> \<open>a one-shot sender was dropped\<close>
  | BitswapFailed error               \<comment> \<open>"The bitswap failed, please check server logs"\<close>
  | PutFailed                         \<comment> \<open>"The PUT failed, please check server logs"\<close>

type_synonym 'a result = "(error, 'a) outcome"

section \<open>The cid crate\<close>

text \<open>
  The operations of the third-party \<open>cid\<close> crate that the sources call. Both versions of
  \<open>Cid\<close> in use (\<open>cid::Cid\<close> and \<open>libipld::Cid\<close>) are the type \<open>cid\<close>; a conversion between them
  still goes through the binary form and may fail.
\<close>

record cid_lib =
  cid_to_bytes :: "cid \<Rightarrow> bytes"
  cid_try_from :: "bytes \<Rightarrow> cid option"
  cid_to_string :: "cid \<Rightarrow> string"
  cid_from_str :: "string \<Rightarrow> cid option"

text \<open>Documented behaviour of the crate: parsing the binary or text form gives the CID back.\<close>

definition cid_lib_ok :: "cid_lib \<Rightarrow> bool" where
  "cid_lib_ok cl \<longleftrightarrow>
     (\<forall>c. cid_try_from cl (cid_to_bytes cl c) = Some c) \<and>
     (\<forall>c. cid_from_str cl (cid_to_string cl c) = Some c)"

definition convert_cid :: "(bytes \<Rightarrow> 'c option) \<Rightarrow> bytes \<Rightarrow> ('e, 'c) outcome" where
  "convert_cid try_from b = (case try_from b of Some c \<Rightarrow> Ok c | None \<Rightarrow> Panic UnwrapErr)"

text \<open>A concrete CID library for closed instances: unary binary and text forms, the text never empty.\<close>

definition unary_cid_lib :: cid_lib where
  "unary_cid_lib =
     \<lparr>cid_to_bytes = case_cid (\<lambda>n. replicate n 1), cid_try_from = (\<lambda>b. Some (Cid (length b))),
      cid_to_string = case_cid (\<lambda>n. replicate (Suc n) CHR ''b''),
      cid_from_str = (\<lambda>s. Some (Cid (length s - 1)))\<rparr>"

section \<open>Shared lemmas\<close>

lemma unary_cid_lib_ok [simp]: "cid_lib_ok unary_cid_lib"
  by (simp add: cid_lib_ok_def unary_cid_lib_def split: cid.splits)

lemma less_eq_cid_Cid [simp]: "Cid m \<le> Cid n \<longleftrightarrow> m \<le> n"
  by (simp add: less_eq_cid_def)

lemma less_cid_Cid [simp]: "Cid m < Cid n \<longleftrightarrow> m < n"
  by (simp add: less_cid_def)

lemma as_bytes_append [simp]: "as_bytes (s @ t) = as_bytes s @ as_bytes t"
  by (simp add: as_bytes_def)

lemma length_as_bytes [simp]: "length (as_bytes s) = length s"
  by (simp add: as_bytes_def)

lemma unat_of_char [simp]: "unat (word_of_nat (of_char c) :: byte) = of_char c"
proof -
  have "(of_char c :: nat) < 256"
    using nat_of_char_less_256 [of c] by simp
  then show ?thesis by (simp add: unat_of_nat take_bit_eq_mod)
qed

lemma bytes_to_string_as_bytes [simp]: "bytes_to_string (as_bytes s) = s"
  by (simp add: bytes_to_string_def as_bytes_def comp_def map_idI)

lemma as_bytes_bytes_to_string [simp]: "as_bytes (bytes_to_string b) = b"
proof -
  have "unat w < 256" for w :: byte using unsigned_less [of w] by simp
  then have "word_of_nat (of_char (char_of (unat w) :: char)) = w" for w :: byte by simp
  then show ?thesis by (simp add: as_bytes_def bytes_to_string_def comp_def map_idI)
qed

lemma as_bytes_inj: "as_bytes s = as_bytes t \<Longrightarrow> s = t"
  by (metis bytes_to_string_as_bytes)

lemma obind_eq_Ok [outcome_simps]: "obind r f = Ok b \<longleftrightarrow> (\<exists>a. r = Ok a \<and> f a = Ok b)"
  by (cases r) auto

lemma obind_eq_Err [outcome_simps]:
  "obind r f = Err e \<longleftrightarrow> r = Err e \<or> (\<exists>a. r = Ok a \<and> f a = Err e)"
  by (cases r) auto

lemma obind_eq_Panic [outcome_simps]:
  "obind r f = Panic p \<longleftrightarrow> r = Panic p \<or> (\<exists>a. r = Ok a \<and> f a = Panic p)"
  by (cases r) auto

lemma obind_assoc: "obind (obind r f) g = obind r (\<lambda>a. obind (f a) g)"
  by (cases r) auto

lemma obind_cong [fundef_cong]:
  "r = r' \<Longrightarrow> (\<And>a. r' = Ok a \<Longrightarrow> f a = f' a) \<Longrightarrow> obind r f = obind r' f'"
  by (cases r') auto

lemma unwrap_eq_Ok [outcome_simps]: "unwrap r = Ok a \<longleftrightarrow> r = Ok a"
  by (cases r) auto

lemma unwrap_neq_Err [simp]: "unwrap r \<noteq> Err e"
  by (cases r) auto

lemma expect_eq_Ok [outcome_simps]: "expect m r = Ok a \<longleftrightarrow> r = Ok a"
  by (cases r) auto

lemma expect_neq_Err [simp]: "expect m r \<noteq> Err e"
  by (cases r) auto

lemma unwrap_opt_eq_Ok [outcome_simps]: "unwrap_opt x = Ok a \<longleftrightarrow> x = Some a"
  by (cases x) auto

lemma map_err_eq_Ok [outcome_simps]: "map_err g r = Ok a \<longleftrightarrow> r = Ok a"
  by (cases r) auto

lemma is_ok_iff: "is_ok r \<longleftrightarrow> (\<exists>a. r = Ok a)"
  by (cases r) auto

lemma convert_cid_eq_Ok [outcome_simps]: "convert_cid f b = Ok c \<longleftrightarrow> f b = Some c"
  by (simp add: convert_cid_def split: option.splits)

lemma convert_cid_neq_Err [simp]: "convert_cid f b \<noteq> Err e"
  by (simp add: convert_cid_def split: option.splits)

lemma cid_lib_try_from [simp]:
  "cid_lib_ok cl \<Longrightarrow> cid_try_from cl (cid_to_bytes cl c) = Some c"
  by (simp add: cid_lib_ok_def)

lemma cid_lib_from_str [simp]:
  "cid_lib_ok cl \<Longrightarrow> cid_from_str cl (cid_to_string cl c) = Some c"
  by (simp add: cid_lib_ok_def)

lemma convert_cid_to_bytes [simp]:
  "cid_lib_ok cl \<Longrightarrow> convert_cid (cid_try_from cl) (cid_to_bytes cl c) = Ok c"
  by (simp add: convert_cid_def)

lemma cid_to_bytes_inj: "cid_lib_ok cl \<Longrightarrow> cid_to_bytes cl c = cid_to_bytes cl d \<longleftrightarrow> c = d"
  by (metis cid_lib_try_from option.inject)

end
