(* ===== verification/Store.thy ===== *)
theory Store
  imports Ursa_Prelude
begin

text \<open>
  The block store crate, \<open>crates/ursa-store/src/store.rs\<close>: \<open>BitswapStorage\<close> (the block store
  handed to bitswap) and the two graph walks over stored blocks, \<open>missing_blocks\<close> and
  \<open>dag_traversal\<close>. The database behind it is the third-party trait \<open>BlockStore\<close>; its
  operations and those of \<open>libipld::Block\<close> are parameters (\<open>kvdb\<close>, \<open>block_lib\<close>).

  The lemmas show: what the storage returns after an insertion (interface \<open>bitswap_store\<close>);
  that \<open>missing_blocks\<close> returns on an acyclic graph and lists exactly the reachable blocks
  that are not stored; that \<open>dag_traversal\<close> returns on a finite graph for every order in which
  a hash set may be iterated, and yields every reachable block exactly once, or the error
  naming the root when a reachable block is missing.
\<close>

section \<open>Parameters: the database and the block decoder\<close>

record 's kvdb =
  kv_exists :: "'s \<Rightarrow> bytes \<Rightarrow> bool result"
  kv_read :: "'s \<Rightarrow> bytes \<Rightarrow> bytes option result"
  kv_write :: "'s \<Rightarrow> bytes \<Rightarrow> bytes \<Rightarrow> 's result"
  bs_has :: "'s \<Rightarrow> cid \<Rightarrow> bool result"
  bs_get :: "'s \<Rightarrow> cid \<Rightarrow> bytes option result"

text \<open>
  Documented behaviour of the key-value store, for the calls that succeed: there is a table
  \<open>tbl s\<close> that \<open>exists\<close> and \<open>read\<close> report and that \<open>write\<close> updates at one key; \<open>has\<close> and
  \<open>get\<close> address it by the binary form of the CID. A call may always fail instead.
\<close>

definition kvdb_ok :: "cid_lib \<Rightarrow> 's kvdb \<Rightarrow> ('s \<Rightarrow> bytes \<Rightarrow> bytes option) \<Rightarrow> bool" where
  "kvdb_ok cl kv tbl \<longleftrightarrow>
     (\<forall>s k b. kv_exists kv s k = Ok b \<longrightarrow> b = (tbl s k \<noteq> None)) \<and>
     (\<forall>s k v. kv_read kv s k = Ok v \<longrightarrow> v = tbl s k) \<and>
     (\<forall>s k d s'. kv_write kv s k d = Ok s' \<longrightarrow> tbl s' = (tbl s)(k \<mapsto> d)) \<and>
     (\<forall>s c b. bs_has kv s c = Ok b \<longrightarrow> b = (tbl s (cid_to_bytes cl c) \<noteq> None)) \<and>
     (\<forall>s c v. bs_get kv s c = Ok v \<longrightarrow> v = tbl s (cid_to_bytes cl c))"

text \<open>
  \<open>Block::new\<close> checks the data against the hash in the CID; \<open>Block::references\<close> decodes the
  data with the codec of the CID and lists the links in order.
\<close>

record block_lib =
  blk_check :: "cid \<Rightarrow> bytes \<Rightarrow> bool"
  blk_refs :: "cid \<Rightarrow> bytes \<Rightarrow> cid list result"

record block =
  block_cid :: cid
  block_data :: bytes

section \<open>BitswapStorage\<close>

definition contains :: "cid_lib \<Rightarrow> 's kvdb \<Rightarrow> 's \<Rightarrow> cid \<Rightarrow> bool result" where
  "contains cl kv s c = obind (kv_exists kv s (cid_to_bytes cl c)) Ok"

definition get :: "cid_lib \<Rightarrow> 's kvdb \<Rightarrow> 's \<Rightarrow> cid \<Rightarrow> bytes option result" where
  "get cl kv s c = obind (unwrap (kv_read kv s (cid_to_bytes cl c))) Ok"

definition insert_block :: "cid_lib \<Rightarrow> 's kvdb \<Rightarrow> 's \<Rightarrow> block \<Rightarrow> 's result" where
  "insert_block cl kv s b =
     obind (unwrap (kv_write kv s (cid_to_bytes cl (block_cid b)) (block_data b))) Ok"

text \<open>
  The loop of \<open>missing_blocks\<close>: the head of the list is the top of the stack. \<open>references\<close>
  pushes the links one after the other, so the last link is on top. The loop does not record
  visited blocks and need not end on a cyclic graph; \<open>None\<close> is a loop that does not return.
\<close>

partial_function (option) missing_loop ::
  "cid_lib \<Rightarrow> 's kvdb \<Rightarrow> block_lib \<Rightarrow> 's \<Rightarrow> cid list \<Rightarrow> cid list \<Rightarrow> cid list result option" where
  "missing_loop cl kv bl s stack missing =
     (case stack of
        [] \<Rightarrow> Some (Ok missing)
      | c # rest \<Rightarrow>
          (case get cl kv s c of
             Ok (Some data) \<Rightarrow>
               (case blk_refs bl c data of
                  Ok rs \<Rightarrow> missing_loop cl kv bl s (rev rs @ rest) missing
                | Err e \<Rightarrow> Some (Err e)
                | Panic p \<Rightarrow> Some (Panic p))
           | Ok None \<Rightarrow> missing_loop cl kv bl s rest (missing @ [c])
           | Err e \<Rightarrow> Some (Err e)
           | Panic p \<Rightarrow> Some (Panic p)))"

definition missing_blocks ::
  "cid_lib \<Rightarrow> 's kvdb \<Rightarrow> block_lib \<Rightarrow> 's \<Rightarrow> cid \<Rightarrow> cid list result option" where
  "missing_blocks cl kv bl s c = missing_loop cl kv bl s [c] []"

section \<open>Dag traversal\<close>

text \<open>
  \<open>current\<close> and \<open>refs\<close> are hash sets. \<open>current.iter().next()\<close> yields an element that depends
  on the hasher and the history of the table: \<open>pick n\<close> is the choice made in the \<open>n\<close>-th
  iteration, any function that returns a member of a non-empty set.
\<close>

partial_function (option) dag_loop ::
  "(nat \<Rightarrow> cid set \<Rightarrow> cid) \<Rightarrow> cid_lib \<Rightarrow> 's kvdb \<Rightarrow> block_lib \<Rightarrow> 's \<Rightarrow> cid \<Rightarrow>
   nat \<Rightarrow> cid set \<Rightarrow> cid set \<Rightarrow> (cid \<times> bytes) list \<Rightarrow> (cid \<times> bytes) list result option" where
  "dag_loop pick cl kv bl s root n current refs res =
     (if current = {} then Some (Ok res)
      else
        let c = pick n current; current' = current - {c} in
        if c \<in> refs then dag_loop pick cl kv bl s root (Suc n) current' refs res
        else
          (case obind (convert_cid (cid_try_from cl) (cid_to_bytes cl c)) (bs_get kv s) of
             Ok (Some data) \<Rightarrow>
               (case convert_cid (cid_try_from cl) (cid_to_bytes cl c) of
                  Ok c' \<Rightarrow>
                    if \<not> blk_check bl c data then Some (Panic UnwrapErr)
                    else
                      (case blk_refs bl c data of
                         Ok rs \<Rightarrow>
                           dag_loop pick cl kv bl s root (Suc n) (current' \<union> set rs)
                             (insert c refs) (res @ [(c', data)])
                       | Err e \<Rightarrow> Some (Err e)
                       | Panic p \<Rightarrow> Some (Panic p))
                | Err e \<Rightarrow> Some (Err e)
                | Panic p \<Rightarrow> Some (Panic p))
           | Ok None \<Rightarrow> Some (Err (MissingDag root))
           | Err e \<Rightarrow> Some (Err e)
           | Panic p \<Rightarrow> Some (Panic p)))"

definition dag_traversal ::
  "(nat \<Rightarrow> cid set \<Rightarrow> cid) \<Rightarrow> cid_lib \<Rightarrow> 's kvdb \<Rightarrow> block_lib \<Rightarrow> 's \<Rightarrow> cid \<Rightarrow>
   (cid \<times> bytes) list result option" where
  "dag_traversal pick cl kv bl s root_cid =
     (case convert_cid (cid_try_from cl) (cid_to_bytes cl root_cid) of
        Ok r \<Rightarrow> dag_loop pick cl kv bl s root_cid 0 {r} {} []
      | Err e \<Rightarrow> Some (Err e)
      | Panic p \<Rightarrow> Some (Panic p))"

section \<open>Reachable blocks\<close>

text \<open>
  The specification of both walks: the content of the store as a table from CIDs to data,
  the links of the stored blocks, and the CIDs reachable over links.
\<close>

definition content :: "cid_lib \<Rightarrow> ('s \<Rightarrow> bytes \<Rightarrow> bytes option) \<Rightarrow> 's \<Rightarrow> cid \<Rightarrow> bytes option" where
  "content cl tbl s c = tbl s (cid_to_bytes cl c)"

definition links :: "block_lib \<Rightarrow> (cid \<Rightarrow> bytes option) \<Rightarrow> cid \<Rightarrow> cid \<Rightarrow> bool" where
  "links bl look c d \<longleftrightarrow>
     (\<exists>data rs. look c = Some data \<and> blk_refs bl c data = Ok rs \<and> d \<in> set rs)"

definition reach :: "block_lib \<Rightarrow> (cid \<Rightarrow> bytes option) \<Rightarrow> cid \<Rightarrow> cid set" where
  "reach bl look root = {d. (links bl look)\<^sup>*\<^sup>* root d}"

text \<open>
  A walk from \<open>root\<close> meets no failure outside this crate: the database answers for every
  reachable CID and every stored reachable block passes the hash check and decodes.
\<close>

definition db_answers :: "cid_lib \<Rightarrow> 's kvdb \<Rightarrow> 's \<Rightarrow> cid set \<Rightarrow> bool" where
  "db_answers cl kv s R \<longleftrightarrow>
     (\<forall>c\<in>R. is_ok (kv_read kv s (cid_to_bytes cl c)) \<and> is_ok (bs_get kv s c))"

definition blocks_decode :: "block_lib \<Rightarrow> (cid \<Rightarrow> bytes option) \<Rightarrow> cid set \<Rightarrow> bool" where
  "blocks_decode bl look R \<longleftrightarrow>
     (\<forall>c\<in>R. \<forall>data. look c = Some data \<longrightarrow> blk_check bl c data \<and> is_ok (blk_refs bl c data))"

lemma reach_refl [simp, intro]: "root \<in> reach bl look root"
  by (simp add: reach_def)

lemma reach_step: "c \<in> reach bl look root \<Longrightarrow> links bl look c d \<Longrightarrow> d \<in> reach bl look root"
  by (auto simp: reach_def intro: rtranclp.rtrancl_into_rtrancl)

lemma reach_trans: "c \<in> reach bl look root \<Longrightarrow> d \<in> reach bl look c \<Longrightarrow> d \<in> reach bl look root"
  by (auto simp: reach_def intro: rtranclp_trans)

lemma reach_subset: "c \<in> reach bl look root \<Longrightarrow> reach bl look c \<subseteq> reach bl look root"
  by (auto intro: reach_trans)

lemma reach_stored:
  assumes "look c = Some data" and "blk_refs bl c data = Ok rs"
  shows "reach bl look c = insert c (\<Union>d\<in>set rs. reach bl look d)"
proof -
  have "links bl look c d \<longleftrightarrow> d \<in> set rs" for d
    using assms by (auto simp: links_def)
  then show ?thesis
    unfolding reach_def by (auto intro: converse_rtranclp_into_rtranclp elim: converse_rtranclpE)
qed

lemma reach_missing: "look c = None \<Longrightarrow> reach bl look c = {c}"
  by (auto simp: reach_def links_def elim: converse_rtranclpE)

lemma closed_contains_reach:
  assumes "root \<in> A" and "\<And>c d. c \<in> A \<Longrightarrow> links bl look c d \<Longrightarrow> d \<in> A"
  shows "reach bl look root \<subseteq> A"
proof
  fix d assume "d \<in> reach bl look root"
  then have "(links bl look)\<^sup>*\<^sup>* root d" by (simp add: reach_def)
  then show "d \<in> A" using assms by (induction rule: rtranclp_induct) auto
qed

section \<open>The storage interface\<close>

text \<open>
  What bitswap and the network service rely on (trait \<open>BitswapStore\<close>): for the calls that
  succeed, an inserted block is contained and read back, other blocks are untouched, and
  \<open>contains\<close> and \<open>get\<close> agree. \<open>good\<close> is the provider's condition on the database.
\<close>

locale bitswap_store =
  fixes good :: bool
    and has_block :: "'s \<Rightarrow> cid \<Rightarrow> bool result"
    and read_block :: "'s \<Rightarrow> cid \<Rightarrow> bytes option result"
    and add_block :: "'s \<Rightarrow> block \<Rightarrow> 's result"
    and table :: "'s \<Rightarrow> cid \<Rightarrow> bytes option"
  assumes has_table: "good \<Longrightarrow> has_block s c = Ok b \<Longrightarrow> b = (table s c \<noteq> None)"
    and read_table: "good \<Longrightarrow> read_block s c = Ok v \<Longrightarrow> v = table s c"
    and add_table: "good \<Longrightarrow> add_block s blk = Ok s' \<Longrightarrow>
                      table s' = (table s)(block_cid blk \<mapsto> block_data blk)"
begin

fun add_blocks :: "'s \<Rightarrow> block list \<Rightarrow> 's result" where
  "add_blocks s [] = Ok s"
| "add_blocks s (b # bs) = obind (add_block s b) (\<lambda>s'. add_blocks s' bs)"

lemma read_after_add:
  "good \<Longrightarrow> add_block s blk = Ok s' \<Longrightarrow> read_block s' (block_cid blk) = Ok v \<Longrightarrow>
   v = Some (block_data blk)"
  using read_table [of s' "block_cid blk" v] add_table [of s blk s'] by simp

lemma has_after_add:
  "good \<Longrightarrow> add_block s blk = Ok s' \<Longrightarrow> has_block s' (block_cid blk) = Ok b \<Longrightarrow> b"
  using has_table [of s' "block_cid blk" b] add_table [of s blk s'] by simp

lemma read_frame:
  "good \<Longrightarrow> add_block s blk = Ok s' \<Longrightarrow> c \<noteq> block_cid blk \<Longrightarrow>
   read_block s' c = Ok v' \<Longrightarrow> read_block s c = Ok v \<Longrightarrow> v' = v"
  using read_table [of s' c v'] read_table [of s c v] add_table [of s blk s'] by simp

lemma has_iff_read:
  "good \<Longrightarrow> has_block s c = Ok b \<Longrightarrow> read_block s c = Ok v \<Longrightarrow> b \<longleftrightarrow> v \<noteq> None"
  using has_table [of s c b] read_table [of s c v] by simp

lemma dom_add_blocks:
  "good \<Longrightarrow> add_blocks s bs = Ok s' \<Longrightarrow> dom (table s') = dom (table s) \<union> block_cid ` set bs"
proof (induction bs arbitrary: s)
  case (Cons b bs)
  then obtain s1 where s1: "add_block s b = Ok s1" and "add_blocks s1 bs = Ok s'"
    by (auto simp: outcome_simps)
  with Cons have "dom (table s') = dom (table s1) \<union> block_cid ` set bs" by simp
  with add_table [OF Cons.prems(1) s1] show ?case by auto
qed simp

lemma has_after_add_blocks:
  assumes "good" and "add_blocks s bs = Ok s'" and "blk \<in> set bs"
    and "has_block s' (block_cid blk) = Ok b"
  shows b
  using dom_add_blocks [OF assms(1,2)] has_table [OF assms(1,4)] assms(3) by auto

end

interpretation bitswap: bitswap_store "cid_lib_ok cl \<and> kvdb_ok cl kv tbl"
  "contains cl kv" "get cl kv" "insert_block cl kv" "content cl tbl"
  for cl kv tbl
proof (unfold_locales, goal_cases)
  case (1 s c b)
  then show ?case by (auto simp: contains_def content_def kvdb_ok_def outcome_simps)
next
  case (2 s c v)
  then show ?case by (auto simp: get_def content_def kvdb_ok_def outcome_simps)
next
  case (3 s blk s')
  then have "tbl s' = (tbl s)(cid_to_bytes cl (block_cid blk) \<mapsto> block_data blk)"
    by (auto simp: insert_block_def kvdb_ok_def outcome_simps)
  with 3 show ?case
    by (auto simp: content_def fun_eq_iff cid_to_bytes_inj)
qed

section \<open>missing_blocks\<close>

lemma get_eq_content:
  "kvdb_ok cl kv tbl \<Longrightarrow> is_ok (kv_read kv s (cid_to_bytes cl c)) \<Longrightarrow>
   get cl kv s c = Ok (content cl tbl s c)"
  by (auto simp: get_def content_def kvdb_ok_def is_ok_iff)

lemma bs_get_eq_content:
  "kvdb_ok cl kv tbl \<Longrightarrow> is_ok (bs_get kv s c) \<Longrightarrow> bs_get kv s c = Ok (content cl tbl s c)"
  by (auto simp: content_def kvdb_ok_def is_ok_iff)

lemma missing_loop_list:
  assumes "\<And>c. c \<in> set cs \<Longrightarrow>
    \<exists>ms. set ms = M c \<and>
      (\<forall>rest acc. missing_loop cl kv bl s (c # rest) acc = missing_loop cl kv bl s rest (acc @ ms))"
  shows "\<exists>ms. set ms = (\<Union>c\<in>set cs. M c) \<and>
      (\<forall>rest acc. missing_loop cl kv bl s (cs @ rest) acc = missing_loop cl kv bl s rest (acc @ ms))"
  using assms
proof (induction cs)
  case Nil
  show ?case by (intro exI [of _ "[]"]) simp
next
  case (Cons c cs)
  from Cons.prems [of c] obtain m1 where m1: "set m1 = M c"
    "\<And>rest acc. missing_loop cl kv bl s (c # rest) acc = missing_loop cl kv bl s rest (acc @ m1)"
    by auto
  from Cons.IH [OF Cons.prems] obtain m2 where m2: "set m2 = (\<Union>c\<in>set cs. M c)"
    "\<And>rest acc. missing_loop cl kv bl s (cs @ rest) acc = missing_loop cl kv bl s rest (acc @ m2)"
    by auto
  show ?case by (intro exI [of _ "m1 @ m2"]) (simp add: m1 m2)
qed

text \<open>
  Working off one CID on top of the stack has the same effect as appending the missing
  blocks below it, whatever is further down the stack. Induction along the links, which are
  well-founded on an acyclic graph.
\<close>

lemma missing_loop_node:
  assumes kv: "kvdb_ok cl kv tbl"
    and wf: "wfP (\<lambda>d c. links bl (content cl tbl s) c d)"
    and db: "db_answers cl kv s (reach bl (content cl tbl s) c)"
    and dec: "blocks_decode bl (content cl tbl s) (reach bl (content cl tbl s) c)"
  shows "\<exists>ms. set ms = {d \<in> reach bl (content cl tbl s) c. content cl tbl s d = None} \<and>
    (\<forall>rest acc. missing_loop cl kv bl s (c # rest) acc = missing_loop cl kv bl s rest (acc @ ms))"
  using db dec
proof (induction c rule: wfp_induct_rule [OF wf])
  case (1 c)
  let ?look = "content cl tbl s"
  have get: "get cl kv s c = Ok (?look c)"
    using kv "1.prems"(1) by (intro get_eq_content) (auto simp: db_answers_def)
  show ?case
  proof (cases "?look c")
    case None
    then have "missing_loop cl kv bl s (c # rest) acc = missing_loop cl kv bl s rest (acc @ [c])"
      for rest acc
      by (subst missing_loop.simps) (simp add: get)
    with None show ?thesis
      by (intro exI [of _ "[c]"]) (auto simp: reach_missing)
  next
    case (Some data)
    with "1.prems"(2) obtain rs where rs: "blk_refs bl c data = Ok rs"
      by (auto simp: blocks_decode_def is_ok_iff)
    have reach: "reach bl ?look c = insert c (\<Union>d\<in>set rs. reach bl ?look d)"
      using Some rs by (rule reach_stored)
    have unfold: "missing_loop cl kv bl s (c # rest) acc =
        missing_loop cl kv bl s (rev rs @ rest) acc" for rest acc
      by (subst missing_loop.simps) (simp add: get Some rs)
    have "\<exists>ms. set ms = {e \<in> reach bl ?look d. ?look e = None} \<and>
        (\<forall>rest acc. missing_loop cl kv bl s (d # rest) acc = missing_loop cl kv bl s rest (acc @ ms))"
      if "d \<in> set (rev rs)" for d
    proof (rule "1.IH")
      show "links bl ?look c d" using Some rs that by (auto simp: links_def)
      show "db_answers cl kv s (reach bl ?look d)" "blocks_decode bl ?look (reach bl ?look d)"
        using "1.prems" that by (auto simp: reach db_answers_def blocks_decode_def)
    qed
    then obtain ms where
      "set ms = (\<Union>d\<in>set (rev rs). {e \<in> reach bl ?look d. ?look e = None})" and
      "\<And>rest acc. missing_loop cl kv bl s (rev rs @ rest) acc = missing_loop cl kv bl s rest (acc @ ms)"
      using missing_loop_list [of "rev rs" "\<lambda>d. {e \<in> reach bl ?look d. ?look e = None}" cl kv bl s]
      by auto
    then show ?thesis
      using Some by (intro exI [of _ ms]) (auto simp: reach unfold)
  qed
qed

lemma missing_blocks_returns:
  assumes "kvdb_ok cl kv tbl"
    and "wfP (\<lambda>d c. links bl (content cl tbl s) c d)"
    and "db_answers cl kv s (reach bl (content cl tbl s) root)"
    and "blocks_decode bl (content cl tbl s) (reach bl (content cl tbl s) root)"
  shows "\<exists>ms. missing_blocks cl kv bl s root = Some (Ok ms) \<and>
    set ms = {d \<in> reach bl (content cl tbl s) root. content cl tbl s d = None}"
proof -
  from missing_loop_node [OF assms] obtain ms where
    "set ms = {d \<in> reach bl (content cl tbl s) root. content cl tbl s d = None}" and
    "missing_loop cl kv bl s [root] [] = missing_loop cl kv bl s [] ([] @ ms)"
    by blast
  moreover have "missing_loop cl kv bl s [] ms = Some (Ok ms)"
    by (subst missing_loop.simps) simp
  ultimately show ?thesis by (simp add: missing_blocks_def)
qed

section \<open>dag_traversal\<close>

definition picks_member :: "(nat \<Rightarrow> cid set \<Rightarrow> cid) \<Rightarrow> bool" where
  "picks_member pick \<longleftrightarrow> (\<forall>n S. finite S \<and> S \<noteq> {} \<longrightarrow> pick n S \<in> S)"

text \<open>What one iteration of the loop keeps true.\<close>

definition dag_inv ::
  "block_lib \<Rightarrow> (cid \<Rightarrow> bytes option) \<Rightarrow> cid \<Rightarrow> cid set \<Rightarrow> cid set \<Rightarrow> (cid \<times> bytes) list \<Rightarrow> bool" where
  "dag_inv bl look root current refs res \<longleftrightarrow>
     current \<subseteq> reach bl look root \<and> refs \<subseteq> reach bl look root \<and>
     refs = set (map fst res) \<and> distinct (map fst res) \<and>
     (\<forall>(c, d) \<in> set res. look c = Some d) \<and>
     (\<forall>c\<in>refs. \<forall>d. links bl look c d \<longrightarrow> d \<in> refs \<union> current) \<and>
     root \<in> refs \<union> current"

lemma dag_inv_init: "dag_inv bl look root {root} {} []"
  by (simp add: dag_inv_def)

lemma dag_inv_skip:
  "dag_inv bl look root current refs res \<Longrightarrow> c \<in> refs \<Longrightarrow>
   dag_inv bl look root (current - {c}) refs res"
  unfolding dag_inv_def by blast

lemma dag_inv_visit:
  assumes "dag_inv bl look root current refs res" and "c \<in> current" and "c \<notin> refs"
    and "look c = Some data" and "blk_refs bl c data = Ok rs"
  shows "dag_inv bl look root (current - {c} \<union> set rs) (insert c refs) (res @ [(c, data)])"
proof -
  have c: "c \<in> reach bl look root" using assms by (auto simp: dag_inv_def)
  have "set rs \<subseteq> reach bl look root"
    using assms(4,5) by (auto simp: links_def intro!: reach_step [OF c])
  moreover have "links bl look c d \<Longrightarrow> d \<in> set rs" for d
    using assms(4,5) by (auto simp: links_def)
  ultimately show ?thesis
    using assms c unfolding dag_inv_def by auto
qed

lemma dag_inv_done:
  assumes "dag_inv bl look root {} refs res"
  shows "set (map fst res) = reach bl look root" and "distinct (map fst res)"
    and "\<And>c d. (c, d) \<in> set res \<Longrightarrow> look c = Some d"
proof -
  have "reach bl look root \<subseteq> refs"
    using assms by (intro closed_contains_reach) (auto simp: dag_inv_def)
  with assms show "set (map fst res) = reach bl look root" by (auto simp: dag_inv_def)
qed (use assms in \<open>auto simp: dag_inv_def\<close>)

lemma dag_inv_done_stored:
  assumes "dag_inv bl look root {} refs res" and "d \<in> reach bl look root"
  shows "look d \<noteq> None"
proof -
  from assms dag_inv_done(1) [OF assms(1)] have "d \<in> fst ` set res" by simp
  then obtain data where "(d, data) \<in> set res" by force
  then show ?thesis using dag_inv_done(3) [OF assms(1)] by auto
qed

lemma dag_loop_total:
  fixes kv :: "'s kvdb" and s :: 's and cl tbl bl root
  defines "look \<equiv> content cl tbl s"
  defines "R \<equiv> reach bl look root"
  assumes cl: "cid_lib_ok cl" and kv: "kvdb_ok cl kv tbl" and pick: "picks_member pick"
    and fin: "finite R" and db: "db_answers cl kv s R" and dec: "blocks_decode bl look R"
    and inv: "dag_inv bl look root current refs res"
  shows "(\<exists>res' refs'. dag_loop pick cl kv bl s root n current refs res = Some (Ok res') \<and>
            dag_inv bl look root {} refs' res') \<or>
         (dag_loop pick cl kv bl s root n current refs res = Some (Err (MissingDag root)) \<and>
            (\<exists>d\<in>R. look d = None))"
  using inv
proof (induction "(card (R - refs), card current)" arbitrary: n current refs res
    rule: wf_induct_rule [OF wf_lex_prod [OF wf_less_than wf_less_than]])
  case (1 current refs n res)
  let ?c = "pick n current"
  have cur: "current \<subseteq> R" and fcur: "finite current"
    using "1.prems" fin finite_subset by (auto simp: dag_inv_def R_def)
  show ?case
  proof (cases "current = {}")
    case True
    with "1.prems" show ?thesis by (subst (1 2) dag_loop.simps) auto
  next
    case False
    with pick fcur have c: "?c \<in> current" by (simp add: picks_member_def)
    show ?thesis
    proof (cases "?c \<in> refs")
      case True
      have "card (current - {?c}) < card current" using fcur c by (rule card_Diff1_less)
      from "1.hyps" [OF _ dag_inv_skip [OF "1.prems" True], of "Suc n"] this
      show ?thesis
        using False True by (subst (1 2) dag_loop.simps) (simp add: Let_def)
    next
      case new: False
      have cR: "?c \<in> R" using c cur by blast
      have get: "bs_get kv s ?c = Ok (look ?c)"
        unfolding look_def using kv db cR by (intro bs_get_eq_content) (auto simp: db_answers_def)
      show ?thesis
      proof (cases "look ?c")
        case None
        then show ?thesis
          using False new cR get cl by (subst (1 2) dag_loop.simps) (auto simp: Let_def)
      next
        case (Some data)
        with dec cR obtain rs where rs: "blk_refs bl ?c data = Ok rs" and chk: "blk_check bl ?c data"
          by (auto simp: blocks_decode_def is_ok_iff)
        have "card (R - insert ?c refs) < card (R - refs)"
          using fin cR new by (intro psubset_card_mono) auto
        from "1.hyps" [OF _ dag_inv_visit [OF "1.prems" c new Some rs], of "Suc n"] this
        show ?thesis
          using False new get Some rs chk cl by (subst (1 2) dag_loop.simps) (simp add: Let_def)
      qed
    qed
  qed
qed

lemma dag_traversal_Ok:
  assumes "cid_lib_ok cl" and "kvdb_ok cl kv tbl" and "picks_member pick"
    and "finite (reach bl (content cl tbl s) root)"
    and "db_answers cl kv s (reach bl (content cl tbl s) root)"
    and "blocks_decode bl (content cl tbl s) (reach bl (content cl tbl s) root)"
    and "\<forall>d \<in> reach bl (content cl tbl s) root. content cl tbl s d \<noteq> None"
  shows "\<exists>res. dag_traversal pick cl kv bl s root = Some (Ok res) \<and>
    distinct (map fst res) \<and> set (map fst res) = reach bl (content cl tbl s) root \<and>
    (\<forall>(c, d) \<in> set res. content cl tbl s c = Some d)"
proof -
  from dag_loop_total [OF assms(1-6) dag_inv_init, of 0] assms(7)
  obtain res refs where "dag_loop pick cl kv bl s root 0 {root} {} [] = Some (Ok res)"
    and "dag_inv bl (content cl tbl s) root {} refs res"
    by blast
  with dag_inv_done [OF this(2)] assms(1) show ?thesis
    by (auto simp: dag_traversal_def)
qed

lemma dag_traversal_Err:
  assumes "cid_lib_ok cl" and "kvdb_ok cl kv tbl" and "picks_member pick"
    and "finite (reach bl (content cl tbl s) root)"
    and "db_answers cl kv s (reach bl (content cl tbl s) root)"
    and "blocks_decode bl (content cl tbl s) (reach bl (content cl tbl s) root)"
    and "d \<in> reach bl (content cl tbl s) root" and "content cl tbl s d = None"
  shows "dag_traversal pick cl kv bl s root = Some (Err (MissingDag root))"
proof -
  have "\<not> dag_inv bl (content cl tbl s) root {} refs res" for refs res
    using dag_inv_done_stored assms(7,8) by blast
  with dag_loop_total [OF assms(1-6) dag_inv_init, of 0] assms(1) show ?thesis
    by (auto simp: dag_traversal_def)
qed

text \<open>Partial correctness without conditions on the graph.\<close>

lemma dag_loop_sound:
  fixes kv :: "'s kvdb" and s :: 's
  assumes cl: "cid_lib_ok cl" and kv: "kvdb_ok cl kv tbl" and pick: "picks_member pick"
    and ret: "dag_loop pick cl kv bl s root n current refs res = Some r"
    and inv: "dag_inv bl (content cl tbl s) root current refs res" and fin: "finite current"
    and ok: "r = Ok res'"
  shows "\<exists>refs'. dag_inv bl (content cl tbl s) root {} refs' res'"
proof -
  let ?look = "content cl tbl s"
  let ?P = "\<lambda>pick' cl' kv' bl' s' root' (n::nat) current refs res r.
    (pick', cl', kv', bl', s', root') = (pick, cl, kv, bl, s, root) \<longrightarrow> finite current \<longrightarrow> r = Ok res' \<longrightarrow>
    dag_inv bl ?look root current refs res \<longrightarrow> (\<exists>refs'. dag_inv bl ?look root {} refs' res')"
  have "?P pick cl kv bl s root n current refs res r"
  proof (rule dag_loop.raw_induct [where P = ?P, OF _ ret], intro impI, goal_cases)
    case (1 f pick' cl' kv' bl' s' root' n current refs res r)
    then have eqs: "pick' = pick" "cl' = cl" "kv' = kv" "bl' = bl" "s' = s" "root' = root" by auto
    note IH = "1"(1) [of pick cl kv bl s root]
    show ?case
    proof (cases "current = {}")
      case True
      with 1 eqs show ?thesis by auto
    next
      case False
      let ?c = "pick n current"
      from False pick 1(4) have c: "?c \<in> current" by (simp add: picks_member_def)
      show ?thesis
      proof (cases "?c \<in> refs")
        case True
        with 1(2) eqs False have "f pick cl kv bl s root (Suc n) (current - {?c}) refs res = Some r"
          by (simp add: Let_def)
        from IH [OF this] dag_inv_skip [OF 1(6) True] 1(4,5) show ?thesis by simp
      next
        case new: False
        with 1(2) eqs False 1(5) cl obtain data rs where get: "bs_get kv s ?c = Ok (Some data)"
          and rs: "blk_refs bl ?c data = Ok rs"
          and rec: "f pick cl kv bl s root (Suc n) (current - {?c} \<union> set rs) (insert ?c refs) (res @ [(?c, data)]) = Some r"
          by (auto simp: Let_def split: outcome.splits option.splits if_splits)
        have "?look ?c = Some data"
          using bs_get_eq_content [OF kv, of s ?c] get by simp
        from IH [OF rec] dag_inv_visit [OF 1(6) c new this rs] 1(4,5) show ?thesis by simp
      qed
    qed
  qed
  then show ?thesis using inv fin ok by simp
qed

lemma dag_traversal_sound:
  assumes "cid_lib_ok cl" and "kvdb_ok cl kv tbl" and "picks_member pick"
    and "dag_traversal pick cl kv bl s root = Some (Ok res)"
  shows "distinct (map fst res)" and "set (map fst res) = reach bl (content cl tbl s) root"
    and "\<forall>(c, d) \<in> set res. content cl tbl s c = Some d"
proof -
  from assms(1,4) have "dag_loop pick cl kv bl s root 0 {root} {} [] = Some (Ok res)"
    by (simp add: dag_traversal_def)
  from dag_loop_sound [OF assms(1-3) this dag_inv_init _ refl]
  obtain refs where "dag_inv bl (content cl tbl s) root {} refs res" by auto
  from dag_inv_done [OF this] show "distinct (map fst res)"
    and "set (map fst res) = reach bl (content cl tbl s) root"
    and "\<forall>(c, d) \<in> set res. content cl tbl s c = Some d" by auto
qed
section \<open>A concrete store\<close>

text \<open>
  An in-memory database and a block format for closed instances: the data of a block is the
  list of the CIDs it links to.
\<close>

definition mem_kvdb :: "cid_lib \<Rightarrow> (bytes \<Rightarrow> bytes option) kvdb" where
  "mem_kvdb cl =
     \<lparr>kv_exists = (\<lambda>s k. Ok (s k \<noteq> None)), kv_read = (\<lambda>s k. Ok (s k)),
      kv_write = (\<lambda>s k d. Ok (s(k \<mapsto> d))),
      bs_has = (\<lambda>s c. Ok (s (cid_to_bytes cl c) \<noteq> None)),
      bs_get = (\<lambda>s c. Ok (s (cid_to_bytes cl c)))\<rparr>"

definition link_blocks :: block_lib where
  "link_blocks = \<lparr>blk_check = (\<lambda>_ _. True), blk_refs = (\<lambda>_ data. Ok (map (\<lambda>w. Cid (unat w)) data))\<rparr>"

text \<open>Block 2 links to 3 and 4, block 3 links to 4; block 4 is stored in the second table only.\<close>

definition part_store :: "bytes \<Rightarrow> bytes option" where
  "part_store = [[1, 1] \<mapsto> [3, 4], [1, 1, 1] \<mapsto> [4]]"

definition full_store :: "bytes \<Rightarrow> bytes option" where
  "full_store = part_store([1, 1, 1, 1] \<mapsto> [])"

lemma mem_kvdb_ok [simp]: "kvdb_ok cl (mem_kvdb cl) (\<lambda>s. s)"
  by (auto simp: kvdb_ok_def mem_kvdb_def)

lemma mem_kvdb_answers [simp]: "db_answers cl (mem_kvdb cl) s R"
  by (simp add: db_answers_def mem_kvdb_def)

lemma link_blocks_decode [simp]: "blocks_decode link_blocks look R"
  by (simp add: blocks_decode_def link_blocks_def)

lemma picks_member_Min [simp]: "picks_member (\<lambda>_ S. Min S)"
  by (simp add: picks_member_def)

lemma replicate_one_eq:
  "replicate n (1::byte) = [1, 1] \<longleftrightarrow> n = 2" "replicate n (1::byte) = [1, 1, 1] \<longleftrightarrow> n = 3"
  "replicate n (1::byte) = [1, 1, 1, 1] \<longleftrightarrow> n = 4"
proof -
  have "replicate n (1::byte) = replicate m 1 \<longleftrightarrow> n = m" for m by simp
  from this [of 2] this [of 3] this [of 4]
  show "replicate n (1::byte) = [1, 1] \<longleftrightarrow> n = 2" "replicate n (1::byte) = [1, 1, 1] \<longleftrightarrow> n = 3"
    "replicate n (1::byte) = [1, 1, 1, 1] \<longleftrightarrow> n = 4"
    by (simp_all add: numeral_2_eq_2 numeral_3_eq_3 numeral_eq_Suc)
qed

lemma content_part_store [simp]:
  "content unary_cid_lib (\<lambda>s. s) part_store c =
     (if c = Cid 2 then Some [3, 4] else if c = Cid 3 then Some [4] else None)"
  by (cases c) (auto simp: content_def part_store_def unary_cid_lib_def replicate_one_eq)

lemma content_full_store [simp]:
  "content unary_cid_lib (\<lambda>s. s) full_store c =
     (if c = Cid 2 then Some [3, 4] else if c = Cid 3 then Some [4]
      else if c = Cid 4 then Some [] else None)"
  by (cases c)
    (auto simp: content_def full_store_def part_store_def unary_cid_lib_def replicate_one_eq)

lemma links_part_store:
  "links link_blocks (content unary_cid_lib (\<lambda>s. s) part_store) c d \<longleftrightarrow>
     c = Cid 2 \<and> d \<in> {Cid 3, Cid 4} \<or> c = Cid 3 \<and> d = Cid 4"
  by (auto simp: links_def link_blocks_def)

lemma links_full_store:
  "links link_blocks (content unary_cid_lib (\<lambda>s. s) full_store) =
   links link_blocks (content unary_cid_lib (\<lambda>s. s) part_store)"
  by (intro ext) (auto simp: links_def link_blocks_def)

lemma wfP_links_part_store:
  "wfP (\<lambda>d c. links link_blocks (content unary_cid_lib (\<lambda>s. s) part_store) c d)"
  by (rule wfp_if_convertible_to_nat [where f = "\<lambda>c. case c of Cid n \<Rightarrow> 4 - n"])
    (auto simp: links_part_store)

lemma reach_part_store:
  "reach link_blocks (content unary_cid_lib (\<lambda>s. s) part_store) (Cid 2) = {Cid 2, Cid 3, Cid 4}"
proof -
  let ?r = "reach link_blocks (content unary_cid_lib (\<lambda>s. s) part_store)"
  have "?r (Cid 4) = {Cid 4}" by (simp add: reach_missing)
  moreover have "?r (Cid 3) = insert (Cid 3) (\<Union>d\<in>set [Cid 4]. ?r d)"
    by (rule reach_stored [where data = "[4]"]) (simp_all add: link_blocks_def)
  moreover have "?r (Cid 2) = insert (Cid 2) (\<Union>d\<in>set [Cid 3, Cid 4]. ?r d)"
    by (rule reach_stored [where data = "[3, 4]"]) (simp_all add: link_blocks_def)
  ultimately show ?thesis by auto
qed

lemma reach_full_store:
  "reach link_blocks (content unary_cid_lib (\<lambda>s. s) full_store) (Cid 2) = {Cid 2, Cid 3, Cid 4}"
  using reach_part_store by (simp add: reach_def links_full_store)

section \<open>Properties\<close>

text \<open>
  C14. On an acyclic block graph \<open>missing_blocks\<close> returns, and the CIDs it lists are exactly
  the reachable ones the store does not hold.
\<close>

theorem missing_blocks_correct:
  assumes "kvdb_ok cl kv tbl"
    and "wfP (\<lambda>d c. links bl (content cl tbl s) c d)"
    and "db_answers cl kv s (reach bl (content cl tbl s) root)"
    and "blocks_decode bl (content cl tbl s) (reach bl (content cl tbl s) root)"
  shows "\<exists>ms. missing_blocks cl kv bl s root = Some (Ok ms) \<and>
    set ms = {d \<in> reach bl (content cl tbl s) root. content cl tbl s d = None}"
  using assms by (rule missing_blocks_returns)

theorem missing_blocks_correct_witness:
  "\<exists>ms. missing_blocks unary_cid_lib (mem_kvdb unary_cid_lib) link_blocks part_store (Cid 2) =
     Some (Ok ms) \<and> set ms = {Cid 4}"
proof -
  have "{d \<in> {Cid 2, Cid 3, Cid 4}.
      content unary_cid_lib (\<lambda>s. s) part_store d = None} = {Cid 4}"
    by auto
  then show ?thesis
    using missing_blocks_correct [OF mem_kvdb_ok wfP_links_part_store mem_kvdb_answers
        link_blocks_decode, of "Cid 2"]
    by (simp add: reach_part_store)
qed

text \<open>
  C12. When every reachable block is stored, valid and decodable and there are finitely many,
  \<open>dag_traversal\<close> returns for every iteration order of its hash sets, and the result lists
  every reachable CID exactly once, each with the data the store holds for it.
\<close>

theorem dag_traversal_complete:
  assumes "cid_lib_ok cl" and "kvdb_ok cl kv tbl" and "picks_member pick"
    and "finite (reach bl (content cl tbl s) root)"
    and "db_answers cl kv s (reach bl (content cl tbl s) root)"
    and "blocks_decode bl (content cl tbl s) (reach bl (content cl tbl s) root)"
    and "\<forall>d \<in> reach bl (content cl tbl s) root. content cl tbl s d \<noteq> None"
  shows "\<exists>res. dag_traversal pick cl kv bl s root = Some (Ok res) \<and>
    distinct (map fst res) \<and> set (map fst res) = reach bl (content cl tbl s) root \<and>
    (\<forall>(c, d) \<in> set res. content cl tbl s c = Some d)"
  using assms by (rule dag_traversal_Ok)

theorem dag_traversal_complete_witness:
  "\<exists>res. dag_traversal (\<lambda>_ S. Min S) unary_cid_lib (mem_kvdb unary_cid_lib) link_blocks
     full_store (Cid 2) = Some (Ok res) \<and>
     distinct (map fst res) \<and> set (map fst res) = {Cid 2, Cid 3, Cid 4} \<and>
     (\<forall>(c, d) \<in> set res. content unary_cid_lib (\<lambda>s. s) full_store c = Some d)"
  using dag_traversal_complete [OF unary_cid_lib_ok mem_kvdb_ok picks_member_Min _ mem_kvdb_answers
      link_blocks_decode, of full_store "Cid 2"]
  by (simp only: reach_full_store) simp

text \<open>
  When a reachable block is missing (and the database and the decoder do not fail),
  \<open>dag_traversal\<close> returns the error that names the root, never a partial list.
\<close>

theorem dag_traversal_missing:
  assumes "cid_lib_ok cl" and "kvdb_ok cl kv tbl" and "picks_member pick"
    and "finite (reach bl (content cl tbl s) root)"
    and "db_answers cl kv s (reach bl (content cl tbl s) root)"
    and "blocks_decode bl (content cl tbl s) (reach bl (content cl tbl s) root)"
    and "d \<in> reach bl (content cl tbl s) root" and "content cl tbl s d = None"
  shows "dag_traversal pick cl kv bl s root = Some (Err (MissingDag root))"
  using assms by (rule dag_traversal_Err)

theorem dag_traversal_missing_witness:
  "dag_traversal (\<lambda>_ S. Min S) unary_cid_lib (mem_kvdb unary_cid_lib) link_blocks
     part_store (Cid 2) = Some (Err (MissingDag (Cid 2)))"
  by (rule dag_traversal_missing [where d = "Cid 4",
        OF unary_cid_lib_ok mem_kvdb_ok picks_member_Min _ mem_kvdb_answers link_blocks_decode])
    (simp_all only: reach_part_store, simp_all)

text \<open>
  C28. The two walks agree: on a finite acyclic graph \<open>missing_blocks\<close> reports nothing exactly
  when \<open>dag_traversal\<close> succeeds.
\<close>

theorem missing_blocks_iff_dag_traversal:
  assumes "cid_lib_ok cl" and "kvdb_ok cl kv tbl" and "picks_member pick"
    and "wfP (\<lambda>d c. links bl (content cl tbl s) c d)"
    and "finite (reach bl (content cl tbl s) root)"
    and "db_answers cl kv s (reach bl (content cl tbl s) root)"
    and "blocks_decode bl (content cl tbl s) (reach bl (content cl tbl s) root)"
  shows "missing_blocks cl kv bl s root = Some (Ok []) \<longleftrightarrow>
    (\<exists>res. dag_traversal pick cl kv bl s root = Some (Ok res))"
proof -
  let ?R = "reach bl (content cl tbl s) root"
  have walk: "(\<exists>res. dag_traversal pick cl kv bl s root = Some (Ok res)) \<longleftrightarrow>
      (\<forall>d\<in>?R. content cl tbl s d \<noteq> None)"
  proof -
    have "dag_traversal pick cl kv bl s root = dag_loop pick cl kv bl s root 0 {root} {} []"
      using assms(1) by (simp add: dag_traversal_def)
    with dag_loop_total [OF assms(1-3,5-7) dag_inv_init, of 0] show ?thesis
      using dag_inv_done_stored by (elim disjE exE conjE) (metis, simp)
  qed
  from missing_blocks_returns [OF assms(2,4,6,7)] obtain ms
    where ms: "missing_blocks cl kv bl s root = Some (Ok ms)"
      and set_ms: "set ms = {d \<in> ?R. content cl tbl s d = None}"
    by blast
  have "ms = [] \<longleftrightarrow> {d \<in> ?R. content cl tbl s d = None} = {}"
    unfolding set_ms [symmetric] by simp
  with ms show ?thesis unfolding walk by (simp add: Ball_def)
qed

theorem missing_blocks_iff_dag_traversal_witness:
  "missing_blocks unary_cid_lib (mem_kvdb unary_cid_lib) link_blocks part_store (Cid 2) =
     Some (Ok []) \<longleftrightarrow>
   (\<exists>res. dag_traversal (\<lambda>_ S. Min S) unary_cid_lib (mem_kvdb unary_cid_lib) link_blocks
     part_store (Cid 2) = Some (Ok res))"
  by (rule missing_blocks_iff_dag_traversal [OF unary_cid_lib_ok mem_kvdb_ok picks_member_Min
        wfP_links_part_store _ mem_kvdb_answers link_blocks_decode])
    (simp only: reach_part_store, simp)

text \<open>
  After a successful insertion the block is contained and read back unchanged, and every
  other block reads as before.
\<close>

theorem insert_then_get:
  assumes "cid_lib_ok cl" and "kvdb_ok cl kv tbl" and "insert_block cl kv s b = Ok s'"
    and "contains cl kv s' (block_cid b) = Ok x" and "get cl kv s' (block_cid b) = Ok v"
    and "c \<noteq> block_cid b" and "get cl kv s c = Ok w" and "get cl kv s' c = Ok w'"
  shows "x \<and> v = Some (block_data b) \<and> w' = w"
proof -
  have good: "cid_lib_ok cl \<and> kvdb_ok cl kv tbl" using assms(1,2) by simp
  show ?thesis
    using bitswap.has_after_add [OF good assms(3,4)] bitswap.read_after_add [OF good assms(3,5)]
      bitswap.read_frame [OF good assms(3,6,8,7)]
    by simp
qed

theorem insert_then_get_witness:
  "\<exists>s'. insert_block unary_cid_lib (mem_kvdb unary_cid_lib) part_store
      \<lparr>block_cid = Cid 4, block_data = [7]\<rparr> = Ok s' \<and>
    get unary_cid_lib (mem_kvdb unary_cid_lib) s' (Cid 4) = Ok (Some [7]) \<and>
    get unary_cid_lib (mem_kvdb unary_cid_lib) s' (Cid 3) = Ok (Some [4])"
proof -
  let ?cl = unary_cid_lib and ?kv = "mem_kvdb unary_cid_lib"
  let ?b = "\<lparr>block_cid = Cid 4, block_data = [7::byte]\<rparr>"
  obtain s' where s': "insert_block ?cl ?kv part_store ?b = Ok s'"
    by (simp add: insert_block_def mem_kvdb_def)
  have cont: "contains ?cl ?kv s' c = Ok (content ?cl (\<lambda>s. s) s' c \<noteq> None)" for c
    by (simp add: contains_def content_def mem_kvdb_def)
  have rd: "get ?cl ?kv t c = Ok (content ?cl (\<lambda>s. s) t c)" for t c
    by (simp add: get_def content_def mem_kvdb_def)
  show ?thesis
    using s' insert_then_get [where c = "Cid 3", OF unary_cid_lib_ok mem_kvdb_ok s' cont rd _ rd rd]
    by (auto simp: rd)
qed

end
