(* ===== verification/Signed_Head.thy ===== *)
theory Signed_Head
  imports Ursa_Prelude
begin

text \<open>
  The signed head of the advertisement chain, \<open>crates/ursa-index-provider/src/signed_head.rs\<close>:
  signing and opening, and the JSON form in which every byte string is
  \<open>{"/": {"bytes": base64}}\<close> and a CID is \<open>{"/": text}\<close>. Keys, base64 and the CID text form are
  parameters.

  The lemmas show that a signed head opens to the signing key and the signed CID, that an
  opened head always carries a signature the embedded key accepts, and that decoding the JSON
  form inverts encoding; every malformed shape is mapped to its own error.
\<close>

section \<open>Parameters: keys and base64\<close>

record key_lib =
  key_sign :: "keypair \<Rightarrow> bytes \<Rightarrow> (string, bytes) outcome"
  key_public :: "keypair \<Rightarrow> public_key"
  pk_to_protobuf :: "public_key \<Rightarrow> bytes"
  pk_from_protobuf :: "bytes \<Rightarrow> public_key option"
  pk_verify :: "public_key \<Rightarrow> bytes \<Rightarrow> bytes \<Rightarrow> bool"

text \<open>Documented behaviour of the key library: its encodings decode and its signatures verify.\<close>

definition key_lib_ok :: "key_lib \<Rightarrow> bool" where
  "key_lib_ok kl \<longleftrightarrow>
     (\<forall>pk. pk_from_protobuf kl (pk_to_protobuf kl pk) = Some pk) \<and>
     (\<forall>k m sig. key_sign kl k m = Ok sig \<longrightarrow> pk_verify kl (key_public kl k) m sig)"

record base64_lib =
  b64_encode :: "bytes \<Rightarrow> string"
  b64_decode :: "string \<Rightarrow> (string, bytes) outcome"

definition base64_ok :: "base64_lib \<Rightarrow> bool" where
  "base64_ok b64 \<longleftrightarrow> (\<forall>b. b64_decode b64 (b64_encode b64 b) = Ok b)"

section \<open>SignedHead\<close>

record signed_head =
  sh_head :: cid
  sh_sig :: bytes
  sh_pubkey :: bytes

datatype signed_head_error = InvalidSignature | InvalidPublicKey

definition signed_head_new ::
  "cid_lib \<Rightarrow> key_lib \<Rightarrow> keypair \<Rightarrow> cid \<Rightarrow> (string, signed_head) outcome" where
  "signed_head_new cl kl signing_key c =
     obind (key_sign kl signing_key (cid_to_bytes cl c)) (\<lambda>sig.
       Ok \<lparr>sh_head = c, sh_sig = sig, sh_pubkey = pk_to_protobuf kl (key_public kl signing_key)\<rparr>)"

definition signed_head_open ::
  "cid_lib \<Rightarrow> key_lib \<Rightarrow> signed_head \<Rightarrow> (signed_head_error, public_key \<times> cid) outcome" where
  "signed_head_open cl kl sh =
     (case pk_from_protobuf kl (sh_pubkey sh) of
        None \<Rightarrow> Err InvalidPublicKey
      | Some pk \<Rightarrow>
          if \<not> pk_verify kl pk (cid_to_bytes cl (sh_head sh)) (sh_sig sh) then Err InvalidSignature
          else Ok (pk, sh_head sh))"

section \<open>JSON form\<close>

text \<open>
  \<open>serde_json::Value\<close>: strings and objects as association lists; the sources never look into
  the other variants.
\<close>

datatype json = JStr string | JObj "(string \<times> json) list" | JOther nat

definition json_get :: "string \<Rightarrow> json \<Rightarrow> json option" where
  "json_get k v = (case v of JObj m \<Rightarrow> map_of m k | _ \<Rightarrow> None)"

definition json_as_str :: "json \<Rightarrow> string option" where
  "json_as_str v = (case v of JStr s \<Rightarrow> Some s | _ \<Rightarrow> None)"

definition ok_or :: "'e \<Rightarrow> 'a option \<Rightarrow> ('e, 'a) outcome" where
  "ok_or e x = (case x of Some a \<Rightarrow> Ok a | None \<Rightarrow> Err e)"

definition from_bytes_to_map :: "base64_lib \<Rightarrow> bytes \<Rightarrow> (string \<times> json) list" where
  "from_bytes_to_map b64 b = [(''/'', JObj [(''bytes'', JStr (b64_encode b64 b))])]"

definition from_map_to_bytes ::
  "base64_lib \<Rightarrow> (string \<times> json) list \<Rightarrow> (string, bytes) outcome" where
  "from_map_to_bytes b64 m =
     obind (ok_or ''Missing link key'' (map_of m ''/'')) (\<lambda>v.
     obind (ok_or ''Missing bytes key'' (json_get ''bytes'' v)) (\<lambda>w.
     obind (ok_or ''missing bytes string'' (json_as_str w)) (b64_decode b64)))"

definition from_cid_to_map :: "cid_lib \<Rightarrow> cid \<Rightarrow> (string \<times> json) list" where
  "from_cid_to_map cl c = [(''/'', JStr (cid_to_string cl c))]"

definition from_map_to_cid :: "cid_lib \<Rightarrow> (string \<times> json) list \<Rightarrow> (string, cid) outcome" where
  "from_map_to_cid cl m =
     obind (ok_or ''Cid entry is missing'' (map_of m ''/'')) (\<lambda>v.
     obind (ok_or ''Cid str is missing'' (json_as_str v)) (\<lambda>s.
     ok_or ''invalid cid'' (cid_from_str cl s)))"

text \<open>
  The derived serialisation of \<open>SignedHead\<close>: one member per field, each in the form its
  \<open>serde_as\<close> attribute names. The derived decoder reads the members by name.
\<close>

definition signed_head_to_json :: "cid_lib \<Rightarrow> base64_lib \<Rightarrow> signed_head \<Rightarrow> json" where
  "signed_head_to_json cl b64 sh =
     JObj [(''head'', JObj (from_cid_to_map cl (sh_head sh))),
           (''sig'', JObj (from_bytes_to_map b64 (sh_sig sh))),
           (''pubkey'', JObj (from_bytes_to_map b64 (sh_pubkey sh)))]"

definition json_member :: "string \<Rightarrow> json \<Rightarrow> (string, (string \<times> json) list) outcome" where
  "json_member k v =
     (case json_get k v of
        Some (JObj m) \<Rightarrow> Ok m
      | Some _ \<Rightarrow> Err ''invalid type''
      | None \<Rightarrow> Err ''missing field'')"

definition signed_head_from_json ::
  "cid_lib \<Rightarrow> base64_lib \<Rightarrow> json \<Rightarrow> (string, signed_head) outcome" where
  "signed_head_from_json cl b64 v =
     obind (obind (json_member ''head'' v) (from_map_to_cid cl)) (\<lambda>h.
     obind (obind (json_member ''sig'' v) (from_map_to_bytes b64)) (\<lambda>sig.
     obind (obind (json_member ''pubkey'' v) (from_map_to_bytes b64)) (\<lambda>pk.
       Ok \<lparr>sh_head = h, sh_sig = sig, sh_pubkey = pk\<rparr>)))"

section \<open>Lemmas\<close>

lemma ok_or_eq_Ok [outcome_simps]: "ok_or e x = Ok a \<longleftrightarrow> x = Some a"
  by (simp add: ok_or_def split: option.splits)

lemma ok_or_simps [simp]: "ok_or e (Some a) = Ok a" "ok_or e None = Err e"
  by (simp_all add: ok_or_def)

lemma json_get_JObj [simp]: "json_get k (JObj m) = map_of m k"
  by (simp add: json_get_def)

lemma json_as_str_JStr [simp]: "json_as_str (JStr s) = Some s"
  by (simp add: json_as_str_def)

lemma bytes_map_roundtrip [simp]:
  "base64_ok b64 \<Longrightarrow> from_map_to_bytes b64 (from_bytes_to_map b64 b) = Ok b"
  by (simp add: from_map_to_bytes_def from_bytes_to_map_def base64_ok_def)

lemma cid_map_roundtrip [simp]:
  "cid_lib_ok cl \<Longrightarrow> from_map_to_cid cl (from_cid_to_map cl c) = Ok c"
  by (simp add: from_map_to_cid_def from_cid_to_map_def)

lemma signed_head_open_eq_Ok:
  "signed_head_open cl kl sh = Ok (pk, c) \<longleftrightarrow>
     c = sh_head sh \<and> pk_from_protobuf kl (sh_pubkey sh) = Some pk \<and>
     pk_verify kl pk (cid_to_bytes cl c) (sh_sig sh)"
  by (auto simp: signed_head_open_def split: option.splits if_splits)

lemma signed_head_new_open:
  assumes "key_lib_ok kl" and "signed_head_new cl kl k c = Ok sh"
  shows "signed_head_open cl kl sh = Ok (key_public kl k, c)"
  using assms
  by (auto simp: signed_head_new_def signed_head_open_eq_Ok key_lib_ok_def outcome_simps)

lemma signed_head_json_roundtrip:
  "cid_lib_ok cl \<Longrightarrow> base64_ok b64 \<Longrightarrow>
   signed_head_from_json cl b64 (signed_head_to_json cl b64 sh) = Ok sh"
  by (simp add: signed_head_from_json_def signed_head_to_json_def json_member_def)

text \<open>
  A key library and a base64 stand-in for closed instances: a signature is the key number
  followed by the message.
\<close>

definition toy_key_lib :: key_lib where
  "toy_key_lib =
     \<lparr>key_sign = (\<lambda>k m. case k of Ed25519 n \<Rightarrow> Ok (word_of_nat n # m) | OtherKeypair n \<Rightarrow> Err ''unsupported''),
      key_public = (\<lambda>k. case k of Ed25519 n \<Rightarrow> PublicKey n | OtherKeypair n \<Rightarrow> PublicKey n),
      pk_to_protobuf = (\<lambda>pk. case pk of PublicKey n \<Rightarrow> replicate n 1),
      pk_from_protobuf = (\<lambda>b. Some (PublicKey (length b))),
      pk_verify = (\<lambda>pk m sig. case pk of PublicKey n \<Rightarrow> sig = word_of_nat n # m)\<rparr>"

definition toy_base64 :: base64_lib where
  "toy_base64 = \<lparr>b64_encode = bytes_to_string, b64_decode = (\<lambda>s. Ok (as_bytes s))\<rparr>"

lemma toy_key_lib_ok [simp]: "key_lib_ok toy_key_lib"
  by (simp add: key_lib_ok_def toy_key_lib_def split: public_key.splits keypair.splits)

lemma toy_base64_ok [simp]: "base64_ok toy_base64"
  by (simp add: base64_ok_def toy_base64_def)

section \<open>Properties\<close>

text \<open>
  C29. A head signed by a key survives the JSON round trip and opens to that key's public key
  and the signed CID.
\<close>

theorem signed_head_publish_roundtrip:
  assumes "cid_lib_ok cl" and "key_lib_ok kl" and "base64_ok b64"
    and "signed_head_new cl kl k c = Ok sh"
  shows "obind (map_err (\<lambda>_. InvalidSignature)
           (signed_head_from_json cl b64 (signed_head_to_json cl b64 sh))) (signed_head_open cl kl)
         = Ok (key_public kl k, c)"
  using assms by (simp add: signed_head_json_roundtrip signed_head_new_open)

theorem signed_head_publish_roundtrip_witness:
  "\<exists>sh. signed_head_new unary_cid_lib toy_key_lib (Ed25519 3) (Cid 2) = Ok sh \<and>
     obind (map_err (\<lambda>_. InvalidSignature)
       (signed_head_from_json unary_cid_lib toy_base64
          (signed_head_to_json unary_cid_lib toy_base64 sh)))
       (signed_head_open unary_cid_lib toy_key_lib) = Ok (PublicKey 3, Cid 2)"
proof -
  obtain sh where sh: "signed_head_new unary_cid_lib toy_key_lib (Ed25519 3) (Cid 2) = Ok sh"
    by (simp add: signed_head_new_def toy_key_lib_def)
  show ?thesis
    using sh signed_head_publish_roundtrip [OF unary_cid_lib_ok toy_key_lib_ok toy_base64_ok sh]
    by (simp add: toy_key_lib_def)
qed

end
