(* ===== verification/Advertisement.thy ===== *)
theory Advertisement
  imports Ursa_Prelude
begin

text \<open>
  Advertisements and their signature, \<open>crates/ursa-index-provider/src/advertisement.rs\<close>. The
  hash, the signed envelope, the serialisation of the metadata and the serde conversion to
  IPLD are parameters (\<open>ad_lib\<close>).

  The lemmas show which advertisements can be signed at all, what the signed payload is, and
  that a freshly built advertisement never fails in the checks of \<open>sig_payload\<close>.
\<close>

section \<open>IPLD values\<close>

text \<open>
  \<open>forest_ipld::Ipld\<close>: the sources build and match bytes and links; maps are what serde makes
  of a struct; every other variant is \<open>IpldOther\<close>.
\<close>

datatype ipld = IpldBytes bytes | IpldLink cid | IpldMap "(string \<times> ipld) list" | IpldOther nat

definition MAX_ENTRIES :: nat where
  "MAX_ENTRIES = 6250000"

definition AD_SIGNATURE_CODEC :: string where
  "AD_SIGNATURE_CODEC = ''/indexer/ingest/adSignature''"

definition AD_SIGNATURE_DOMAIN :: string where
  "AD_SIGNATURE_DOMAIN = ''indexer''"

record metadata =
  ProtocolID :: "128 word"
  Data :: bytes

record advertisement =
  PreviousID :: "ipld option"
  Provider :: string
  Addresses :: "string list"
  Signature :: ipld
  Entries :: "ipld option"
  ContextID :: ipld
  Metadata :: ipld
  IsRm :: bool

record entry_chunk =
  ChunkEntries :: "ipld list"
  Next :: "ipld option"

datatype ad_sig_error =
    InvalidPreviousID
  | InvalidEntryChunkLink
  | InvalidMetadata
  | MissingSig
  | SigningError string
  | DecodingError string
  | ReadPayloadError string
  | PayloadDidNotMatch

fun ad_sig_error_msg :: "ad_sig_error \<Rightarrow> string" where
  "ad_sig_error_msg InvalidPreviousID = ''Invalid Previous ID''"
| "ad_sig_error_msg InvalidEntryChunkLink = ''Invalid Entry Chunk Link''"
| "ad_sig_error_msg InvalidMetadata = ''Invalid Metadata''"
| "ad_sig_error_msg MissingSig = ''Missing Signature''"
| "ad_sig_error_msg (SigningError e) = ''Failed to sign advertisement: '' @ e"
| "ad_sig_error_msg (DecodingError e) = ''Failed to decode sig: '' @ e"
| "ad_sig_error_msg (ReadPayloadError e) = ''Failed to read signed payload: '' @ e"
| "ad_sig_error_msg PayloadDidNotMatch = ''Payload did not match expected''"

section \<open>Parameters\<close>

text \<open>
  \<open>envelope_new key domain payload_type payload\<close> is \<open>SignedEnvelope::new\<close>, an envelope being
  opaque; \<open>envelope_to_protobuf\<close> is \<open>into_protobuf_encoding\<close>.
\<close>

record ad_lib =
  sha2_256_multihash :: "bytes \<Rightarrow> bytes"
  envelope_new :: "keypair \<Rightarrow> string \<Rightarrow> bytes \<Rightarrow> bytes \<Rightarrow> (string, nat) outcome"
  envelope_to_protobuf :: "nat \<Rightarrow> bytes"
  bincode_metadata :: "metadata \<Rightarrow> bytes result"
  peer_to_base58 :: "peer_id \<Rightarrow> string"
  ad_to_ipld :: "advertisement \<Rightarrow> ipld result"
  ad_from_ipld :: "ipld \<Rightarrow> advertisement option"

text \<open>Documented behaviour of serde: an advertisement converted to IPLD deserialises to itself.\<close>

definition ad_lib_ok :: "ad_lib \<Rightarrow> bool" where
  "ad_lib_ok al \<longleftrightarrow> (\<forall>ad i. ad_to_ipld al ad = Ok i \<longrightarrow> ad_from_ipld al i = Some ad)"

section \<open>Operations\<close>

definition advertisement_new ::
  "ad_lib \<Rightarrow> bytes \<Rightarrow> peer_id \<Rightarrow> string list \<Rightarrow> bool \<Rightarrow> advertisement result" where
  "advertisement_new al context_id provider addresses is_rm =
     obind (unwrap (bincode_metadata al \<lparr>ProtocolID = 0x0900, Data = []\<rparr>)) (\<lambda>metadata.
       Ok \<lparr>PreviousID = None, Provider = peer_to_base58 al provider, Addresses = addresses,
           Signature = IpldBytes [], Entries = None, ContextID = IpldBytes context_id,
           Metadata = IpldBytes metadata, IsRm = is_rm\<rparr>)"

text \<open>A link field of the payload: the CID bytes, nothing when absent, an error otherwise.\<close>

definition link_bytes :: "cid_lib \<Rightarrow> ad_sig_error \<Rightarrow> ipld option \<Rightarrow> (ad_sig_error, bytes) outcome" where
  "link_bytes cl e f =
     (case f of
        Some (IpldLink l) \<Rightarrow> Ok (cid_to_bytes cl l)
      | None \<Rightarrow> Ok []
      | _ \<Rightarrow> Err e)"

definition sig_payload :: "cid_lib \<Rightarrow> ad_lib \<Rightarrow> advertisement \<Rightarrow> (ad_sig_error, bytes) outcome" where
  "sig_payload cl al ad =
     obind (link_bytes cl InvalidPreviousID (PreviousID ad)) (\<lambda>previous_id_bytes.
     obind (link_bytes cl InvalidEntryChunkLink (Entries ad)) (\<lambda>entrychunk_link_bytes.
     obind (case Metadata ad of IpldBytes b \<Rightarrow> Ok b | _ \<Rightarrow> Err InvalidMetadata) (\<lambda>metadata.
       let is_rm_payload = (if IsRm ad then [1] else [0]);
           payload = previous_id_bytes @ entrychunk_link_bytes @ as_bytes (Provider ad) @
             concat (map as_bytes (Addresses ad)) @ metadata @ is_rm_payload
       in Ok (sha2_256_multihash al payload))))"

definition sign :: "cid_lib \<Rightarrow> ad_lib \<Rightarrow> keypair \<Rightarrow> advertisement \<Rightarrow> (ad_sig_error, nat) outcome" where
  "sign cl al signing_key ad =
     obind (sig_payload cl al ad) (\<lambda>payload.
       map_err SigningError
         (envelope_new al signing_key AD_SIGNATURE_DOMAIN (as_bytes AD_SIGNATURE_CODEC) payload))"

definition entry_chunk_new :: "ipld list \<Rightarrow> ipld option \<Rightarrow> entry_chunk" where
  "entry_chunk_new entries nxt = \<lparr>ChunkEntries = entries, Next = nxt\<rparr>"

section \<open>Lemmas\<close>

definition link_or_none :: "ipld option \<Rightarrow> bool" where
  "link_or_none f \<longleftrightarrow> (case f of None \<Rightarrow> True | Some (IpldLink l) \<Rightarrow> True | _ \<Rightarrow> False)"

lemma link_bytes_eq_Ok_iff: "(\<exists>b. link_bytes cl e f = Ok b) \<longleftrightarrow> link_or_none f"
  by (auto simp: link_bytes_def link_or_none_def split: option.splits ipld.splits)

lemma link_bytes_cases:
  "link_bytes cl e f = (if link_or_none f then Ok (case f of Some (IpldLink l) \<Rightarrow> cid_to_bytes cl l | _ \<Rightarrow> [])
                        else Err e)"
  by (auto simp: link_bytes_def link_or_none_def split: option.splits ipld.splits)

lemma link_or_none_link [simp]: "link_or_none (Some (IpldLink l))" "link_or_none None"
  "link_or_none (map_option IpldLink h)"
  by (auto simp: link_or_none_def split: option.splits)

definition ad_signable :: "advertisement \<Rightarrow> bool" where
  "ad_signable ad \<longleftrightarrow>
     link_or_none (PreviousID ad) \<and> link_or_none (Entries ad) \<and> (\<exists>b. Metadata ad = IpldBytes b)"

lemma sig_payload_ok_iff: "is_ok (sig_payload cl al ad) \<longleftrightarrow> ad_signable ad"
  by (auto simp: sig_payload_def ad_signable_def link_bytes_cases Let_def split: ipld.splits)

lemma ad_signable_new: "advertisement_new al c p as r = Ok ad \<Longrightarrow> ad_signable ad"
  by (auto simp: advertisement_new_def ad_signable_def outcome_simps)

section \<open>Properties\<close>

text \<open>
  An advertisement built by \<open>new\<close>, linked into a chain and given entry links as the
  provider does, always passes the checks of \<open>sig_payload\<close>, and the signed digest is that of
  the concatenation previous link, entries link, provider, addresses, metadata, removal flag.
\<close>

theorem new_ad_sig_payload:
  assumes "advertisement_new al ctx p addrs r = Ok ad"
  shows "\<exists>md. bincode_metadata al \<lparr>ProtocolID = 0x0900, Data = []\<rparr> = Ok md \<and>
    sig_payload cl al (ad\<lparr>PreviousID := map_option IpldLink prev, Entries := map_option IpldLink ent\<rparr>) =
      Ok (sha2_256_multihash al
        ((case prev of None \<Rightarrow> [] | Some c \<Rightarrow> cid_to_bytes cl c) @
         (case ent of None \<Rightarrow> [] | Some c \<Rightarrow> cid_to_bytes cl c) @
         as_bytes (peer_to_base58 al p) @ as_bytes (concat addrs) @ md @ [if r then 1 else 0]))"
proof -
  have "concat (map as_bytes xs) = as_bytes (concat xs)" for xs
    by (induction xs) (simp_all add: as_bytes_def)
  with assms show ?thesis
    by (auto simp: advertisement_new_def sig_payload_def link_bytes_def Let_def outcome_simps
        split: option.splits)
qed

text \<open>A concrete parameter set for closed instances; the digest is the payload itself.\<close>

fun ipld_of_opt :: "ipld option \<Rightarrow> ipld" where
  "ipld_of_opt None = IpldMap []"
| "ipld_of_opt (Some i) = IpldMap [(''k'', i)]"

fun opt_of_ipld :: "ipld \<Rightarrow> ipld option" where
  "opt_of_ipld (IpldMap [(k, i)]) = Some i"
| "opt_of_ipld i = None"

definition plain_to_ipld :: "advertisement \<Rightarrow> ipld" where
  "plain_to_ipld ad =
     IpldMap [(Provider ad, ipld_of_opt (PreviousID ad)), (''k'', ipld_of_opt (Entries ad)),
       (''k'', IpldMap (map (\<lambda>s. (s, IpldOther 0)) (Addresses ad))), (''k'', Signature ad),
       (''k'', ContextID ad), (''k'', Metadata ad), (''k'', IpldOther (if IsRm ad then 1 else 0))]"

fun plain_from_ipld :: "ipld \<Rightarrow> advertisement option" where
  "plain_from_ipld (IpldMap [(pr, p), (_, e), (_, IpldMap as), (_, sg), (_, ctx), (_, md), (_, IpldOther r)]) =
     Some \<lparr>PreviousID = opt_of_ipld p, Provider = pr, Addresses = map fst as, Signature = sg,
       Entries = opt_of_ipld e, ContextID = ctx, Metadata = md, IsRm = (r = 1)\<rparr>"
| "plain_from_ipld i = None"

definition plain_ad_lib :: ad_lib where
  "plain_ad_lib =
     \<lparr>sha2_256_multihash = (\<lambda>b. b), envelope_new = (\<lambda>k d t p. Ok (length p)),
      envelope_to_protobuf = (\<lambda>n. replicate n 7), bincode_metadata = (\<lambda>m. Ok [0, 9]),
      peer_to_base58 = (\<lambda>p. ''peer''), ad_to_ipld = (\<lambda>ad. Ok (plain_to_ipld ad)),
      ad_from_ipld = plain_from_ipld\<rparr>"

lemma opt_of_ipld_of_opt [simp]: "opt_of_ipld (ipld_of_opt x) = x"
  by (cases x) simp_all

lemma plain_ad_lib_ok [simp]: "ad_lib_ok plain_ad_lib"
  by (simp add: ad_lib_ok_def plain_ad_lib_def plain_to_ipld_def comp_def)

theorem new_ad_sig_payload_witness:
  "\<exists>ad. advertisement_new plain_ad_lib [5] (PeerId 0) [''ab'', ''c''] False = Ok ad \<and>
     sig_payload unary_cid_lib plain_ad_lib
       (ad\<lparr>PreviousID := Some (IpldLink (Cid 2)), Entries := None\<rparr>) =
       Ok ([1, 1] @ as_bytes ''peerabc'' @ [0, 9, 0])"
proof -
  obtain ad where ad: "advertisement_new plain_ad_lib [5] (PeerId 0) [''ab'', ''c''] False = Ok ad"
    by (simp add: advertisement_new_def plain_ad_lib_def)
  show ?thesis
    using ad new_ad_sig_payload [OF ad, where cl = unary_cid_lib and prev = "Some (Cid 2)" and ent = None]
    by (simp add: plain_ad_lib_def unary_cid_lib_def numeral_2_eq_2 as_bytes_def)
qed

text \<open>
  The payload check is exact: signing can fail in this crate only because a link field is
  neither absent nor a link or the metadata are not bytes, and the first such field decides
  the error.
\<close>

theorem sig_payload_errors:
  "sig_payload cl al ad = Err e \<longleftrightarrow>
     (if \<not> link_or_none (PreviousID ad) then e = InvalidPreviousID
      else if \<not> link_or_none (Entries ad) then e = InvalidEntryChunkLink
      else (\<forall>b. Metadata ad \<noteq> IpldBytes b) \<and> e = InvalidMetadata)"
  by (auto simp: sig_payload_def link_bytes_cases Let_def split: ipld.splits)



end
