(* ===== verification/Index_Provider.thy ===== *)
theory Index_Provider
  imports Advertisement Signed_Head
begin

text \<open>
  The index provider, \<open>crates/ursa-index-provider/src/provider.rs\<close>: the chain of published
  advertisements, the advertisements under construction, the announcement message and the two
  HTTP handlers. Its lock-protected fields are one state record \<open>provider\<close>; each method takes
  the record and returns its outcome with the new record. The block store, the CBOR
  encoders and the multiaddress parser are parameters.

  The lemmas show the interface that the network service relies on (\<open>ad_publisher\<close>): chunks
  added to an advertisement form a chain from its entries link, and publishing puts the
  advertisement in front of the chain that starts at the head. They also show what the error
  paths leave behind: \<open>publish\<close> takes the head before it looks for the advertisement, so every
  failing call leaves no head.
\<close>

section \<open>State\<close>

type_synonym usize = "64 word"

record provider_config =
  local_address :: string
  port :: "16 word"
  domain :: string
  indexer_url :: string
  database_path :: string

record 's provider =
  head :: "cid option"
  root_cids :: "cid list"
  prov_keypair :: keypair
  blockstore :: 's
  temp_ads :: "usize \<Rightarrow> advertisement option"
  prov_config :: provider_config

datatype provider_error = NotFoundError error | InternalError error

section \<open>Parameters\<close>

text \<open>
  \<open>put_obj\<close> serialises a value and stores it under the CID of its content; \<open>get_obj\<close> reads a
  stored value back (used in statements only); \<open>get_bytes\<close> reads raw data. The values the
  provider stores are entry chunks and IPLD documents.
\<close>

datatype obj = ObjChunk entry_chunk | ObjIpld ipld

record 's obj_store =
  put_obj :: "'s \<Rightarrow> obj \<Rightarrow> (cid \<times> 's) result"
  get_obj :: "'s \<Rightarrow> cid \<Rightarrow> obj option"
  get_bytes :: "'s \<Rightarrow> cid \<Rightarrow> bytes option result"

text \<open>
  Documented behaviour of content-addressed storage: a stored value is found under the returned
  CID, and storing never changes what another CID refers to.
\<close>

definition obj_store_ok :: "'s obj_store \<Rightarrow> bool" where
  "obj_store_ok os \<longleftrightarrow>
     (\<forall>s v c s'. put_obj os s v = Ok (c, s') \<longrightarrow>
        get_obj os s' c = Some v \<and>
        (\<forall>d w. get_obj os s d = Some w \<longrightarrow> get_obj os s' d = Some w))"

record announce_lib =
  entries_from_slice :: "bytes \<Rightarrow> ipld list result"
  cid_dag_cbor :: "cid \<Rightarrow> bytes"
  addrs_to_vec :: "multiaddr list \<Rightarrow> bytes result"
  empty_bytes_dag_cbor :: bytes
  multiaddr_from_str :: "string \<Rightarrow> multiaddr result"
  multiaddr_to_string :: "multiaddr \<Rightarrow> string"
  peer_to_string :: "peer_id \<Rightarrow> string"

section \<open>Construction and the trait ProviderInterface\<close>

definition provider_new :: "keypair \<Rightarrow> 's \<Rightarrow> provider_config \<Rightarrow> 's provider" where
  "provider_new kp bs config =
     \<lparr>head = None, root_cids = [], prov_keypair = kp, blockstore = bs,
      temp_ads = Map.empty, prov_config = config\<rparr>"

definition provider_config_default :: "string \<Rightarrow> provider_config" where
  "provider_config_default home =
     \<lparr>local_address = ''0.0.0.0'', port = 8070, domain = '''', indexer_url = ''https://dev.cid.contact'',
      database_path = home @ ''/'' @ ''.ursa/data/index_provider_db''\<rparr>"

text \<open>\<open>aid\<close> is the value drawn from the thread-local random generator.\<close>

definition create :: "usize \<Rightarrow> advertisement \<Rightarrow> 's provider \<Rightarrow> usize result \<times> 's provider" where
  "create aid ad p = (Ok aid, p\<lparr>temp_ads := (temp_ads p)(aid \<mapsto> ad\<lparr>Entries := None\<rparr>)\<rparr>)"

definition add_chunk ::
  "cid_lib \<Rightarrow> 's obj_store \<Rightarrow> announce_lib \<Rightarrow> bytes \<Rightarrow> usize \<Rightarrow> 's provider \<Rightarrow>
   unit result \<times> 's provider" where
  "add_chunk cl os an bytes aid p =
     (case unwrap (entries_from_slice an bytes) of
        Ok entries \<Rightarrow>
          (case temp_ads p aid of
             Some ad \<Rightarrow>
               (case put_obj os (blockstore p) (ObjChunk (entry_chunk_new entries (Entries ad))) of
                  Ok (cid, bs) \<Rightarrow>
                    (case convert_cid (cid_try_from cl) (cid_to_bytes cl cid) of
                       Ok l \<Rightarrow>
                         (Ok (), p\<lparr>blockstore := bs,
                            temp_ads := (temp_ads p)(aid \<mapsto> ad\<lparr>Entries := Some (IpldLink l)\<rparr>)\<rparr>)
                     | Err e \<Rightarrow> (Err e, p\<lparr>blockstore := bs\<rparr>)
                     | Panic x \<Rightarrow> (Panic x, p\<lparr>blockstore := bs\<rparr>))
                | Err e \<Rightarrow> (Err e, p)
                | Panic x \<Rightarrow> (Panic x, p))
           | None \<Rightarrow> (Err AdNotFound, p))
      | Err e \<Rightarrow> (Err e, p)
      | Panic x \<Rightarrow> (Panic x, p))"

text \<open>
  \<open>publish\<close>: the head is taken (left \<open>None\<close>) first, then the advertisement is removed from the
  table, linked to the old head, signed, converted and stored; only at the end is the new head
  written.
\<close>

definition ad_error :: "ad_sig_error \<Rightarrow> error" where
  "ad_error e = External (ad_sig_error_msg e)"

definition publish ::
  "cid_lib \<Rightarrow> ad_lib \<Rightarrow> 's obj_store \<Rightarrow> usize \<Rightarrow> 's provider \<Rightarrow> unit result \<times> 's provider" where
  "publish cl al os aid p =
     (let current_head = head p; p1 = p\<lparr>head := None\<rparr> in
      case temp_ads p1 aid of
        None \<Rightarrow> (Err AdNotFound, p1)
      | Some ad \<Rightarrow>
          (let p2 = p1\<lparr>temp_ads := (temp_ads p1)(aid := None)\<rparr>;
               prev = (case current_head of
                         None \<Rightarrow> Ok None
                       | Some h \<Rightarrow> obind (convert_cid (cid_try_from cl) (cid_to_bytes cl h))
                                    (\<lambda>l. Ok (Some (IpldLink l))));
               r = obind prev (\<lambda>pid. let ad1 = ad\<lparr>PreviousID := pid\<rparr> in
                   obind (map_err ad_error (sign cl al (prov_keypair p2) ad1)) (\<lambda>sig.
                   let ad2 = ad1\<lparr>Signature := IpldBytes (envelope_to_protobuf al sig)\<rparr> in
                   obind (ad_to_ipld al ad2) (\<lambda>ipld_ad. put_obj os (blockstore p2) (ObjIpld ipld_ad))))
           in case r of
                Ok (cid, bs) \<Rightarrow> (Ok (), p2\<lparr>blockstore := bs, head := Some cid\<rparr>)
              | Err e \<Rightarrow> (Err e, p2)
              | Panic x \<Rightarrow> (Panic x, p2)))"

record message =
  MsgCid :: cid
  MsgAddrs :: "multiaddr list"

text \<open>The message has a third field \<open>ExtraData\<close> of type \<open>[u8; 0]\<close>, which has one value.\<close>

definition marshal_cbor :: "announce_lib \<Rightarrow> message \<Rightarrow> bytes result" where
  "marshal_cbor an m =
     obind (expect ''addresses serialization cannot fail'' (addrs_to_vec an (MsgAddrs m))) (\<lambda>encoded_addrs.
       Ok ([131] @ cid_dag_cbor an (MsgCid m) @ encoded_addrs @ empty_bytes_dag_cbor an))"

definition create_announce_msg :: "announce_lib \<Rightarrow> peer_id \<Rightarrow> 's provider \<Rightarrow> bytes result" where
  "create_announce_msg an peer_id p =
     obind (multiaddr_from_str an (domain (prov_config p))) (\<lambda>ma.
     obind (multiaddr_from_str an
              (multiaddr_to_string an ma @ ''/http/p2p/'' @ peer_to_string an peer_id)) (\<lambda>ma'.
     (case head p of
        None \<Rightarrow> Panic (Expect ''no head found for announcement'')
      | Some head_cid \<Rightarrow> unwrap (marshal_cbor an \<lparr>MsgCid = head_cid, MsgAddrs = [ma']\<rparr>))))"

text \<open>The HTTP announcement: the URL and the body of the PUT request. Its result is only logged.\<close>

definition announce_http_message :: "'s provider \<Rightarrow> bytes \<Rightarrow> string \<times> bytes" where
  "announce_http_message p announce_msg = (indexer_url (prov_config p) @ ''/ingest/announce'', announce_msg)"

section \<open>HTTP handlers\<close>

definition head_handler ::
  "cid_lib \<Rightarrow> key_lib \<Rightarrow> 's provider \<Rightarrow> (provider_error, signed_head) outcome" where
  "head_handler cl kl state =
     (case head state of
        Some h \<Rightarrow> map_err (\<lambda>e. InternalError (External e)) (signed_head_new cl kl (prov_keypair state) h)
      | None \<Rightarrow> Err (NotFoundError NoHeadFound))"

definition get_block_handler ::
  "cid_lib \<Rightarrow> 's obj_store \<Rightarrow> 's provider \<Rightarrow> string \<Rightarrow> (provider_error, bytes) outcome" where
  "get_block_handler cl os state path =
     (case cid_from_str cl path of
        None \<Rightarrow> Err (InternalError (External ''invalid cid''))
      | Some c \<Rightarrow>
          (case get_bytes os (blockstore state) c of
             Ok (Some d) \<Rightarrow> Ok d
           | Ok None \<Rightarrow> Err (NotFoundError BlockNotFound)
           | Err e \<Rightarrow> Err (InternalError e)
           | Panic x \<Rightarrow> Panic x))"

fun provider_error_status :: "provider_error \<Rightarrow> nat" where
  "provider_error_status (NotFoundError e) = 404"
| "provider_error_status (InternalError e) = 500"

section \<open>The published chain\<close>

text \<open>
  The specification: \<open>entry_chain look e chunks\<close> says that following \<open>Next\<close> from the entries
  link \<open>e\<close> visits chunks with exactly these entry lists; \<open>ad_chain\<close> says that following
  \<open>PreviousID\<close> from a head visits advertisements advertising exactly these chunk lists, the
  newest first.
\<close>

inductive entry_chain :: "(cid \<Rightarrow> obj option) \<Rightarrow> ipld option \<Rightarrow> ipld list list \<Rightarrow> bool"
  for look where
  chain_nil: "entry_chain look None []"
| chain_cons: "look c = Some (ObjChunk ch) \<Longrightarrow> entry_chain look (Next ch) ess \<Longrightarrow>
    entry_chain look (Some (IpldLink c)) (ChunkEntries ch # ess)"

inductive ad_chain ::
  "ad_lib \<Rightarrow> (cid \<Rightarrow> obj option) \<Rightarrow> cid option \<Rightarrow> ipld list list list \<Rightarrow> bool"
  for al look where
  ads_nil: "ad_chain al look None []"
| ads_cons: "look c = Some (ObjIpld i) \<Longrightarrow> ad_from_ipld al i = Some ad \<Longrightarrow>
    PreviousID ad = map_option IpldLink prev \<Longrightarrow> entry_chain look (Entries ad) ess \<Longrightarrow>
    ad_chain al look prev adss \<Longrightarrow> ad_chain al look (Some c) (ess # adss)"

inductive_simps entry_chain_None [simp]: "entry_chain look None ess"
inductive_simps entry_chain_Some: "entry_chain look (Some e) ess"
inductive_simps ad_chain_None [simp]: "ad_chain al look None adss"
inductive_cases ad_chain_SomeE: "ad_chain al look (Some c) adss"

definition pending :: "'s obj_store \<Rightarrow> 's provider \<Rightarrow> usize \<Rightarrow> ipld list list \<Rightarrow> bool" where
  "pending os p aid ess \<longleftrightarrow>
     (\<exists>ad. temp_ads p aid = Some ad \<and> entry_chain (get_obj os (blockstore p)) (Entries ad) ess)"

definition published :: "ad_lib \<Rightarrow> 's obj_store \<Rightarrow> 's provider \<Rightarrow> ipld list list list \<Rightarrow> bool" where
  "published al os p adss \<longleftrightarrow> ad_chain al (get_obj os (blockstore p)) (head p) adss"

lemma entry_chain_mono:
  "entry_chain look e ess \<Longrightarrow> (\<And>c v. look c = Some v \<Longrightarrow> look' c = Some v) \<Longrightarrow> entry_chain look' e ess"
  by (induction rule: entry_chain.induct) (auto intro: entry_chain.intros)

lemma ad_chain_mono:
  "ad_chain al look h adss \<Longrightarrow> (\<And>c v. look c = Some v \<Longrightarrow> look' c = Some v) \<Longrightarrow> ad_chain al look' h adss"
  by (induction rule: ad_chain.induct) (auto intro: ad_chain.intros entry_chain_mono)

lemma put_obj_get: "obj_store_ok os \<Longrightarrow> put_obj os s v = Ok (c, s') \<Longrightarrow> get_obj os s' c = Some v"
  by (auto simp: obj_store_ok_def)

lemma put_obj_keeps:
  "obj_store_ok os \<Longrightarrow> put_obj os s v = Ok (c, s') \<Longrightarrow> get_obj os s d = Some w \<Longrightarrow>
   get_obj os s' d = Some w"
  by (auto simp: obj_store_ok_def)

lemma entry_chain_put:
  assumes "obj_store_ok os" and "put_obj os s (ObjChunk (entry_chunk_new es e)) = Ok (c, s')"
    and "entry_chain (get_obj os s) e ess"
  shows "entry_chain (get_obj os s') (Some (IpldLink c)) (es # ess)"
proof -
  have "entry_chain (get_obj os s') e ess"
    using assms(3) put_obj_keeps [OF assms(1,2)] by (rule entry_chain_mono)
  then show ?thesis
    using chain_cons [of "get_obj os s'" c "entry_chunk_new es e" ess] put_obj_get [OF assms(1,2)]
    by (simp add: entry_chunk_new_def)
qed

lemma add_chunk_OkE:
  assumes "add_chunk cl os an b aid p = (Ok u, p')"
  obtains es ad c bs l where "entries_from_slice an b = Ok es" and "temp_ads p aid = Some ad"
    and "put_obj os (blockstore p) (ObjChunk (entry_chunk_new es (Entries ad))) = Ok (c, bs)"
    and "cid_try_from cl (cid_to_bytes cl c) = Some l"
    and "p' = p\<lparr>blockstore := bs, temp_ads := (temp_ads p)(aid \<mapsto> ad\<lparr>Entries := Some (IpldLink l)\<rparr>)\<rparr>"
  using assms
  by (auto simp: add_chunk_def outcome_simps split: outcome.splits option.splits prod.splits)

lemma publish_OkE:
  assumes "publish cl al os aid p = (Ok u, p')" and "cid_lib_ok cl"
  obtains ad ad' sig i c bs where "temp_ads p aid = Some ad"
    and "ad' = ad\<lparr>PreviousID := map_option IpldLink (head p),
                Signature := IpldBytes (envelope_to_protobuf al sig)\<rparr>"
    and "sign cl al (prov_keypair p) (ad\<lparr>PreviousID := map_option IpldLink (head p)\<rparr>) = Ok sig"
    and "ad_to_ipld al ad' = Ok i" and "put_obj os (blockstore p) (ObjIpld i) = Ok (c, bs)"
    and "p' = p\<lparr>head := Some c, blockstore := bs, temp_ads := (temp_ads p)(aid := None)\<rparr>"
  using assms
  by (auto simp: publish_def Let_def outcome_simps
      split: outcome.splits option.splits prod.splits)

section \<open>The publisher interface\<close>

text \<open>
  What the network service relies on when it publishes a root (trait \<open>ProviderInterface\<close>), for
  the calls that succeed. \<open>pend\<close> relates an advertisement under construction to the chunks
  added so far, \<open>publ\<close> the state to the published advertisements.
\<close>

locale ad_publisher =
  fixes good :: bool
    and decode :: "bytes \<Rightarrow> ipld list result"
    and op_create :: "usize \<Rightarrow> advertisement \<Rightarrow> 'p \<Rightarrow> usize result \<times> 'p"
    and op_add_chunk :: "bytes \<Rightarrow> usize \<Rightarrow> 'p \<Rightarrow> unit result \<times> 'p"
    and op_publish :: "usize \<Rightarrow> 'p \<Rightarrow> unit result \<times> 'p"
    and pend :: "'p \<Rightarrow> usize \<Rightarrow> ipld list list \<Rightarrow> bool"
    and publ :: "'p \<Rightarrow> ipld list list list \<Rightarrow> bool"
  assumes create_ok: "fst (op_create aid ad p) = Ok aid"
    and create_pend: "pend (snd (op_create aid ad p)) aid []"
    and create_publ: "publ p adss \<Longrightarrow> publ (snd (op_create aid ad p)) adss"
    and add_decode: "op_add_chunk b aid p = (Ok (), p') \<Longrightarrow> \<exists>es. decode b = Ok es"
    and add_pend: "good \<Longrightarrow> pend p aid ess \<Longrightarrow> op_add_chunk b aid p = (Ok (), p') \<Longrightarrow>
                     decode b = Ok es \<Longrightarrow> pend p' aid (es # ess)"
    and add_publ: "good \<Longrightarrow> publ p adss \<Longrightarrow> op_add_chunk b aid p = (Ok (), p') \<Longrightarrow> publ p' adss"
    and publish_publ: "good \<Longrightarrow> pend p aid ess \<Longrightarrow> publ p adss \<Longrightarrow>
                         op_publish aid p = (Ok (), p') \<Longrightarrow> publ p' (ess # adss)"
begin

text \<open>Adding a list of chunks one after the other, stopping at the first failure.\<close>

fun add_chunks :: "bytes list \<Rightarrow> usize \<Rightarrow> 'p \<Rightarrow> unit result \<times> 'p" where
  "add_chunks [] aid p = (Ok (), p)"
| "add_chunks (b # bs) aid p =
     (case op_add_chunk b aid p of
        (Ok u, p') \<Rightarrow> add_chunks bs aid p'
      | (Err e, p') \<Rightarrow> (Err e, p')
      | (Panic x, p') \<Rightarrow> (Panic x, p'))"

lemma add_chunks_pend:
  assumes "good" and "pend p aid ess" and "publ p adss" and "add_chunks bs aid p = (Ok (), p')"
    and "list_all2 (\<lambda>b es. decode b = Ok es) bs new"
  shows "pend p' aid (rev new @ ess)" and "publ p' adss"
proof -
  from assms(2-5) have "pend p' aid (rev new @ ess) \<and> publ p' adss"
  proof (induction bs arbitrary: p ess new)
    case (Cons b bs)
    from Cons.prems(4) obtain es new' where new: "new = es # new'" "decode b = Ok es"
      "list_all2 (\<lambda>b es. decode b = Ok es) bs new'"
      by (auto simp: list_all2_Cons1)
    from Cons.prems(3) obtain p1 where p1: "op_add_chunk b aid p = (Ok (), p1)"
      and rest: "add_chunks bs aid p1 = (Ok (), p')"
      by (auto split: prod.splits outcome.splits)
    have "pend p1 aid (es # ess)" using \<open>good\<close> Cons.prems(1) p1 new(2) by (rule add_pend)
    moreover have "publ p1 adss" using \<open>good\<close> Cons.prems(2) p1 by (rule add_publ)
    ultimately show ?case using Cons.IH [OF _ _ rest new(3)] new(1) by simp
  qed simp
  then show "pend p' aid (rev new @ ess)" and "publ p' adss" by simp_all
qed

theorem publish_root:
  assumes "good" and "publ p adss"
    and "add_chunks bs aid (snd (op_create aid ad p)) = (Ok (), p1)"
    and "op_publish aid p1 = (Ok (), p')"
    and "list_all2 (\<lambda>b es. decode b = Ok es) bs new"
  shows "publ p' (rev new # adss)"
proof -
  note chunks = add_chunks_pend [OF assms(1) create_pend create_publ [OF assms(2)] assms(3,5)]
  show ?thesis
    using publish_publ [OF assms(1) chunks assms(4)] by simp
qed

end

interpretation prov: ad_publisher
  "cid_lib_ok cl \<and> obj_store_ok os \<and> ad_lib_ok al" "entries_from_slice an" create
  "add_chunk cl os an" "publish cl al os" "pending os" "published al os"
  for cl al os an
proof (unfold_locales, goal_cases)
  case (1 aid ad p)
  show ?case by (simp add: create_def)
next
  case (2 aid ad p)
  show ?case by (simp add: create_def pending_def)
next
  case (3 p adss aid ad)
  then show ?case by (simp add: create_def published_def)
next
  case (4 b aid p p')
  then show ?case by (elim add_chunk_OkE) blast
next
  case (5 p aid ess b p' es)
  from 5(3) show ?case
    using 5(1,2,4) by (elim add_chunk_OkE) (auto simp: pending_def entry_chain_put)
next
  case (6 p adss b aid p')
  from 6(3) show ?case
    using 6(1,2) by (elim add_chunk_OkE)
      (auto simp: published_def elim!: ad_chain_mono dest: put_obj_keeps)
next
  case (7 p aid ess adss p')
  then have cl: "cid_lib_ok cl" and os: "obj_store_ok os" and al: "ad_lib_ok al" by simp_all
  from 7(4) cl show ?case
  proof (rule publish_OkE)
    fix ad ad' sig i c bs
    assume ad: "temp_ads p aid = Some ad"
      and ad': "ad' = ad\<lparr>PreviousID := map_option IpldLink (head p),
                  Signature := IpldBytes (envelope_to_protobuf al sig)\<rparr>"
      and i: "ad_to_ipld al ad' = Ok i"
      and put: "put_obj os (blockstore p) (ObjIpld i) = Ok (c, bs)"
      and p': "p' = p\<lparr>head := Some c, blockstore := bs, temp_ads := (temp_ads p)(aid := None)\<rparr>"
    have "entry_chain (get_obj os bs) (Entries ad') ess"
      using 7(2) ad put_obj_keeps [OF os put]
      by (auto simp: pending_def ad' elim!: entry_chain_mono)
    moreover have "ad_chain al (get_obj os bs) (head p) adss"
      using 7(3) put_obj_keeps [OF os put] by (auto simp: published_def elim!: ad_chain_mono)
    moreover have "ad_from_ipld al i = Some ad'" using al i by (simp add: ad_lib_ok_def)
    ultimately show "published al os p' (ess # adss)"
      using put_obj_get [OF os put] ad'
      by (auto simp: published_def p' intro!: ads_cons)
  qed
qed

section \<open>The types of advertisements under construction\<close>

text \<open>
  The fields of an advertisement are dynamically typed IPLD values; \<open>sign\<close> accepts links in two of
  them and bytes in a third, and refuses everything else.
\<close>

definition ads_typed :: "'s provider \<Rightarrow> bool" where
  "ads_typed p \<longleftrightarrow> (\<forall>aid ad. temp_ads p aid = Some ad \<longrightarrow> ad_signable ad)"

lemma ads_typed_roots [simp]: "ads_typed (p\<lparr>root_cids := q\<rparr>) = ads_typed p"
  by (simp add: ads_typed_def)

lemma provider_new_typed [simp]: "ads_typed (provider_new kp bs config)"
  by (simp add: ads_typed_def provider_new_def)

lemma create_typed [ursa_inv]: "ads_typed p \<Longrightarrow> ad_signable ad \<Longrightarrow> ads_typed (snd (create aid ad p))"
  by (auto simp: ads_typed_def create_def ad_signable_def)

lemma add_chunk_typed [ursa_inv]: "ads_typed p \<Longrightarrow> ads_typed (snd (add_chunk cl os an b aid p))"
  by (auto simp: ads_typed_def add_chunk_def ad_signable_def split: outcome.splits option.splits)

lemma publish_typed [ursa_inv]: "ads_typed p \<Longrightarrow> ads_typed (snd (publish cl al os aid p))"
  by (auto simp: ads_typed_def publish_def Let_def split: outcome.splits option.splits)

text \<open>Every interleaving of the calls of the trait, successful or not, for any number of advertisements.\<close>

inductive prov_reach ::
  "cid_lib \<Rightarrow> ad_lib \<Rightarrow> 's obj_store \<Rightarrow> announce_lib \<Rightarrow> 's provider \<Rightarrow> 's provider \<Rightarrow> bool"
  for cl al os an p0 where
  prov_init: "prov_reach cl al os an p0 p0"
| prov_create: "prov_reach cl al os an p0 p \<Longrightarrow> advertisement_new al ctx peer addrs rm = Ok ad \<Longrightarrow>
    prov_reach cl al os an p0 (snd (create aid ad p))"
| prov_add: "prov_reach cl al os an p0 p \<Longrightarrow> prov_reach cl al os an p0 (snd (add_chunk cl os an b aid p))"
| prov_publish: "prov_reach cl al os an p0 p \<Longrightarrow> prov_reach cl al os an p0 (snd (publish cl al os aid p))"

lemma prov_reach_typed: "prov_reach cl al os an p0 p \<Longrightarrow> ads_typed p0 \<Longrightarrow> ads_typed p"
  by (induction rule: prov_reach.induct) (auto intro: ursa_inv ad_signable_new)

section \<open>A concrete provider\<close>

text \<open>
  An append-only object store for closed instances, announcement parameters that read every
  byte as an entry, and a provider holding one advertisement without entries under number 1.
\<close>

definition list_obj_store :: "obj list obj_store" where
  "list_obj_store =
     \<lparr>put_obj = (\<lambda>s v. Ok (Cid (length s), s @ [v])),
      get_obj = (\<lambda>s c. case c of Cid n \<Rightarrow> if n < length s then Some (s ! n) else None),
      get_bytes = (\<lambda>s c. case c of Cid n \<Rightarrow> Ok (if n < length s then Some [word_of_nat n] else None))\<rparr>"

definition plain_announce_lib :: announce_lib where
  "plain_announce_lib =
     \<lparr>entries_from_slice = (\<lambda>b. Ok (map (\<lambda>w. IpldBytes [w]) b)), cid_dag_cbor = (\<lambda>c. [42]),
      addrs_to_vec = (\<lambda>as. Ok [43]), empty_bytes_dag_cbor = [64],
      multiaddr_from_str = (\<lambda>s. Ok [OtherProtocol s]), multiaddr_to_string = (\<lambda>m. ''''),
      peer_to_string = (\<lambda>p. ''peer'')\<rparr>"

definition plain_ad :: advertisement where
  "plain_ad = \<lparr>PreviousID = None, Provider = ''peer'', Addresses = [''/a''], Signature = IpldBytes [],
     Entries = None, ContextID = IpldBytes [1], Metadata = IpldBytes [], IsRm = False\<rparr>"

definition fresh_provider :: "obj list provider" where
  "fresh_provider = provider_new (Ed25519 3) [] (provider_config_default ''/home'')"

definition loaded_provider :: "obj list provider" where
  "loaded_provider = snd (create 1 plain_ad fresh_provider)"

lemma list_obj_store_ok [simp]: "obj_store_ok list_obj_store"
  by (auto simp: obj_store_ok_def list_obj_store_def nth_append split: cid.splits if_splits)

lemma fresh_provider_published [simp]: "published al os fresh_provider []"
  by (simp add: published_def fresh_provider_def provider_new_def)

lemma loaded_provider_published: "published al list_obj_store loaded_provider []"
  unfolding loaded_provider_def by (rule prov.create_publ) simp

lemma loaded_provider_pending: "pending list_obj_store loaded_provider 1 []"
  unfolding loaded_provider_def by (rule prov.create_pend)

lemma loaded_provider_publish:
  "fst (publish unary_cid_lib plain_ad_lib list_obj_store 1 loaded_provider) = Ok ()"
  by (simp add: publish_def loaded_provider_def create_def fresh_provider_def provider_new_def
      plain_ad_def sign_def sig_payload_def link_bytes_def plain_ad_lib_def list_obj_store_def)

section \<open>Properties\<close>

text \<open>
  C13. A successful \<open>publish\<close> puts the advertisement, with all the chunks added to it, in front of
  the chain of earlier advertisements, and leaves no pending advertisement under its number.
\<close>

theorem publish_extends_chain:
  assumes "cid_lib_ok cl" and "obj_store_ok os" and "ad_lib_ok al"
    and "pending os p aid ess" and "published al os p adss"
    and "publish cl al os aid p = (Ok (), p')"
  shows "published al os p' (ess # adss) \<and> temp_ads p' aid = None"
proof -
  have "published al os p' (ess # adss)"
    using assms by (intro prov.publish_publ [OF _ assms(4-6)]) simp
  moreover have "temp_ads p' aid = None"
    using assms(6,1) by (rule publish_OkE) simp
  ultimately show ?thesis ..
qed

theorem publish_extends_chain_witness:
  "\<exists>p'. publish unary_cid_lib plain_ad_lib list_obj_store 1 loaded_provider = (Ok (), p') \<and>
     published plain_ad_lib list_obj_store p' [[]] \<and> temp_ads p' 1 = None"
proof -
  obtain p' where p': "publish unary_cid_lib plain_ad_lib list_obj_store 1 loaded_provider = (Ok (), p')"
    using loaded_provider_publish by (metis prod.collapse)
  show ?thesis
    using p' publish_extends_chain [OF unary_cid_lib_ok list_obj_store_ok plain_ad_lib_ok
        loaded_provider_pending loaded_provider_published p']
    by simp
qed

text \<open>
  C39. Every failing \<open>publish\<close>, also one for an unknown number, leaves the provider without a
  head: the chain published before is no longer reachable from it.
\<close>

theorem publish_failure_loses_head:
  assumes "publish cl al os aid p = (r, p')" and "r \<noteq> Ok ()"
  shows "head p' = None \<and> published al os p' []"
  using assms
  by (auto simp: publish_def Let_def published_def split: outcome.splits option.splits prod.splits)

theorem publish_failure_loses_head_witness:
  "head (snd (publish unary_cid_lib plain_ad_lib list_obj_store 2
     (loaded_provider\<lparr>head := Some (Cid 5)\<rparr>))) = None"
proof -
  let ?r = "publish unary_cid_lib plain_ad_lib list_obj_store 2 (loaded_provider\<lparr>head := Some (Cid 5)\<rparr>)"
  have r: "?r = (fst ?r, snd ?r)" by simp
  have "fst ?r \<noteq> Ok ()"
    by (simp add: publish_def loaded_provider_def create_def fresh_provider_def provider_new_def)
  with publish_failure_loses_head [OF r] show ?thesis by simp
qed

text \<open>
  After a successful \<open>publish\<close> the \<open>/head\<close> handler serves a signed head that opens, under the
  provider's public key, to the CID of the stored advertisement.
\<close>

theorem head_handler_after_publish:
  assumes "cid_lib_ok cl" and "obj_store_ok os" and "key_lib_ok kl"
    and "publish cl al os aid p = (Ok (), p')" and "head_handler cl kl p' = Ok sh"
  shows "\<exists>c i. head p' = Some c \<and> get_obj os (blockstore p') c = Some (ObjIpld i) \<and>
    signed_head_open cl kl sh = Ok (key_public kl (prov_keypair p), c)"
  using assms(4,1)
proof (rule publish_OkE)
  fix ad ad' sig i c bs
  assume put: "put_obj os (blockstore p) (ObjIpld i) = Ok (c, bs)"
    and p': "p' = p\<lparr>head := Some c, blockstore := bs, temp_ads := (temp_ads p)(aid := None)\<rparr>"
  have "signed_head_new cl kl (prov_keypair p) c = Ok sh"
    using assms(5) by (simp add: head_handler_def p' outcome_simps)
  then have "signed_head_open cl kl sh = Ok (key_public kl (prov_keypair p), c)"
    using assms(3) by (intro signed_head_new_open)
  then show ?thesis
    using put_obj_get [OF assms(2) put] by (simp add: p')
qed

theorem head_handler_after_publish_witness:
  "\<exists>p' sh c. publish unary_cid_lib plain_ad_lib list_obj_store 1 loaded_provider = (Ok (), p') \<and>
     head_handler unary_cid_lib toy_key_lib p' = Ok sh \<and>
     signed_head_open unary_cid_lib toy_key_lib sh = Ok (PublicKey 3, c)"
proof -
  obtain p' where p': "publish unary_cid_lib plain_ad_lib list_obj_store 1 loaded_provider = (Ok (), p')"
    using loaded_provider_publish by (metis prod.collapse)
  then have h: "head p' \<noteq> None" "prov_keypair p' = Ed25519 3"
    by (auto simp: publish_def Let_def loaded_provider_def create_def fresh_provider_def
        provider_new_def split: option.splits outcome.splits)
  then obtain sh where sh: "head_handler unary_cid_lib toy_key_lib p' = Ok sh"
    by (auto simp: head_handler_def signed_head_new_def toy_key_lib_def)
  have "prov_keypair loaded_provider = Ed25519 3"
    by (simp add: loaded_provider_def create_def fresh_provider_def provider_new_def)
  then show ?thesis
    using p' sh head_handler_after_publish [OF unary_cid_lib_ok list_obj_store_ok toy_key_lib_ok p' sh]
    by (auto simp: toy_key_lib_def)
qed



end
