(* ===== verification/Metrics.thy ===== *)
theory Metrics
  imports Ursa_Prelude
begin

text \<open>
  Metric events, \<open>crates/ursa-metrics/src/events.rs\<close>, and the request middleware,
  \<open>crates/ursa-metrics/src/middleware.rs\<close>. The recorder of the \<open>metrics\<close> crate is third-party:
  \<open>track\<close> is modelled by the recorder calls it makes, in order. An \<open>f64\<close> is its bit pattern.

  The lemmas show the exact effect of event sequences on the gauges, which metric names survive
  the round trip through their text form, and that no event ever touches the
  \<open>http_rpc_requests\<close> counter.
\<close>

section \<open>Definitions\<close>

type_synonym f64 = "64 word"
type_synonym label = "string \<times> string"

datatype metric_event =
    EvPeerConnected
  | EvPeerDisconnected
  | EvRelayReservationOpened
  | EvRelayReservationClosed
  | EvRelayCircuitOpened
  | EvRelayCircuitClosed
  | EvBitswap
  | EvGossipMessage
  | EvRequestMessage
  | EvRpcRequestReceived
  | EvRpcResponseSent

datatype metric =
    ActiveConnectedPeers
  | ActiveRelayReservations
  | ActiveRelayCircuits
  | HttpRpcRequests
  | NodeBitswapOperations
  | NodeGossipMessages
  | NodeRequestMessages
  | NodeResponseInfo
  | Unknown string

fun metric_to_string :: "metric \<Rightarrow> string" where
  "metric_to_string ActiveConnectedPeers = ''active_connected_peers''"
| "metric_to_string ActiveRelayReservations = ''active_relay_reservations''"
| "metric_to_string ActiveRelayCircuits = ''active_relay_circuits''"
| "metric_to_string HttpRpcRequests = ''http_rpc_requests''"
| "metric_to_string NodeBitswapOperations = ''node_bitswap_operations''"
| "metric_to_string NodeGossipMessages = ''node_gossip_messages''"
| "metric_to_string NodeRequestMessages = ''node_request_messages''"
| "metric_to_string NodeResponseInfo = ''node_response_info''"
| "metric_to_string (Unknown s) = s"

definition metric_from_str :: "string \<Rightarrow> (unit, metric) outcome" where
  "metric_from_str s =
     (if s = ''active_connected_peers'' then Ok ActiveConnectedPeers
      else if s = ''http_rpc_requests'' then Ok HttpRpcRequests
      else if s = ''node_bitswap_operations'' then Ok NodeBitswapOperations
      else if s = ''node_gossip_messages'' then Ok NodeGossipMessages
      else if s = ''node_request_messages'' then Ok NodeRequestMessages
      else if s = ''node_response_info'' then Ok NodeResponseInfo
      else Ok (Unknown s))"

text \<open>The calls \<open>track\<close> makes to the recorder.\<close>

datatype metric_op =
    IncrementCounter string "label list"
  | IncrementGauge string
  | DecrementGauge string
  | Histogram string f64 "label list"

definition track :: "metric_event \<Rightarrow> label list option \<Rightarrow> f64 option \<Rightarrow> metric_op list" where
  "track event_name labels value =
     (case labels of
        Some label \<Rightarrow>
          (case event_name of
             EvBitswap \<Rightarrow> [IncrementCounter (metric_to_string NodeBitswapOperations) label]
           | EvGossipMessage \<Rightarrow> [IncrementCounter (metric_to_string NodeGossipMessages) label]
           | EvRequestMessage \<Rightarrow> [IncrementCounter (metric_to_string NodeRequestMessages) label]
           | EvRpcResponseSent \<Rightarrow>
               (case value of
                  Some latency \<Rightarrow> [Histogram (metric_to_string NodeResponseInfo) latency label]
                | None \<Rightarrow> [])
           | _ \<Rightarrow> [])
      | None \<Rightarrow>
          (case event_name of
             EvPeerConnected \<Rightarrow> [IncrementGauge (metric_to_string ActiveConnectedPeers)]
           | EvPeerDisconnected \<Rightarrow> [DecrementGauge (metric_to_string ActiveConnectedPeers)]
           | EvRpcRequestReceived \<Rightarrow> [IncrementCounter (metric_to_string ActiveConnectedPeers) []]
           | EvRelayReservationOpened \<Rightarrow> [IncrementGauge (metric_to_string ActiveRelayReservations)]
           | EvRelayReservationClosed \<Rightarrow> [DecrementGauge (metric_to_string ActiveRelayReservations)]
           | EvRelayCircuitOpened \<Rightarrow> [IncrementGauge (metric_to_string ActiveRelayCircuits)]
           | EvRelayCircuitClosed \<Rightarrow> [DecrementGauge (metric_to_string ActiveRelayCircuits)]
           | _ \<Rightarrow> []))"

text \<open>
  The middleware: \<open>matched_path\<close> is the router's pattern when there is one; \<open>fmt_f64\<close> is the
  formatting of the latency. The response is returned unchanged.
\<close>

definition track_metrics ::
  "(f64 \<Rightarrow> string) \<Rightarrow> string option \<Rightarrow> string \<Rightarrow> string \<Rightarrow> ('req \<Rightarrow> 'resp) \<Rightarrow> ('resp \<Rightarrow> string) \<Rightarrow>
   f64 \<Rightarrow> 'req \<Rightarrow> 'resp \<times> metric_op list" where
  "track_metrics fmt_f64 matched_path uri_path method run status latency req =
     (let path = (case matched_path of Some m \<Rightarrow> m | None \<Rightarrow> uri_path);
          response = run req;
          labels = [(''method'', method), (''path'', path), (''status'', status response),
                    (''latency'', fmt_f64 latency)]
      in (response,
          track EvRpcRequestReceived None None @ track EvRpcResponseSent (Some labels) (Some latency)))"

section \<open>Reading a sequence of recorder calls\<close>

fun op_gauge_delta :: "string \<Rightarrow> metric_op \<Rightarrow> int" where
  "op_gauge_delta n (IncrementGauge m) = (if m = n then 1 else 0)"
| "op_gauge_delta n (DecrementGauge m) = (if m = n then -1 else 0)"
| "op_gauge_delta n _ = 0"

definition gauge_value :: "string \<Rightarrow> metric_op list \<Rightarrow> int" where
  "gauge_value n ops = sum_list (map (op_gauge_delta n) ops)"

fun op_name :: "metric_op \<Rightarrow> string" where
  "op_name (IncrementCounter n l) = n"
| "op_name (IncrementGauge n) = n"
| "op_name (DecrementGauge n) = n"
| "op_name (Histogram n v l) = n"

text \<open>The calls made for a sequence of unlabelled events.\<close>

definition track_all :: "metric_event list \<Rightarrow> metric_op list" where
  "track_all evs = concat (map (\<lambda>e. track e None None) evs)"

lemma gauge_value_append [simp]: "gauge_value n (xs @ ys) = gauge_value n xs + gauge_value n ys"
  by (simp add: gauge_value_def)

lemma gauge_value_simps [simp]:
  "gauge_value n [] = 0" "gauge_value n (m # ops) = op_gauge_delta n m + gauge_value n ops"
  by (simp_all add: gauge_value_def)

lemma track_all_Cons [simp]: "track_all (e # es) = track e None None @ track_all es"
  by (simp add: track_all_def)

lemma track_all_Nil [simp]: "track_all [] = []"
  by (simp add: track_all_def)

section \<open>Properties\<close>

text \<open>
  After any sequence of events each gauge shows the number of opening events minus the
  number of closing events of its kind, whatever other events occur in between.
\<close>

theorem gauges_balance:
  "gauge_value ''active_connected_peers'' (track_all evs) =
     int (count_list evs EvPeerConnected) - int (count_list evs EvPeerDisconnected) \<and>
   gauge_value ''active_relay_reservations'' (track_all evs) =
     int (count_list evs EvRelayReservationOpened) - int (count_list evs EvRelayReservationClosed) \<and>
   gauge_value ''active_relay_circuits'' (track_all evs) =
     int (count_list evs EvRelayCircuitOpened) - int (count_list evs EvRelayCircuitClosed)"
proof (induction evs)
  case Nil
  show ?case by simp
next
  case (Cons e evs)
  then show ?case by (cases e) (simp_all add: track_def)
qed

text \<open>
  The text form of a parsed metric name is that name, and parsing inverts printing for every
  metric except the two relay gauges, which parse to \<open>Unknown\<close>, and \<open>Unknown\<close> values that spell
  a known name.
\<close>

theorem metric_name_roundtrip:
  "obind (metric_from_str s) (\<lambda>m. Ok (metric_to_string m)) = Ok s \<and>
   (metric_from_str (metric_to_string m) = Ok m \<longleftrightarrow>
      m \<notin> {ActiveRelayReservations, ActiveRelayCircuits} \<and>
      (\<forall>s. m = Unknown s \<longrightarrow>
         s \<notin> metric_to_string ` {ActiveConnectedPeers, HttpRpcRequests, NodeBitswapOperations,
              NodeGossipMessages, NodeRequestMessages, NodeResponseInfo}))"
proof
  show "obind (metric_from_str s) (\<lambda>m. Ok (metric_to_string m)) = Ok s"
    by (auto simp: metric_from_str_def)
  show "metric_from_str (metric_to_string m) = Ok m \<longleftrightarrow>
      m \<notin> {ActiveRelayReservations, ActiveRelayCircuits} \<and>
      (\<forall>s. m = Unknown s \<longrightarrow>
         s \<notin> metric_to_string ` {ActiveConnectedPeers, HttpRpcRequests, NodeBitswapOperations,
              NodeGossipMessages, NodeRequestMessages, NodeResponseInfo})"
    by (cases m) (simp_all add: metric_from_str_def)
qed

theorem metric_name_roundtrip_witness:
  "metric_from_str (metric_to_string ActiveRelayCircuits) \<noteq> Ok ActiveRelayCircuits \<and>
   metric_from_str (metric_to_string HttpRpcRequests) = Ok HttpRpcRequests"
  using metric_name_roundtrip [of _ ActiveRelayCircuits] metric_name_roundtrip [of _ HttpRpcRequests]
  by blast

text \<open>
  No event, labelled or not, updates the metric \<open>http_rpc_requests\<close>: each request handled by
  the middleware increments a counter named \<open>active_connected_peers\<close> instead.
\<close>

theorem http_rpc_requests_never_counted:
  "metric_to_string HttpRpcRequests \<notin> op_name ` set (track e labels value) \<and>
   (\<exists>h. snd (track_metrics fmt mp up method run status latency req) =
      [IncrementCounter (metric_to_string ActiveConnectedPeers) [], h])"
proof
  show "metric_to_string HttpRpcRequests \<notin> op_name ` set (track e labels value)"
    by (cases e) (auto simp: track_def split: option.splits)
  show "\<exists>h. snd (track_metrics fmt mp up method run status latency req) =
      [IncrementCounter (metric_to_string ActiveConnectedPeers) [], h]"
    by (simp add: track_metrics_def track_def Let_def)
qed

end
