(* ===== verification/Codec.thy ===== *)
theory Codec
  imports Ursa_Prelude
begin

text \<open>
  The codec of the request/response protocol, \<open>crates/ursa-network/src/codec/protocol.rs\<close>.
  Length-prefixed framing (\<open>libp2p\<close>) and JSON (\<open>serde_json\<close>) are parameters; UTF-8 validation
  (\<open>String::from_utf8\<close>) is the standard library's and is defined here.

  The lemmas show that reading inverts writing up to the size limits, that larger frames and
  empty frames are rejected as I/O errors, and that a frame that is not UTF-8 or not a valid
  document makes the reader panic.
\<close>

section \<open>UTF-8 validation\<close>

definition in_range :: "byte \<Rightarrow> byte \<Rightarrow> byte \<Rightarrow> bool" where
  "in_range lo hi b \<longleftrightarrow> lo \<le> b \<and> b \<le> hi"

abbreviation cont :: "byte \<Rightarrow> bool" where
  "cont \<equiv> in_range 0x80 0xBF"

text \<open>The well-formed byte sequences of the Unicode standard, one equation per sequence length.\<close>

fun utf8_valid :: "bytes \<Rightarrow> bool" where
  "utf8_valid [] = True"
| "utf8_valid (a # r) =
     (if a < 0x80 then utf8_valid r
      else (case r of
          [] \<Rightarrow> False
        | b # r1 \<Rightarrow>
            if in_range 0xC2 0xDF a then cont b \<and> utf8_valid r1
            else (case r1 of
                [] \<Rightarrow> False
              | c # r2 \<Rightarrow>
                  if in_range 0xE0 0xEF a
                  then (if a = 0xE0 then in_range 0xA0 0xBF b
                        else if a = 0xED then in_range 0x80 0x9F b else cont b) \<and>
                       cont c \<and> utf8_valid r2
                  else (case r2 of
                      [] \<Rightarrow> False
                    | d # r3 \<Rightarrow>
                        in_range 0xF0 0xF4 a \<and>
                        (if a = 0xF0 then in_range 0x90 0xBF b
                         else if a = 0xF4 then in_range 0x80 0x8F b else cont b) \<and>
                        cont c \<and> cont d \<and> utf8_valid r3))))"

definition from_utf8 :: "bytes \<Rightarrow> (unit, string) outcome" where
  "from_utf8 v = (if utf8_valid v then Ok (bytes_to_string v) else Err ())"

section \<open>Messages\<close>

definition MAX_REQUEST_SIZE :: nat where
  "MAX_REQUEST_SIZE = 4 * 1024 * 1024"

definition MAX_RESPONSE_SIZE :: nat where
  "MAX_RESPONSE_SIZE = 10 * 1024 * 1024"

definition PROTOCOL_NAME :: bytes where
  "PROTOCOL_NAME = as_bytes ''/ursa/txrx/0.0.1''"

datatype request_type = CarRequest string

datatype ursa_exchange_request = UrsaExchangeRequest request_type

record car_response =
  car_cid :: string
  car_data :: bytes

datatype response_type = CarResponse car_response

datatype ursa_exchange_response = UrsaExchangeResponse response_type

section \<open>Parameters: framing and JSON\<close>

datatype io_error = UnexpectedEof | OtherIo string

text \<open>
  A substream is the byte sequence written to it. \<open>read_length_prefixed io max\<close> returns the
  payload of the frame and refuses payloads longer than \<open>max\<close>.
\<close>

record frame_lib =
  read_length_prefixed :: "bytes \<Rightarrow> nat \<Rightarrow> (io_error, bytes) outcome"
  write_length_prefixed :: "bytes \<Rightarrow> bytes \<Rightarrow> (io_error, bytes) outcome"
  close_io :: "bytes \<Rightarrow> (io_error, bytes) outcome"

definition frame_lib_ok :: "frame_lib \<Rightarrow> bool" where
  "frame_lib_ok fl \<longleftrightarrow>
     (\<forall>d io io' m. write_length_prefixed fl [] d = Ok io \<and> close_io fl io = Ok io' \<longrightarrow>
        (if length d \<le> m then read_length_prefixed fl io' m = Ok d
         else \<exists>e. read_length_prefixed fl io' m = Err e))"

record 'm json_lib =
  to_json_vec :: "'m \<Rightarrow> (string, bytes) outcome"
  from_json_str :: "string \<Rightarrow> (string, 'm) outcome"

definition json_lib_ok :: "'m json_lib \<Rightarrow> bool" where
  "json_lib_ok jl \<longleftrightarrow>
     (\<forall>m b. to_json_vec jl m = Ok b \<longrightarrow>
        b \<noteq> [] \<and> utf8_valid b \<and> from_json_str jl (bytes_to_string b) = Ok m)"

section \<open>UrsaExchangeCodec\<close>

definition read_request ::
  "frame_lib \<Rightarrow> ursa_exchange_request json_lib \<Rightarrow> bytes \<Rightarrow> (io_error, ursa_exchange_request) outcome" where
  "read_request fl jl io =
     obind (read_length_prefixed fl io MAX_REQUEST_SIZE) (\<lambda>vec.
       if vec = [] then Err UnexpectedEof
       else obind (unwrap (from_utf8 vec)) (\<lambda>s. unwrap (from_json_str jl s)))"

definition read_response ::
  "frame_lib \<Rightarrow> ursa_exchange_response json_lib \<Rightarrow> bytes \<Rightarrow> (io_error, ursa_exchange_response) outcome" where
  "read_response fl jl io =
     obind (read_length_prefixed fl io MAX_RESPONSE_SIZE) (\<lambda>vec.
       if vec = [] then Err UnexpectedEof
       else obind (unwrap (from_utf8 vec)) (\<lambda>s. unwrap (from_json_str jl s)))"

definition write_request ::
  "frame_lib \<Rightarrow> ursa_exchange_request json_lib \<Rightarrow> bytes \<Rightarrow> ursa_exchange_request \<Rightarrow>
   (io_error, bytes) outcome" where
  "write_request fl jl io req =
     obind (unwrap (to_json_vec jl req)) (\<lambda>data.
     obind (write_length_prefixed fl io data) (close_io fl))"

definition write_response ::
  "frame_lib \<Rightarrow> ursa_exchange_response json_lib \<Rightarrow> bytes \<Rightarrow> ursa_exchange_response \<Rightarrow>
   (io_error, bytes) outcome" where
  "write_response fl jl io res =
     obind (unwrap (to_json_vec jl res)) (\<lambda>data.
     obind (write_length_prefixed fl io data) (close_io fl))"

section \<open>Lemmas\<close>

lemma from_utf8_valid [simp]: "utf8_valid v \<Longrightarrow> from_utf8 v = Ok (bytes_to_string v)"
  by (simp add: from_utf8_def)

lemma from_utf8_invalid [simp]: "\<not> utf8_valid v \<Longrightarrow> from_utf8 v = Err ()"
  by (simp add: from_utf8_def)

lemma utf8_valid_ascii: "\<forall>b \<in> set v. b < 0x80 \<Longrightarrow> utf8_valid v"
  by (induction v) auto

text \<open>The common part of the two readers and of the two writers.\<close>

lemma read_frame_cases:
  fixes f :: "string \<Rightarrow> (string, 'm) outcome"
  shows "obind (Ok vec :: (io_error, bytes) outcome) (\<lambda>vec. if vec = [] then Err UnexpectedEof
           else obind (unwrap (from_utf8 vec)) (\<lambda>s. unwrap (f s))) =
         (if vec = [] then Err UnexpectedEof
          else if utf8_valid vec then unwrap (f (bytes_to_string vec)) else Panic UnwrapErr)"
  by simp

lemma written_frame:
  assumes "frame_lib_ok fl" and "json_lib_ok jl"
    and "obind (unwrap (to_json_vec jl m)) (\<lambda>data. obind (write_length_prefixed fl [] data) (close_io fl))
      = (Ok io :: (io_error, bytes) outcome)"
  obtains data where "to_json_vec jl m = Ok data" "data \<noteq> []" "utf8_valid data"
    "from_json_str jl (bytes_to_string data) = Ok m"
    "\<And>n. length data \<le> n \<Longrightarrow> read_length_prefixed fl io n = Ok data"
    "\<And>n. \<not> length data \<le> n \<Longrightarrow> \<exists>e. read_length_prefixed fl io n = Err e"
proof -
  from assms(3) obtain data io1 where d: "to_json_vec jl m = Ok data"
    and w: "write_length_prefixed fl [] data = Ok io1" "close_io fl io1 = Ok io"
    by (auto simp: outcome_simps)
  have read: "if length data \<le> n then read_length_prefixed fl io n = Ok data
        else \<exists>e. read_length_prefixed fl io n = Err e" for n
    using assms(1) w unfolding frame_lib_ok_def by blast
  have "data \<noteq> []" "utf8_valid data" "from_json_str jl (bytes_to_string data) = Ok m"
    using assms(2) d by (auto simp: json_lib_ok_def)
  then show ?thesis
    by (rule that [OF d]) (use read in presburger)+
qed

text \<open>
  Parameters for closed instances: the frame is the payload, a request is the ASCII text of its
  CID after the letter \<open>q\<close>.
\<close>

definition plain_frames :: frame_lib where
  "plain_frames =
     \<lparr>read_length_prefixed = (\<lambda>io m. if length io \<le> m then Ok io else Err (OtherIo ''too long'')),
      write_length_prefixed = (\<lambda>io d. Ok (io @ d)), close_io = Ok\<rparr>"

definition plain_requests :: "ursa_exchange_request json_lib" where
  "plain_requests =
     \<lparr>to_json_vec = (\<lambda>m. case m of UrsaExchangeRequest (CarRequest s) \<Rightarrow>
        if utf8_valid (as_bytes s) then Ok (as_bytes (CHR ''q'' # s)) else Err ''encoding''),
      from_json_str = (\<lambda>s. case s of [] \<Rightarrow> Err ''empty''
        | c # t \<Rightarrow> if c = CHR ''q'' then Ok (UrsaExchangeRequest (CarRequest t)) else Err ''syntax'')\<rparr>"

definition plain_responses :: "ursa_exchange_response json_lib" where
  "plain_responses =
     \<lparr>to_json_vec = (\<lambda>m. case m of UrsaExchangeResponse (CarResponse r) \<Rightarrow>
        if utf8_valid (as_bytes (car_cid r)) \<and> car_data r = [] then Ok (as_bytes (CHR ''q'' # car_cid r))
        else Err ''encoding''),
      from_json_str = (\<lambda>s. case s of [] \<Rightarrow> Err ''empty''
        | c # t \<Rightarrow> if c = CHR ''q'' then Ok (UrsaExchangeResponse (CarResponse \<lparr>car_cid = t, car_data = []\<rparr>))
                  else Err ''syntax'')\<rparr>"

lemma plain_frames_ok [simp]: "frame_lib_ok plain_frames"
  by (simp add: frame_lib_ok_def plain_frames_def)

lemma utf8_valid_q: "utf8_valid (as_bytes s) \<Longrightarrow> utf8_valid (as_bytes (CHR ''q'' # s))"
  by (simp add: as_bytes_def)

lemma plain_requests_ok [simp]: "json_lib_ok plain_requests"
proof -
  have "as_bytes (CHR ''q'' # s) \<noteq> []" for s by (simp add: as_bytes_def)
  then show ?thesis
    by (auto simp: json_lib_ok_def plain_requests_def utf8_valid_q
        split: ursa_exchange_request.splits request_type.splits if_splits)
qed

lemma plain_responses_ok [simp]: "json_lib_ok plain_responses"
proof -
  have "as_bytes (CHR ''q'' # s) \<noteq> []" for s by (simp add: as_bytes_def)
  then show ?thesis
    by (auto simp: json_lib_ok_def plain_responses_def utf8_valid_q
        split: ursa_exchange_response.splits response_type.splits if_splits)
qed

section \<open>Properties\<close>

text \<open>
  C30. A request written to a fresh substream is read back unchanged exactly when its encoding
  fits in \<open>MAX_REQUEST_SIZE\<close>; a larger one is refused with an I/O error and never panics.
\<close>

theorem request_roundtrip:
  assumes "frame_lib_ok fl" and "json_lib_ok jl" and "write_request fl jl [] req = Ok io"
  shows "\<exists>data. to_json_vec jl req = Ok data \<and>
    (if length data \<le> MAX_REQUEST_SIZE then read_request fl jl io = Ok req
     else \<exists>e. read_request fl jl io = Err e)"
proof -
  from assms(3) have "obind (unwrap (to_json_vec jl req))
      (\<lambda>data. obind (write_length_prefixed fl [] data) (close_io fl)) = Ok io"
    by (simp add: write_request_def)
  from written_frame [OF assms(1,2) this] obtain data where "to_json_vec jl req = Ok data"
    "data \<noteq> []" "utf8_valid data" "from_json_str jl (bytes_to_string data) = Ok req"
    "\<And>n. length data \<le> n \<Longrightarrow> read_length_prefixed fl io n = Ok data"
    "\<And>n. \<not> length data \<le> n \<Longrightarrow> \<exists>e. read_length_prefixed fl io n = Err e"
    by blast
  then show ?thesis
    by (intro exI [of _ data]) (fastforce simp: read_request_def)
qed

theorem request_roundtrip_witness:
  "\<exists>io. write_request plain_frames plain_requests [] (UrsaExchangeRequest (CarRequest ''Qm'')) = Ok io \<and>
     read_request plain_frames plain_requests io = Ok (UrsaExchangeRequest (CarRequest ''Qm''))"
proof -
  let ?r = "UrsaExchangeRequest (CarRequest ''Qm'')"
  have enc: "to_json_vec plain_requests ?r = Ok (as_bytes ''qQm'')"
    by (simp add: plain_requests_def as_bytes_def)
  then obtain io where io: "write_request plain_frames plain_requests [] ?r = Ok io"
    by (simp add: write_request_def plain_frames_def)
  show ?thesis
    using io enc request_roundtrip [OF plain_frames_ok plain_requests_ok io]
    by (simp add: MAX_REQUEST_SIZE_def)
qed

text \<open>The same for responses and \<open>MAX_RESPONSE_SIZE\<close>.\<close>

theorem response_roundtrip:
  assumes "frame_lib_ok fl" and "json_lib_ok jl" and "write_response fl jl [] res = Ok io"
  shows "\<exists>data. to_json_vec jl res = Ok data \<and>
    (if length data \<le> MAX_RESPONSE_SIZE then read_response fl jl io = Ok res
     else \<exists>e. read_response fl jl io = Err e)"
proof -
  from assms(3) have "obind (unwrap (to_json_vec jl res))
      (\<lambda>data. obind (write_length_prefixed fl [] data) (close_io fl)) = Ok io"
    by (simp add: write_response_def)
  from written_frame [OF assms(1,2) this] obtain data where "to_json_vec jl res = Ok data"
    "data \<noteq> []" "utf8_valid data" "from_json_str jl (bytes_to_string data) = Ok res"
    "\<And>n. length data \<le> n \<Longrightarrow> read_length_prefixed fl io n = Ok data"
    "\<And>n. \<not> length data \<le> n \<Longrightarrow> \<exists>e. read_length_prefixed fl io n = Err e"
    by blast
  then show ?thesis
    by (intro exI [of _ data]) (fastforce simp: read_response_def)
qed

theorem response_roundtrip_witness:
  "\<exists>io. write_response plain_frames plain_responses []
       (UrsaExchangeResponse (CarResponse \<lparr>car_cid = ''Qm'', car_data = []\<rparr>)) = Ok io \<and>
     read_response plain_frames plain_responses io =
       Ok (UrsaExchangeResponse (CarResponse \<lparr>car_cid = ''Qm'', car_data = []\<rparr>))"
proof -
  let ?r = "UrsaExchangeResponse (CarResponse \<lparr>car_cid = ''Qm'', car_data = []\<rparr>)"
  have enc: "to_json_vec plain_responses ?r = Ok (as_bytes ''qQm'')"
    by (simp add: plain_responses_def as_bytes_def)
  then obtain io where io: "write_response plain_frames plain_responses [] ?r = Ok io"
    by (simp add: write_response_def plain_frames_def)
  show ?thesis
    using io enc response_roundtrip [OF plain_frames_ok plain_responses_ok io]
    by (simp add: MAX_RESPONSE_SIZE_def)
qed

text \<open>
  A frame a remote peer sends decides the outcome of \<open>read_request\<close>: empty frames are an
  \<open>UnexpectedEof\<close> error, but a frame that is not UTF-8, or is not a JSON request, makes the reader
  panic instead of returning an error.
\<close>

theorem malformed_request_panics:
  assumes "read_length_prefixed fl io MAX_REQUEST_SIZE = Ok vec"
  shows "(read_request fl jl io = Err UnexpectedEof \<longleftrightarrow> vec = []) \<and>
    (vec \<noteq> [] \<and> (\<not> utf8_valid vec \<or> (\<exists>e. from_json_str jl (bytes_to_string vec) = Err e)) \<longrightarrow>
       read_request fl jl io = Panic UnwrapErr)"
  using assms unfolding read_request_def by (auto simp: from_utf8_def)

theorem malformed_request_panics_witness:
  "read_request plain_frames plain_requests [0xFF] = Panic UnwrapErr"
proof -
  have read: "read_length_prefixed plain_frames [0xFF] MAX_REQUEST_SIZE = Ok [0xFF]"
    by (simp add: plain_frames_def MAX_REQUEST_SIZE_def)
  show ?thesis
    using malformed_request_panics [OF read, of plain_requests] by simp
qed

end
