(* ===== verification/Libp2p.thy ===== *)
theory Libp2p
  imports Codec
begin

text \<open>
  The operations of the third-party \<open>libp2p\<close> and \<open>libp2p-bitswap\<close> crates that the network crate
  calls, as one record of functions over an abstract state \<open>'w\<close>: the state of the Kademlia,
  mDNS, bitswap, gossipsub, request/response, autonat and swarm objects a node owns. A call that
  mutates such an object takes the state and returns it updated. The theory also holds the event
  and action types those crates hand to the node.
\<close>

section \<open>Actions and events of the crates\<close>

text \<open>\<open>NetworkBehaviourAction\<close>: payloads that are only passed on are opaque numbers.\<close>

datatype 'e nb_action =
    GenerateEvent 'e
  | Dial nat
  | NotifyHandler peer_id nat nat
  | ReportObservedAddr multiaddr nat
  | CloseConnection peer_id nat

text \<open>A Kademlia event is logged and dropped whatever it is.\<close>

type_synonym kad_event = nat

datatype mdns_event = Discovered "(peer_id \<times> multiaddr) list" | Expired

datatype nat_status = NatPublic multiaddr | NatPrivate | NatUnknown

record gossip_message =
  msg_source :: "peer_id option"
  msg_data :: bytes
  msg_sequence_number :: "64 word option"
  msg_topic :: string

section \<open>Operations\<close>

record 'w libp2p =
  kad_add_address :: "peer_id \<Rightarrow> multiaddr \<Rightarrow> 'w \<Rightarrow> 'w"
  kad_bootstrap :: "'w \<Rightarrow> (string, query_id) outcome \<times> 'w"
  kad_addresses_of_peer :: "peer_id \<Rightarrow> 'w \<Rightarrow> multiaddr list"
  kad_connection_established :: "peer_id \<Rightarrow> nat \<Rightarrow> nat \<Rightarrow> multiaddr list option \<Rightarrow> nat \<Rightarrow> 'w \<Rightarrow> 'w"
  kad_connection_closed :: "peer_id \<Rightarrow> nat \<Rightarrow> nat \<Rightarrow> nat \<Rightarrow> nat \<Rightarrow> 'w \<Rightarrow> 'w"
  kad_address_change :: "peer_id \<Rightarrow> nat \<Rightarrow> nat \<Rightarrow> nat \<Rightarrow> 'w \<Rightarrow> 'w"
  kad_inject_event :: "peer_id \<Rightarrow> nat \<Rightarrow> nat \<Rightarrow> 'w \<Rightarrow> 'w"
  kad_poll :: "'w \<Rightarrow> kad_event nb_action option \<times> 'w"
  mdns_addresses_of_peer :: "peer_id \<Rightarrow> 'w \<Rightarrow> multiaddr list"
  mdns_poll :: "'w \<Rightarrow> mdns_event nb_action option \<times> 'w"
  gossip_publish :: "string \<Rightarrow> bytes \<Rightarrow> 'w \<Rightarrow> (string, nat) outcome \<times> 'w"
  gossip_subscribe :: "string \<Rightarrow> 'w \<Rightarrow> (string, bool) outcome \<times> 'w"
  gossip_unsubscribe :: "string \<Rightarrow> 'w \<Rightarrow> (string, bool) outcome \<times> 'w"
  gossip_add_explicit_peer :: "peer_id \<Rightarrow> 'w \<Rightarrow> 'w"
  rr_send_request :: "peer_id \<Rightarrow> ursa_exchange_request \<Rightarrow> 'w \<Rightarrow> request_id \<times> 'w"
  rr_add_address :: "peer_id \<Rightarrow> multiaddr \<Rightarrow> 'w \<Rightarrow> 'w"
  bitswap_get :: "cid \<Rightarrow> peer_id list \<Rightarrow> 'w \<Rightarrow> query_id \<times> 'w"
  bitswap_sync :: "cid \<Rightarrow> peer_id list \<Rightarrow> cid list \<Rightarrow> 'w \<Rightarrow> query_id \<times> 'w"
  bitswap_cancel :: "query_id \<Rightarrow> 'w \<Rightarrow> 'w"
  autonat_public_address :: "'w \<Rightarrow> multiaddr option"
  swarm_is_connected :: "peer_id \<Rightarrow> 'w \<Rightarrow> bool"
  swarm_listen_on :: "multiaddr \<Rightarrow> 'w \<Rightarrow> (string, nat) outcome \<times> 'w"
  swarm_dial :: "multiaddr \<Rightarrow> 'w \<Rightarrow> (string, unit) outcome \<times> 'w"

text \<open>
  Conversions between peer ids and multihashes, of which only some are peer ids, the result of
  starting the mDNS service, the signature of the static noise key with the key pair of the node,
  and the result of opening the DNS resolver of the system.
\<close>

record peer_lib =
  peer_from_multihash :: "multihash \<Rightarrow> peer_id option"
  peer_to_multihash :: "peer_id \<Rightarrow> multihash"
  mdns_start :: "(string, unit) outcome"
  noise_into_authentic :: "keypair \<Rightarrow> (string, nat) outcome"
  dns_system :: "(string, unit) outcome"

section \<open>A concrete state\<close>

text \<open>
  For closed instances: the state is a counter that hands out increasing identifiers for queries
  and requests; every other call leaves it alone and polling is always pending.
\<close>

definition counter_libp2p :: "nat libp2p" where
  "counter_libp2p =
     \<lparr>kad_add_address = (\<lambda>p a w. w), kad_bootstrap = (\<lambda>w. (Ok w, w)),
      kad_addresses_of_peer = (\<lambda>p w. []), kad_connection_established = (\<lambda>p c e f n w. w),
      kad_connection_closed = (\<lambda>p c e h n w. w), kad_address_change = (\<lambda>p c a b w. w),
      kad_inject_event = (\<lambda>p c e w. w), kad_poll = (\<lambda>w. (None, w)),
      mdns_addresses_of_peer = (\<lambda>p w. []), mdns_poll = (\<lambda>w. (None, w)),
      gossip_publish = (\<lambda>t d w. (Ok 0, w)), gossip_subscribe = (\<lambda>t w. (Ok True, w)),
      gossip_unsubscribe = (\<lambda>t w. (Ok True, w)), gossip_add_explicit_peer = (\<lambda>p w. w),
      rr_send_request = (\<lambda>p r w. (w, Suc w)), rr_add_address = (\<lambda>p a w. w),
      bitswap_get = (\<lambda>c ps w. (w, Suc w)), bitswap_sync = (\<lambda>c ps ms w. (w, Suc w)),
      bitswap_cancel = (\<lambda>q w. w), autonat_public_address = (\<lambda>w. None),
      swarm_is_connected = (\<lambda>p w. True), swarm_listen_on = (\<lambda>a w. (Ok 0, w)),
      swarm_dial = (\<lambda>a w. (Ok (), w))\<rparr>"

definition plain_peer_lib :: peer_lib where
  "plain_peer_lib = \<lparr>peer_from_multihash = (\<lambda>b. Some (PeerId (length b))),
     peer_to_multihash = (\<lambda>p. []), mdns_start = Ok (),
     noise_into_authentic = (\<lambda>k. Ok 5), dns_system = Ok ()\<rparr>"

lemma plain_peer_lib_simps [simp]:
  "peer_from_multihash plain_peer_lib b = Some (PeerId (length b))"
  "peer_to_multihash plain_peer_lib p = []" "mdns_start plain_peer_lib = Ok ()"
  "noise_into_authentic plain_peer_lib k = Ok 5" "dns_system plain_peer_lib = Ok ()"
  by (simp_all add: plain_peer_lib_def)

end
