(* ===== verification/Discovery.thy ===== *)
theory Discovery
  imports Libp2p
begin

text \<open>
  Peer discovery, \<open>crates/ursa-network/src/discovery.rs\<close>: the set of connected peers, the queue of
  connection events, and the Kademlia and mDNS objects it drives (state \<open>'w\<close>).

  The lemmas show that events leave in the order they were produced and none is lost or
  duplicated (interface \<open>event_source\<close>), that in every run the events of each peer alternate
  between connected and disconnected and the set of peers is what the events say, what
  bootstrapping does, and that polling returns. They also show that closing one of several
  connections of a peer removes the peer.
\<close>

section \<open>State\<close>

definition URSA_KAD_PROTOCOL :: bytes where
  "URSA_KAD_PROTOCOL = as_bytes ''/ursa/kad/0.0.1''"

datatype discovery_event = Connected peer_id | Disconnected peer_id

record discovery =
  local_peer_id :: peer_id
  bootstrap_nodes :: "(peer_id \<times> multiaddr) list"
  disc_peers :: "peer_id set"
  peer_info :: "peer_id \<Rightarrow> multiaddr list option"
  disc_events :: "discovery_event list"
  mdns_enabled :: bool

section \<open>Construction\<close>

text \<open>
  The bootstrap addresses of the configuration: a trailing \<open>/p2p\<close> component is split off and
  converted to a peer id (a conversion that fails panics); other addresses are skipped.
\<close>

fun parse_bootstrap :: "peer_lib \<Rightarrow> multiaddr list \<Rightarrow> (peer_id \<times> multiaddr) list result" where
  "parse_bootstrap pl [] = Ok []"
| "parse_bootstrap pl (ma # mas) =
     (case rev ma of
        P2p mh # addr \<Rightarrow>
          obind (case peer_from_multihash pl mh of Some p \<Rightarrow> Ok p | None \<Rightarrow> Panic UnwrapErr) (\<lambda>peer_id.
          obind (parse_bootstrap pl mas) (\<lambda>rest. Ok ((peer_id, rev addr) # rest)))
      | _ \<Rightarrow> parse_bootstrap pl mas)"

definition discovery_new :: "peer_lib \<Rightarrow> peer_id \<Rightarrow> multiaddr list \<Rightarrow> bool \<Rightarrow> discovery result" where
  "discovery_new pl local config_bootstrap config_mdns =
     obind (parse_bootstrap pl config_bootstrap) (\<lambda>nodes.
     obind (if config_mdns then expect ''mdns start'' (mdns_start pl) else Ok ()) (\<lambda>_.
       Ok \<lparr>local_peer_id = local, bootstrap_nodes = nodes, disc_peers = {}, peer_info = Map.empty,
           disc_events = [], mdns_enabled = config_mdns\<rparr>))"

section \<open>Operations\<close>

definition add_address :: "'w libp2p \<Rightarrow> peer_id \<Rightarrow> multiaddr \<Rightarrow> 'w \<Rightarrow> 'w" where
  "add_address lp peer_id address w = kad_add_address lp peer_id address w"

definition bootstrap_addrs :: "discovery \<Rightarrow> (peer_id \<times> multiaddr) list" where
  "bootstrap_addrs d = bootstrap_nodes d"

definition bootstrap :: "'w libp2p \<Rightarrow> discovery \<Rightarrow> 'w \<Rightarrow> query_id result \<times> 'w" where
  "bootstrap lp d w =
     (let w1 = fold (\<lambda>(peer_id, address). add_address lp peer_id address) (bootstrap_addrs d) w in
      if bootstrap_nodes d = [] then (Err NoBootstrapNodes, w1)
      else (case kad_bootstrap lp w1 of (r, w2) \<Rightarrow> (map_err External r, w2)))"

definition handle_mdns_event :: "'w libp2p \<Rightarrow> mdns_event \<Rightarrow> 'w \<Rightarrow> 'w" where
  "handle_mdns_event lp event w =
     (case event of
        Discovered discovered_peers \<Rightarrow>
          fold (\<lambda>(peer_id, address). add_address lp peer_id address) discovered_peers w
      | Expired \<Rightarrow> w)"

definition addresses_of_peer :: "'w libp2p \<Rightarrow> discovery \<Rightarrow> peer_id \<Rightarrow> 'w \<Rightarrow> multiaddr list" where
  "addresses_of_peer lp d peer_id w =
     kad_addresses_of_peer lp peer_id w @
     (if mdns_enabled d then mdns_addresses_of_peer lp peer_id w else [])"

definition inject_connection_established ::
  "'w libp2p \<Rightarrow> peer_id \<Rightarrow> nat \<Rightarrow> nat \<Rightarrow> multiaddr list option \<Rightarrow> nat \<Rightarrow>
   discovery \<times> 'w \<Rightarrow> discovery \<times> 'w" where
  "inject_connection_established lp peer_id connection_id endpoint failed_addresses other_established =
     (\<lambda>(d, w).
        if peer_id \<notin> disc_peers d then
          (d\<lparr>disc_peers := insert peer_id (disc_peers d), disc_events := disc_events d @ [Connected peer_id]\<rparr>,
           kad_connection_established lp peer_id connection_id endpoint failed_addresses other_established w)
        else (d, w))"

definition inject_connection_closed ::
  "'w libp2p \<Rightarrow> peer_id \<Rightarrow> nat \<Rightarrow> nat \<Rightarrow> nat \<Rightarrow> nat \<Rightarrow> discovery \<times> 'w \<Rightarrow> discovery \<times> 'w" where
  "inject_connection_closed lp peer_id connection_id endpoint handler remaining_established =
     (\<lambda>(d, w).
        if peer_id \<in> disc_peers d then
          (d\<lparr>disc_peers := disc_peers d - {peer_id}, disc_events := disc_events d @ [Disconnected peer_id]\<rparr>,
           kad_connection_closed lp peer_id connection_id endpoint handler remaining_established w)
        else (d, w))"

definition inject_address_change ::
  "'w libp2p \<Rightarrow> peer_id \<Rightarrow> nat \<Rightarrow> nat \<Rightarrow> nat \<Rightarrow> discovery \<times> 'w \<Rightarrow> discovery \<times> 'w" where
  "inject_address_change lp peer_id connection_id old new =
     (\<lambda>(d, w). (d, kad_address_change lp peer_id connection_id old new w))"

definition inject_event ::
  "'w libp2p \<Rightarrow> peer_id \<Rightarrow> nat \<Rightarrow> nat \<Rightarrow> discovery \<times> 'w \<Rightarrow> discovery \<times> 'w" where
  "inject_event lp peer_id connection event = (\<lambda>(d, w). (d, kad_inject_event lp peer_id connection event w))"

text \<open>
  Polling the sub-behaviours: a generated event is handled and polling goes on, every other
  action ends the poll. \<open>None\<close> inside is \<open>Poll::Pending\<close>; the outer \<open>None\<close> is a loop that does
  not end because the crate keeps generating events. mDNS drops dial and handler actions.
\<close>

partial_function (option) kad_poll_loop ::
  "'w libp2p \<Rightarrow> 'w \<Rightarrow> (discovery_event nb_action option \<times> 'w) option" where
  "kad_poll_loop lp w =
     (case kad_poll lp w of
        (None, w') \<Rightarrow> Some (None, w')
      | (Some (GenerateEvent event), w') \<Rightarrow> kad_poll_loop lp w'
      | (Some (Dial opts), w') \<Rightarrow> Some (Some (Dial opts), w')
      | (Some (NotifyHandler p h e), w') \<Rightarrow> Some (Some (NotifyHandler p h e), w')
      | (Some (ReportObservedAddr a s), w') \<Rightarrow> Some (Some (ReportObservedAddr a s), w')
      | (Some (CloseConnection p c), w') \<Rightarrow> Some (Some (CloseConnection p c), w'))"

partial_function (option) mdns_poll_loop ::
  "'w libp2p \<Rightarrow> 'w \<Rightarrow> (discovery_event nb_action option \<times> 'w) option" where
  "mdns_poll_loop lp w =
     (case mdns_poll lp w of
        (None, w') \<Rightarrow> Some (None, w')
      | (Some (GenerateEvent event), w') \<Rightarrow> mdns_poll_loop lp (handle_mdns_event lp event w')
      | (Some (Dial opts), w') \<Rightarrow> mdns_poll_loop lp w'
      | (Some (NotifyHandler p h e), w') \<Rightarrow> mdns_poll_loop lp w'
      | (Some (ReportObservedAddr a s), w') \<Rightarrow> Some (Some (ReportObservedAddr a s), w')
      | (Some (CloseConnection p c), w') \<Rightarrow> Some (Some (CloseConnection p c), w'))"

definition discovery_poll ::
  "'w libp2p \<Rightarrow> discovery \<times> 'w \<Rightarrow> (discovery_event nb_action option \<times> discovery \<times> 'w) option" where
  "discovery_poll lp = (\<lambda>(d, w).
     (case disc_events d of
        event # rest \<Rightarrow> Some (Some (GenerateEvent event), d\<lparr>disc_events := rest\<rparr>, w)
      | [] \<Rightarrow>
          (case kad_poll_loop lp w of
             None \<Rightarrow> None
           | Some (Some action, w') \<Rightarrow> Some (Some action, d, w')
           | Some (None, w') \<Rightarrow>
               if mdns_enabled d then
                 map_option (\<lambda>(a, w''). (a, d, w'')) (mdns_poll_loop lp w')
               else Some (None, d, w'))))"

section \<open>Event sources\<close>

text \<open>
  The contract of a component that queues events and hands them out when polled: an input appends
  the events it emits, delivery removes the oldest one, and a non-empty queue is never refused.
\<close>

locale event_source =
  fixes queue :: "'s \<Rightarrow> 'e list"
    and step :: "'i \<Rightarrow> 's \<Rightarrow> 's"
    and emits :: "'i \<Rightarrow> 's \<Rightarrow> 'e list"
    and deliver :: "'s \<Rightarrow> ('e \<times> 's) option"
  assumes queue_step: "queue (step i s) = queue s @ emits i s"
    and deliver_front: "deliver s = Some (e, s') \<Longrightarrow> queue s = e # queue s'"
    and deliver_ready: "queue s \<noteq> [] \<Longrightarrow> deliver s \<noteq> None"
begin

text \<open>A run of inputs (\<open>Some i\<close>) and polls (\<open>None\<close>): the emitted and the delivered events.\<close>

fun run :: "'i option list \<Rightarrow> 's \<Rightarrow> 'e list \<times> 'e list \<times> 's" where
  "run [] s = ([], [], s)"
| "run (Some i # xs) s =
     (case run xs (step i s) of (em, out, s') \<Rightarrow> (emits i s @ em, out, s'))"
| "run (None # xs) s =
     (case deliver s of
        None \<Rightarrow> run xs s
      | Some (e, s1) \<Rightarrow> (case run xs s1 of (em, out, s') \<Rightarrow> (em, e # out, s')))"

lemma run_fifo: "run xs s = (em, out, s') \<Longrightarrow> queue s @ em = out @ queue s'"
proof (induction xs s arbitrary: em out s' rule: run.induct)
  case (2 i xs s)
  obtain em1 out1 s1 where r: "run xs (step i s) = (em1, out1, s1)" by (cases "run xs (step i s)")
  from "2.IH" [OF r] "2.prems" r show ?case by (simp add: queue_step)
next
  case (3 xs s)
  show ?case
  proof (cases "deliver s")
    case None
    with "3.prems" "3.IH"(1) [OF None] show ?thesis by simp
  next
    case (Some es)
    obtain e s1 where es: "es = (e, s1)" by (cases es)
    obtain em1 out1 s2 where r: "run xs s1 = (em1, out1, s2)" by (cases "run xs s1")
    from "3.IH"(2) [OF Some [unfolded es] refl r] "3.prems" Some es r deliver_front [of s e s1]
    show ?thesis by simp
  qed
qed simp

text \<open>Polling as often as there are queued events delivers all of them, in order.\<close>

lemma drain: "run (replicate (length (queue s)) None) s = (em, out, s') \<Longrightarrow> out = queue s \<and> queue s' = []"
proof (induction "length (queue s)" arbitrary: s em out s')
  case (Suc n)
  then obtain e s1 where d: "deliver s = Some (e, s1)" using deliver_ready [of s] by fastforce
  with deliver_front [OF d] Suc(2) have q: "queue s = e # queue s1" "n = length (queue s1)" by simp_all
  obtain em1 out1 s2 where r: "run (replicate n None) s1 = (em1, out1, s2)"
    by (cases "run (replicate n None) s1")
  from Suc(1) [OF q(2) r [unfolded q(2)]] Suc(2,3) d r q show ?case by (auto simp flip: Suc(2))
qed simp

end

text \<open>The inputs of discovery.\<close>

datatype disc_input =
    ConnEstablished peer_id nat nat "multiaddr list option" nat
  | ConnClosed peer_id nat nat nat nat
  | AddressChange peer_id nat nat nat
  | HandlerEvent peer_id nat nat

fun disc_step :: "'w libp2p \<Rightarrow> disc_input \<Rightarrow> discovery \<times> 'w \<Rightarrow> discovery \<times> 'w" where
  "disc_step lp (ConnEstablished p c e f n) s = inject_connection_established lp p c e f n s"
| "disc_step lp (ConnClosed p c e h n) s = inject_connection_closed lp p c e h n s"
| "disc_step lp (AddressChange p c a b) s = inject_address_change lp p c a b s"
| "disc_step lp (HandlerEvent p c e) s = inject_event lp p c e s"

fun disc_emits :: "disc_input \<Rightarrow> discovery \<times> 'w \<Rightarrow> discovery_event list" where
  "disc_emits (ConnEstablished p c e f n) s = (if p \<in> disc_peers (fst s) then [] else [Connected p])"
| "disc_emits (ConnClosed p c e h n) s = (if p \<in> disc_peers (fst s) then [Disconnected p] else [])"
| "disc_emits _ s = []"

definition disc_deliver :: "'w libp2p \<Rightarrow> discovery \<times> 'w \<Rightarrow> (discovery_event \<times> discovery \<times> 'w) option" where
  "disc_deliver lp s =
     (case discovery_poll lp s of
        Some (Some (GenerateEvent e), s') \<Rightarrow> Some (e, s')
      | _ \<Rightarrow> None)"

lemmas disc_inject_defs =
  inject_connection_established_def inject_connection_closed_def inject_address_change_def inject_event_def

text \<open>The sub-behaviours never produce a discovery event of their own.\<close>

lemma kad_poll_loop_no_event:
  assumes "kad_poll_loop lp w = Some r"
  shows "fst r \<noteq> Some (GenerateEvent e)"
  by (rule kad_poll_loop.raw_induct [where P = "\<lambda>lp w r. fst r \<noteq> Some (GenerateEvent e)", OF _ assms])
    (auto split: prod.splits option.splits nb_action.splits)

lemma mdns_poll_loop_no_event:
  assumes "mdns_poll_loop lp w = Some r"
  shows "fst r \<noteq> Some (GenerateEvent e)"
  by (rule mdns_poll_loop.raw_induct [where P = "\<lambda>lp w r. fst r \<noteq> Some (GenerateEvent e)", OF _ assms])
    (auto split: prod.splits option.splits nb_action.splits)

lemma discovery_poll_event:
  assumes "discovery_poll lp (d, w) = Some (Some (GenerateEvent e), s')"
  shows "\<exists>rest. disc_events d = e # rest \<and> s' = (d\<lparr>disc_events := rest\<rparr>, w)"
  using assms kad_poll_loop_no_event [of lp w _ e] mdns_poll_loop_no_event [of lp _ _ e]
  by (fastforce simp: discovery_poll_def split: list.splits option.splits prod.splits if_splits)

interpretation disc: event_source "\<lambda>s. disc_events (fst s)" "disc_step lp" disc_emits "disc_deliver lp"
  for lp
proof (unfold_locales, goal_cases)
  case (1 i s)
  show ?case by (cases s; cases i) (auto simp: disc_inject_defs)
next
  case (2 s e s')
  then show ?case
    by (cases s) (auto simp: disc_deliver_def dest!: discovery_poll_event
        split: option.splits nb_action.splits prod.splits)
next
  case (3 s)
  then show ?case
    by (cases s) (auto simp: disc_deliver_def discovery_poll_def split: list.splits)
qed

section \<open>Runs of discovery\<close>

text \<open>
  The set of connected peers according to a sequence of events, undefined when a peer connects
  twice or disconnects without being connected.
\<close>

fun replay :: "discovery_event list \<Rightarrow> peer_id set \<Rightarrow> peer_id set option" where
  "replay [] S = Some S"
| "replay (Connected p # es) S = (if p \<in> S then None else replay es (insert p S))"
| "replay (Disconnected p # es) S = (if p \<in> S then replay es (S - {p}) else None)"

lemma replay_append: "replay (xs @ ys) S = Option.bind (replay xs S) (replay ys)"
  by (induction xs S rule: replay.induct) auto

lemma disc_step_replay:
  "replay (disc_emits i s) (disc_peers (fst s)) = Some (disc_peers (fst (disc_step lp i s)))"
  by (cases s; cases i) (auto simp: disc_inject_defs)

lemma disc_deliver_peers: "disc_deliver lp s = Some (e, s') \<Longrightarrow> disc_peers (fst s') = disc_peers (fst s)"
  by (cases s) (auto simp: disc_deliver_def dest!: discovery_poll_event
      split: option.splits nb_action.splits prod.splits)

lemma run_replay:
  "disc.run lp xs s = (em, out, s') \<Longrightarrow> replay em (disc_peers (fst s)) = Some (disc_peers (fst s'))"
proof (induction xs s arbitrary: em out s' rule: disc.run.induct [of _ lp])
  case (2 i xs s)
  obtain em1 out1 s1 where r: "disc.run lp xs (disc_step lp i s) = (em1, out1, s1)"
    by (cases "disc.run lp xs (disc_step lp i s)")
  from "2.IH" [OF r] "2.prems" r show ?case
    by (auto simp: replay_append disc_step_replay [of i s lp])
next
  case (3 xs s)
  show ?case
  proof (cases "disc_deliver lp s")
    case None
    with "3.prems" "3.IH"(1) [OF None] show ?thesis by simp
  next
    case (Some es)
    obtain e s1 where es: "es = (e, s1)" by (cases es)
    obtain em1 out1 s2 where r: "disc.run lp xs s1 = (em1, out1, s2)" by (cases "disc.run lp xs s1")
    from "3.IH"(2) [OF Some [unfolded es] refl r] "3.prems" Some es r disc_deliver_peers [of lp s e s1]
    show ?thesis by simp
  qed
qed simp

section \<open>Polling returns\<close>

text \<open>
  If every event the two crates generate brings them closer to being idle (a bound on the
  events still to come), polling returns.
\<close>

lemma kad_poll_loop_returns:
  fixes m :: "'w \<Rightarrow> nat"
  assumes "\<And>w ev w'. kad_poll lp w = (Some (GenerateEvent ev), w') \<Longrightarrow> m w' < m w"
  shows "\<exists>r. kad_poll_loop lp w = Some r"
proof (induction "m w" arbitrary: w rule: less_induct)
  case less
  show ?case
    using less assms by (subst kad_poll_loop.simps) (auto split: prod.splits option.splits nb_action.splits)
qed

lemma mdns_poll_loop_returns:
  fixes m :: "'w \<Rightarrow> nat"
  assumes "\<And>w ev w'. mdns_poll lp w = (Some (GenerateEvent ev), w') \<Longrightarrow> m (handle_mdns_event lp ev w') < m w"
    and "\<And>w x w'. mdns_poll lp w = (Some (Dial x), w') \<Longrightarrow> m w' < m w"
    and "\<And>w p h e w'. mdns_poll lp w = (Some (NotifyHandler p h e), w') \<Longrightarrow> m w' < m w"
  shows "\<exists>r. mdns_poll_loop lp w = Some r"
proof (induction "m w" arbitrary: w rule: less_induct)
  case less
  show ?case
    using less assms by (subst mdns_poll_loop.simps) (auto split: prod.splits option.splits nb_action.splits)
qed

lemma parse_bootstrap_ok:
  assumes "\<forall>mh. peer_from_multihash pl mh \<noteq> None"
  shows "parse_bootstrap pl cfg =
    Ok [(the (peer_from_multihash pl mh), butlast ma). ma \<leftarrow> cfg, ma \<noteq> [], P2p mh \<leftarrow> [last ma]]"
proof -
  have f: "peer_from_multihash pl mh = Some (the (peer_from_multihash pl mh))" for mh
    using assms by simp
  have unwrap_peer: "(case peer_from_multihash pl mh of Some p \<Rightarrow> Ok p | None \<Rightarrow> Panic UnwrapErr) = (Ok (the (peer_from_multihash pl mh)) :: peer_id result)" for mh
    by (subst f) simp
  have "parse_bootstrap pl cfg =
      Ok [(the (peer_from_multihash pl mh), butlast ma). ma \<leftarrow> cfg, ma \<noteq> [], P2p mh \<leftarrow> [last ma]]"
  proof (induction cfg)
    case (Cons ma cfg)
    then show ?case
      by (cases ma rule: rev_cases) (auto simp: unwrap_peer split: protocol.splits)
  qed simp
  then show ?thesis .
qed

lemma discovery_new_ok:
  assumes "\<forall>mh. peer_from_multihash pl mh \<noteq> None" and "m \<longrightarrow> is_ok (mdns_start pl)"
  shows "\<exists>d. discovery_new pl local cfg m = Ok d \<and> disc_peers d = {}"
  using assms(2) by (auto simp: discovery_new_def parse_bootstrap_ok [OF assms(1)] is_ok_iff)

section \<open>Properties\<close>

text \<open>
  Events leave discovery in the order in which connection changes produced them: in every
  interleaving of inputs and polls, the delivered events followed by the queued ones are the
  events queued at the start followed by the emitted ones.
\<close>

theorem discovery_events_fifo:
  assumes "disc.run lp xs (d, w) = (emitted, delivered, (d', w'))"
  shows "disc_events d @ emitted = delivered @ disc_events d'"
  using disc.run_fifo [OF assms] by simp

theorem discovery_events_fifo_witness:
  "\<exists>em out d' w'. disc.run counter_libp2p
      [Some (ConnEstablished (PeerId 1) 0 0 None 0), None, Some (ConnClosed (PeerId 1) 0 0 0 0)]
      (\<lparr>local_peer_id = PeerId 0, bootstrap_nodes = [], disc_peers = {}, peer_info = Map.empty,
        disc_events = [], mdns_enabled = False\<rparr>, 0) = (em, out, (d', w')) \<and>
      [] @ em = out @ disc_events d' \<and> out = [Connected (PeerId 1)]"
proof -
  let ?d = "\<lparr>local_peer_id = PeerId 0, bootstrap_nodes = [], disc_peers = {}, peer_info = Map.empty,
        disc_events = [], mdns_enabled = False\<rparr>"
  let ?xs = "[Some (ConnEstablished (PeerId 1) 0 0 None 0), None, Some (ConnClosed (PeerId 1) 0 0 0 0)]"
  obtain em out d' w' where r: "disc.run counter_libp2p ?xs (?d, 0) = (em, out, (d', w'))"
    by (cases "disc.run counter_libp2p ?xs (?d, 0)") auto
  then have "out = [Connected (PeerId 1)]"
    by (simp add: disc_inject_defs disc_deliver_def discovery_poll_def)
  then show ?thesis
    using r discovery_events_fifo [OF r] by simp
qed

text \<open>
  C31. In every run from a state without peers, the emitted events are consistent: no peer is
  reported connected twice in a row or disconnected without being connected, and the peers
  discovery holds are exactly those whose last event is a connection.
\<close>

theorem discovery_peers_match_events:
  assumes "disc_peers d = {}" and "disc.run lp xs (d, w) = (emitted, delivered, (d', w'))"
  shows "replay emitted {} = Some (disc_peers d')"
  using run_replay [OF assms(2)] assms(1) by simp

theorem discovery_peers_match_events_witness:
  "\<exists>em out d' w'. disc.run counter_libp2p
      [Some (ConnEstablished (PeerId 1) 0 0 None 0), Some (ConnEstablished (PeerId 2) 1 0 None 0),
       Some (ConnClosed (PeerId 1) 0 0 0 0)]
      (\<lparr>local_peer_id = PeerId 0, bootstrap_nodes = [], disc_peers = {}, peer_info = Map.empty,
        disc_events = [], mdns_enabled = False\<rparr>, 0) = (em, out, (d', w')) \<and>
      replay em {} = Some (disc_peers d')"
proof -
  let ?d = "\<lparr>local_peer_id = PeerId 0, bootstrap_nodes = [], disc_peers = {}, peer_info = Map.empty,
        disc_events = [], mdns_enabled = False\<rparr>"
  let ?xs = "[Some (ConnEstablished (PeerId 1) 0 0 None 0), Some (ConnEstablished (PeerId 2) 1 0 None 0),
       Some (ConnClosed (PeerId 1) 0 0 0 0)]"
  obtain em out d' w' where r: "disc.run counter_libp2p ?xs (?d, 0) = (em, out, (d', w'))"
    by (cases "disc.run counter_libp2p ?xs (?d, 0)") auto
  show ?thesis
    using r discovery_peers_match_events [OF _ r] by simp
qed

text \<open>
  Closing one connection of a peer removes the peer and reports it disconnected even when
  other connections to it remain established; closing those later reports nothing.
\<close>

theorem closed_connection_drops_connected_peer:
  assumes "p \<in> disc_peers d"
    and "inject_connection_closed lp p c e h (Suc remaining) (d, w) = (d', w')"
  shows "p \<notin> disc_peers d' \<and> disc_events d' = disc_events d @ [Disconnected p] \<and>
    inject_connection_closed lp p c' e' h' remaining (d', w') = (d', w')"
  using assms by (auto simp: inject_connection_closed_def)

theorem closed_connection_drops_connected_peer_witness:
  "\<exists>d' w'. inject_connection_closed counter_libp2p (PeerId 1) 0 0 0 (Suc 0)
      (\<lparr>local_peer_id = PeerId 0, bootstrap_nodes = [], disc_peers = {PeerId 1}, peer_info = Map.empty,
        disc_events = [], mdns_enabled = False\<rparr>, 0) = (d', w') \<and>
      PeerId 1 \<notin> disc_peers d' \<and> disc_events d' = [Disconnected (PeerId 1)]"
proof -
  let ?d = "\<lparr>local_peer_id = PeerId 0, bootstrap_nodes = [], disc_peers = {PeerId 1}, peer_info = Map.empty,
        disc_events = [], mdns_enabled = False\<rparr>"
  obtain d' w' where r: "inject_connection_closed counter_libp2p (PeerId 1) 0 0 0 (Suc 0) (?d, 0) = (d', w')"
    by (cases "inject_connection_closed counter_libp2p (PeerId 1) 0 0 0 (Suc 0) (?d, 0)")
  show ?thesis
    using r closed_connection_drops_connected_peer [OF _ r, of 0 0 0] by simp
qed



text \<open>
  Of the configured bootstrap addresses exactly those that end in a \<open>/p2p\<close> component become
  bootstrap nodes, in order, each split into the peer and the address without that component.
\<close>

theorem discovery_new_bootstrap_nodes:
  assumes "\<forall>mh. peer_from_multihash pl mh \<noteq> None" and "mdns \<longrightarrow> is_ok (mdns_start pl)"
  shows "\<exists>d. discovery_new pl local cfg mdns = Ok d \<and> disc_peers d = {} \<and> disc_events d = [] \<and>
    bootstrap_nodes d =
      [(the (peer_from_multihash pl mh), butlast ma). ma \<leftarrow> cfg, ma \<noteq> [], P2p mh \<leftarrow> [last ma]]"
  using assms(2) by (auto simp: discovery_new_def parse_bootstrap_ok [OF assms(1)] is_ok_iff)

theorem discovery_new_bootstrap_nodes_witness:
  "\<exists>d. discovery_new plain_peer_lib
      (PeerId 0) [[Tcp 6009, P2p [1, 2]], [Tcp 6010]] True = Ok d \<and>
      bootstrap_nodes d = [(PeerId 2, [Tcp 6009])]"
  using discovery_new_bootstrap_nodes [of plain_peer_lib True "PeerId 0" "[[Tcp 6009, P2p [1, 2]], [Tcp 6010]]"]
  by (auto simp: numeral_2_eq_2)

end
