(* ===== verification/Network_Config.thy ===== *)
theory Network_Config
  imports Libp2p
begin

text \<open>
  The network configuration, \<open>crates/ursa-network/src/config.rs\<close>, and the gossipsub parameters,
  \<open>crates/ursa-network/src/gossipsub.rs\<close>. The builder and the constructor of the gossipsub crate
  and the multiaddress parser are parameters. The lemma shows that the parameters chosen for a
  bootstrapper and for any other node meet the documented constraints of the builder, so that
  constructing gossipsub does not panic.
\<close>

section \<open>NetworkConfig\<close>

definition DEFAULT_BOOTSTRAP :: "string list" where
  "DEFAULT_BOOTSTRAP =
     [''/ip4/159.223.211.234/tcp/6009/p2p/12D3KooWDji7xMLia6GAsyr4oiEFD2dd3zSryqNhfxU3Grzs1r9p'',
      ''/ip4/146.190.232.131/tcp/6009/p2p/12D3KooWGw8vCj9XayJDMXUiox6pCUFm7oVuWkDJeE2H9SDQVEcM'']"

definition DEFAULT_DB_PATH_STR :: string where
  "DEFAULT_DB_PATH_STR = ''.ursa/data/ursa_db''"

definition DEFAULT_KEYSTORE_PATH_STR :: string where
  "DEFAULT_KEYSTORE_PATH_STR = ''.ursa/keystore''"

record network_config =
  mdns :: bool
  relay_server :: bool
  autonat :: bool
  relay_client :: bool
  bootstrapper :: bool
  swarm_addr :: multiaddr
  cfg_bootstrap_nodes :: "multiaddr list"
  net_database_path :: string
  identity :: string
  keystore_path :: string

fun parse_all :: "(string \<Rightarrow> (string, multiaddr) outcome) \<Rightarrow> string list \<Rightarrow> multiaddr list result" where
  "parse_all parse [] = Ok []"
| "parse_all parse (node # nodes) =
     obind (unwrap (parse node)) (\<lambda>a. obind (parse_all parse nodes) (\<lambda>as. Ok (a # as)))"

definition network_config_default ::
  "(string \<Rightarrow> (string, multiaddr) outcome) \<Rightarrow> string \<Rightarrow> network_config result" where
  "network_config_default parse home =
     obind (parse_all parse DEFAULT_BOOTSTRAP) (\<lambda>nodes.
     obind (unwrap (parse ''/ip4/0.0.0.0/tcp/6009'')) (\<lambda>addr.
       Ok \<lparr>mdns = False, relay_server = True, autonat = True, relay_client = True,
           bootstrapper = False, swarm_addr = addr, cfg_bootstrap_nodes = nodes,
           net_database_path = home @ ''/'' @ DEFAULT_DB_PATH_STR, identity = ''default'',
           keystore_path = home @ ''/'' @ DEFAULT_KEYSTORE_PATH_STR\<rparr>))"

section \<open>Gossipsub parameters\<close>

definition URSA_GOSSIP_PROTOCOL :: string where
  "URSA_GOSSIP_PROTOCOL = ''ursa/gossipsub/0.0.1''"

text \<open>The values handed to \<open>GossipsubConfigBuilder\<close>; durations are in seconds.\<close>

record gossip_params =
  protocol_id_prefix :: string
  mesh_n :: "64 word"
  mesh_n_low :: "64 word"
  mesh_n_high :: "64 word"
  gossip_lazy :: "64 word"
  heartbeat_interval :: nat
  fanout_ttl :: nat
  max_transmit_size :: "64 word"
  duplicate_cache_time :: nat
  validate_messages :: bool
  strict_validation :: bool
  allow_self_origin :: bool
  mesh_outbound_min :: "64 word"
  max_messages_per_rpc :: "64 word option"

definition gossip_config :: "network_config \<Rightarrow> gossip_params" where
  "gossip_config config =
     (let is_bootstrapper = bootstrapper config;
          n = (if is_bootstrapper then 0 else 8)
      in \<lparr>protocol_id_prefix = URSA_GOSSIP_PROTOCOL, mesh_n = n,
          mesh_n_low = (if is_bootstrapper then 0 else 4),
          mesh_n_high = (if is_bootstrapper then 0 else 12),
          gossip_lazy = n, heartbeat_interval = 1, fanout_ttl = 60,
          max_transmit_size = 4 * 1024 * 1024, duplicate_cache_time = 60,
          validate_messages = True, strict_validation = True, allow_self_origin = True,
          mesh_outbound_min = (if is_bootstrapper then 0 else n div 2 - 1),
          max_messages_per_rpc = Some 1\<rparr>)"

text \<open>\<open>message_id_fn\<close>: only the data enters the hash.\<close>

definition message_id :: "(bytes \<Rightarrow> 64 word) \<Rightarrow> (64 word \<Rightarrow> string) \<Rightarrow> gossip_message \<Rightarrow> bytes" where
  "message_id hash to_string message = as_bytes (to_string (hash (msg_data message)))"

text \<open>
  The crate's \<open>build\<close>, \<open>Gossipsub::new\<close> and \<open>with_peer_score\<close>; \<open>'g\<close> is a gossipsub object.
\<close>

record 'g gossip_lib =
  gossip_build :: "gossip_params \<Rightarrow> (string, gossip_params) outcome"
  gossip_new :: "keypair \<Rightarrow> gossip_params \<Rightarrow> (string, 'g) outcome"
  gossip_with_peer_score :: "'g \<Rightarrow> (string, 'g) outcome"

definition ursa_gossipsub_new :: "'g gossip_lib \<Rightarrow> keypair \<Rightarrow> network_config \<Rightarrow> 'g result" where
  "ursa_gossipsub_new gl kp config =
     obind (expect ''gossipsub config'' (gossip_build gl (gossip_config config))) (\<lambda>cfg.
       unwrap (gossip_new gl kp cfg))"

text \<open>
  Documented behaviour: the builder accepts parameters with
  \<open>mesh_outbound_min \<le> mesh_n_low \<le> mesh_n \<le> mesh_n_high\<close>, \<open>2 * mesh_outbound_min \<le> mesh_n\<close> and a
  transmit size of at least 100 bytes, and returns them; a signing node accepts strict
  validation; the default score parameters are valid.
\<close>

definition gossip_lib_ok :: "'g gossip_lib \<Rightarrow> bool" where
  "gossip_lib_ok gl \<longleftrightarrow>
     (\<forall>p. mesh_outbound_min p \<le> mesh_n_low p \<and> mesh_n_low p \<le> mesh_n p \<and> mesh_n p \<le> mesh_n_high p \<and>
          2 * mesh_outbound_min p \<le> mesh_n p \<and> 100 \<le> max_transmit_size p \<longrightarrow> gossip_build gl p = Ok p) \<and>
     (\<forall>kp p. strict_validation p \<longrightarrow> is_ok (gossip_new gl kp p)) \<and>
     (\<forall>g. is_ok (gossip_with_peer_score gl g))"

text \<open>For closed instances: a builder that checks exactly these constraints.\<close>

definition checking_gossip_lib :: "nat gossip_lib" where
  "checking_gossip_lib =
     \<lparr>gossip_build = (\<lambda>p. if mesh_outbound_min p \<le> mesh_n_low p \<and> mesh_n_low p \<le> mesh_n p \<and>
          mesh_n p \<le> mesh_n_high p \<and> 2 * mesh_outbound_min p \<le> mesh_n p \<and> 100 \<le> max_transmit_size p
        then Ok p else Err ''constraint''),
      gossip_new = (\<lambda>kp p. Ok 0), gossip_with_peer_score = (\<lambda>g. Ok g)\<rparr>"

lemma checking_gossip_lib_ok [simp]: "gossip_lib_ok checking_gossip_lib"
  by (simp add: gossip_lib_ok_def checking_gossip_lib_def)

lemma gossip_config_build:
  "gossip_lib_ok gl \<Longrightarrow> gossip_build gl (gossip_config config) = Ok (gossip_config config)"
  by (cases "bootstrapper config") (simp_all add: gossip_lib_ok_def gossip_config_def Let_def)

lemma ursa_gossipsub_new_ok:
  assumes "gossip_lib_ok gl"
  shows "\<exists>g. ursa_gossipsub_new gl kp config = Ok g \<and> gossip_new gl kp (gossip_config config) = Ok g"
proof -
  have "strict_validation (gossip_config config)" by (simp add: gossip_config_def Let_def)
  then obtain g where "gossip_new gl kp (gossip_config config) = Ok g"
    using assms unfolding gossip_lib_ok_def is_ok_iff by blast
  then show ?thesis by (simp add: ursa_gossipsub_new_def gossip_config_build [OF assms])
qed

end
