(* ===== verification/Channels.thy ===== *)
theory Channels
  imports Ursa_Prelude
begin

text \<open>
  The interface of a table of waiting one-shot channels. Two components keep such a table: the
  network behaviour (\<open>pending_responses\<close>, one channel per request) and the network service
  (\<open>response_channels\<close>, any number of channels per CID). A one-shot sender is consumed by
  \<open>send\<close>, so what matters is that a registered channel leaves the table exactly when it is
  answered. The client lemmas hold for every interleaving of registrations and resolutions.
\<close>

section \<open>Interface\<close>

text \<open>
  \<open>register x ch s\<close> stores the channel \<open>ch\<close> under the key that the call \<open>x\<close> gets in state \<open>s\<close>;
  \<open>resolve r s\<close> removes all channels of the key of \<open>r\<close> and answers each of them. \<open>sent\<close> is the log
  of answers.
\<close>

locale waiter_table =
  fixes waiting :: "'s \<Rightarrow> 'k \<Rightarrow> chan list"
    and sent :: "'s \<Rightarrow> (chan \<times> 'v) list"
    and key :: "'x \<Rightarrow> 's \<Rightarrow> 'k"
    and can_register :: "'x \<Rightarrow> 's \<Rightarrow> bool"
    and register :: "'x \<Rightarrow> chan \<Rightarrow> 's \<Rightarrow> 's"
    and rkey :: "'r \<Rightarrow> 'k"
    and can_resolve :: "'r \<Rightarrow> 's \<Rightarrow> bool"
    and resolve :: "'r \<Rightarrow> 's \<Rightarrow> 's"
  assumes register_waiting: "can_register x s \<Longrightarrow>
      waiting (register x ch s) k = (if k = key x s then waiting s k @ [ch] else waiting s k)"
    and register_sent: "can_register x s \<Longrightarrow> sent (register x ch s) = sent s"
    and resolve_waiting: "can_resolve r s \<Longrightarrow>
      waiting (resolve r s) k = (if k = rkey r then [] else waiting s k)"
    and resolve_sent: "can_resolve r s \<Longrightarrow>
      \<exists>vs. length vs = length (waiting s (rkey r)) \<and> sent (resolve r s) = sent s @ zip (waiting s (rkey r)) vs"
begin

text \<open>A run of registrations (\<open>Inl\<close>) and resolutions (\<open>Inr\<close>); \<open>None\<close> when one is not possible.\<close>

fun exec :: "('x \<times> chan + 'r) list \<Rightarrow> 's \<Rightarrow> 's option" where
  "exec [] s = Some s"
| "exec (Inl (x, ch) # ops) s = (if can_register x s then exec ops (register x ch s) else None)"
| "exec (Inr r # ops) s = (if can_resolve r s then exec ops (resolve r s) else None)"

fun registered :: "('x \<times> chan + 'r) list \<Rightarrow> chan list" where
  "registered [] = []"
| "registered (Inl (x, ch) # ops) = ch # registered ops"
| "registered (Inr r # ops) = registered ops"

definition answered_chans :: "'s \<Rightarrow> chan list" where
  "answered_chans s = map fst (sent s)"

definition waits :: "'s \<Rightarrow> chan \<Rightarrow> bool" where
  "waits s ch \<longleftrightarrow> (\<exists>k. ch \<in> set (waiting s k))"

text \<open>No channel is stored twice, none was answered twice, none waits after its answer.\<close>

definition clean :: "'s \<Rightarrow> bool" where
  "clean s \<longleftrightarrow> distinct (answered_chans s) \<and> (\<forall>k. distinct (waiting s k)) \<and>
     (\<forall>j k. j \<noteq> k \<longrightarrow> set (waiting s j) \<inter> set (waiting s k) = {}) \<and>
     (\<forall>ch. waits s ch \<longrightarrow> ch \<notin> set (answered_chans s))"

lemma resolve_answered:
  "can_resolve r s \<Longrightarrow> answered_chans (resolve r s) = answered_chans s @ waiting s (rkey r)"
  using resolve_sent [of r s] by (auto simp: answered_chans_def)

lemma register_mem:
  "can_register x s \<Longrightarrow>
   c \<in> set (waiting (register x ch s) k) \<longleftrightarrow> c \<in> set (waiting s k) \<or> k = key x s \<and> c = ch"
  by (auto simp: register_waiting)

lemma resolve_mem:
  "can_resolve r s \<Longrightarrow> c \<in> set (waiting (resolve r s) k) \<longleftrightarrow> k \<noteq> rkey r \<and> c \<in> set (waiting s k)"
  by (simp add: resolve_waiting)

lemma waits_register: "can_register x s \<Longrightarrow> waits (register x ch s) c \<longleftrightarrow> c = ch \<or> waits s c"
  by (auto simp: waits_def register_mem)

lemma register_clean:
  assumes ok: "can_register x s" and "clean s" and "\<not> waits s ch" and "ch \<notin> set (answered_chans s)"
  shows "clean (register x ch s)"
proof -
  have free: "ch \<notin> set (waiting s k)" for k using assms(3) by (simp add: waits_def)
  have "distinct (waiting (register x ch s) k)" for k
    using assms(2) free by (simp add: clean_def register_waiting [OF ok])
  moreover have "set (waiting (register x ch s) j) \<inter> set (waiting (register x ch s) k) = {}"
    if "j \<noteq> k" for j k
  proof -
    have "set (waiting s j) \<inter> set (waiting s k) = {}" using assms(2) that by (simp add: clean_def)
    then show ?thesis using that free by (auto simp: register_mem [OF ok])
  qed
  moreover have "answered_chans (register x ch s) = answered_chans s"
    by (simp add: answered_chans_def register_sent [OF ok])
  ultimately show ?thesis
    using assms(2,4) by (auto simp: clean_def waits_register [OF ok])
qed

lemma resolve_clean:
  assumes "can_resolve r s" and "clean s"
  shows "clean (resolve r s)"
proof -
  have new: "answered_chans (resolve r s) = answered_chans s @ waiting s (rkey r)"
    by (rule resolve_answered [OF assms(1)])
  have wt: "waiting (resolve r s) k = (if k = rkey r then [] else waiting s k)" for k
    by (rule resolve_waiting [OF assms(1)])
  have "distinct (answered_chans s @ waiting s (rkey r))"
    using assms(2) by (auto simp: clean_def waits_def)
  moreover have "ch \<notin> set (answered_chans s @ waiting s (rkey r))"
    if "k \<noteq> rkey r" "ch \<in> set (waiting s k)" for ch k
    using assms(2) that by (auto simp: clean_def waits_def)
  ultimately show ?thesis
    using assms(2) by (auto simp: clean_def waits_def new wt split: if_splits)
qed

text \<open>Every channel is accounted for: it waits or has been answered.\<close>

lemma waits_resolve:
  assumes "can_resolve r s"
  shows "waits (resolve r s) c \<or> c \<in> set (answered_chans (resolve r s)) \<longleftrightarrow>
    waits s c \<or> c \<in> set (answered_chans s)"
proof -
  have "waits (resolve r s) c \<longleftrightarrow> (\<exists>k. k \<noteq> rkey r \<and> c \<in> set (waiting s k))"
    by (simp add: waits_def resolve_mem [OF assms])
  moreover have "waits s c \<longleftrightarrow> c \<in> set (waiting s (rkey r)) \<or> (\<exists>k. k \<noteq> rkey r \<and> c \<in> set (waiting s k))"
    unfolding waits_def by metis
  ultimately show ?thesis by (auto simp: resolve_answered [OF assms])
qed

theorem exec_at_most_once:
  assumes "exec ops s = Some s'" and "clean s" and "distinct (registered ops)"
    and "\<forall>ch\<in>set (registered ops). \<not> waits s ch \<and> ch \<notin> set (answered_chans s)"
  shows "clean s'"
  using assms
proof (induction ops s rule: exec.induct)
  case (2 x ch ops s)
  then have ok: "can_register x s" and ex: "exec ops (register x ch s) = Some s'"
    by (auto split: if_splits)
  have "clean (register x ch s)" using 2 ok by (intro register_clean) auto
  then show ?case
    using 2 ok ex by (auto simp: waits_register register_sent answered_chans_def)
next
  case (3 r ops s)
  then have ok: "can_resolve r s" and ex: "exec ops (resolve r s) = Some s'"
    by (auto split: if_splits)
  have "clean (resolve r s)" using 3 ok by (intro resolve_clean)
  then show ?case
    using 3 ok ex waits_resolve [OF ok] by auto
qed simp

theorem exec_accounted:
  assumes "exec ops s = Some s'"
  shows "waits s' ch \<or> ch \<in> set (answered_chans s') \<longleftrightarrow>
    waits s ch \<or> ch \<in> set (answered_chans s) \<or> ch \<in> set (registered ops)"
  using assms
proof (induction ops s rule: exec.induct)
  case (2 x c ops s)
  then show ?case
    by (auto simp: waits_register register_sent answered_chans_def split: if_splits)
next
  case (3 r ops s)
  then show ?case
    using waits_resolve [of r s ch] by (auto split: if_splits)
qed simp

end

end
