(* ===== verification/Behaviour.thy ===== *)
theory Behaviour
  imports Discovery Network_Config Channels
begin

text \<open>
  The network behaviour, \<open>crates/ursa-network/src/behaviour.rs\<close>: the queue of events for the
  service, the table of requests that wait for a response, and the table of bitswap queries. The
  events of the libp2p sub-behaviours are inputs; log messages are not modelled. A one-shot answer
  is recorded in \<open>answered\<close>, in the order of the \<open>send\<close> calls. The field \<open>net\<close> is the state of the
  third-party objects the struct owns.

  The lemmas show that events reach the service in order (interface \<open>event_source\<close>), that a request
  is answered at most once and waits otherwise (interface \<open>waiter_table\<close>), that a bitswap query
  yields exactly one event, which says whether it found the block, and what the constructor needs.
\<close>

section \<open>State and events\<close>

definition IPFS_PROTOCOL :: string where
  "IPFS_PROTOCOL = ''ipfs/0.1.0''"

definition ursa_agent :: "string \<Rightarrow> string" where
  "ursa_agent pkg_version = ''ursa/'' @ pkg_version"

record bitswap_info =
  info_cid :: cid
  info_query_id :: query_id
  block_found :: bool

text \<open>The channel of an inbound request is an opaque token of the request/response crate.\<close>

type_synonym response_channel = nat

datatype behaviour_event =
    NatStatusChanged nat_status nat_status
  | PeerConnected peer_id
  | PeerDisconnected peer_id
  | RelayReservationOpened peer_id
  | RelayReservationClosed peer_id
  | RelayCircuitOpened
  | RelayCircuitClosed
  | Bitswap bitswap_info
  | GossipMessage peer_id string gossip_message
  | RequestMessage peer_id ursa_exchange_request response_channel
  | StartPublish multiaddr

record 'w behaviour =
  net :: 'w
  beh_discovery :: discovery
  autonat_enabled :: bool
  relay_client_enabled :: bool
  relay_server_enabled :: bool
  dcutr_enabled :: bool
  beh_events :: "behaviour_event list"
  pending_requests :: "request_id \<Rightarrow> response_channel option"
  pending_responses :: "request_id \<Rightarrow> chan option"
  queries :: "query_id \<Rightarrow> bitswap_info option"
  answered :: "(chan \<times> ursa_exchange_response result) list"

definition push_event :: "behaviour_event \<Rightarrow> 'w behaviour \<Rightarrow> 'w behaviour" where
  "push_event e b = b\<lparr>beh_events := beh_events b @ [e]\<rparr>"

section \<open>Construction\<close>

text \<open>
  \<open>local\<close> is the peer id of the key pair; \<open>mk\<close> is the state of the other sub-behaviours, built
  around the gossipsub object. The closure that builds \<open>dcutr\<close> runs only when the relay client is
  configured.
\<close>

definition behaviour_new ::
  "peer_lib \<Rightarrow> 'g gossip_lib \<Rightarrow> ('g \<Rightarrow> 'w) \<Rightarrow> (keypair \<Rightarrow> peer_id) \<Rightarrow> keypair \<Rightarrow> network_config \<Rightarrow> bool \<Rightarrow>
   'w behaviour result" where
  "behaviour_new pl gl mk peer_of kp config relay_client_given =
     obind (ursa_gossipsub_new gl kp config) (\<lambda>g.
     obind (expect ''PeerScoreParams and PeerScoreThresholds'' (gossip_with_peer_score gl g)) (\<lambda>g'.
     obind (discovery_new pl (peer_of kp) (cfg_bootstrap_nodes config) (mdns config)) (\<lambda>d.
     if relay_client config \<and> \<not> relay_client_given then Panic (Explicit ''relay client not instantiated'')
     else Ok \<lparr>net = mk g', beh_discovery = d, autonat_enabled = autonat config,
              relay_client_enabled = relay_client_given, relay_server_enabled = relay_server config,
              dcutr_enabled = relay_client config, beh_events = [], pending_requests = Map.empty,
              pending_responses = Map.empty, queries = Map.empty, answered = []\<rparr>)))"

section \<open>Calls of the service\<close>

definition beh_publish ::
  "'w libp2p \<Rightarrow> string \<Rightarrow> gossip_message \<Rightarrow> 'w behaviour \<Rightarrow> (string, nat) outcome \<times> 'w behaviour" where
  "beh_publish lp topic data b =
     (case gossip_publish lp topic (msg_data data) (net b) of (r, w) \<Rightarrow> (r, b\<lparr>net := w\<rparr>))"

definition public_address :: "'w libp2p \<Rightarrow> 'w behaviour \<Rightarrow> multiaddr option" where
  "public_address lp b = (if autonat_enabled b then autonat_public_address lp (net b) else None)"

definition peers :: "'w behaviour \<Rightarrow> peer_id set" where
  "peers b = disc_peers (beh_discovery b)"

definition is_relay_client_enabled :: "'w behaviour \<Rightarrow> bool" where
  "is_relay_client_enabled b = relay_client_enabled b"

definition beh_bootstrap :: "'w libp2p \<Rightarrow> 'w behaviour \<Rightarrow> query_id result \<times> 'w behaviour" where
  "beh_bootstrap lp b =
     (case bootstrap lp (beh_discovery b) (net b) of (r, w) \<Rightarrow> (r, b\<lparr>net := w\<rparr>))"

definition subscribe :: "'w libp2p \<Rightarrow> string \<Rightarrow> 'w behaviour \<Rightarrow> (string, bool) outcome \<times> 'w behaviour" where
  "subscribe lp topic b = (case gossip_subscribe lp topic (net b) of (r, w) \<Rightarrow> (r, b\<lparr>net := w\<rparr>))"

definition unsubscribe :: "'w libp2p \<Rightarrow> string \<Rightarrow> 'w behaviour \<Rightarrow> (string, bool) outcome \<times> 'w behaviour" where
  "unsubscribe lp topic b = (case gossip_unsubscribe lp topic (net b) of (r, w) \<Rightarrow> (r, b\<lparr>net := w\<rparr>))"

definition publish_ad :: "multiaddr \<Rightarrow> 'w behaviour \<Rightarrow> unit result \<times> 'w behaviour" where
  "publish_ad address b = (Ok (), push_event (StartPublish address) b)"

definition send_request ::
  "'w libp2p \<Rightarrow> peer_id \<Rightarrow> ursa_exchange_request \<Rightarrow> chan \<Rightarrow> 'w behaviour \<Rightarrow> unit result \<times> 'w behaviour" where
  "send_request lp peer request sender b =
     (case rr_send_request lp peer request (net b) of
        (rid, w) \<Rightarrow> (Ok (), b\<lparr>net := w, pending_responses := (pending_responses b)(rid \<mapsto> sender)\<rparr>))"

definition get_block ::
  "cid_lib \<Rightarrow> 'w libp2p \<Rightarrow> cid \<Rightarrow> peer_id list \<Rightarrow> 'w behaviour \<Rightarrow> unit result \<times> 'w behaviour" where
  "get_block cl lp cid providers b =
     (case convert_cid (cid_try_from cl) (cid_to_bytes cl cid) of
        Ok c \<Rightarrow>
          (case bitswap_get lp c providers (net b) of
             (q, w) \<Rightarrow>
               (Ok (), b\<lparr>net := w, queries := (queries b)(q \<mapsto>
                  \<lparr>info_cid = cid, info_query_id = q, block_found = False\<rparr>)\<rparr>))
      | Err e \<Rightarrow> (Err e, b)
      | Panic x \<Rightarrow> (Panic x, b))"

definition sync_block ::
  "cid_lib \<Rightarrow> 'w libp2p \<Rightarrow> cid \<Rightarrow> peer_id list \<Rightarrow> 'w behaviour \<Rightarrow> unit result \<times> 'w behaviour" where
  "sync_block cl lp cid providers b =
     (case convert_cid (cid_try_from cl) (cid_to_bytes cl cid) of
        Ok c_cid \<Rightarrow>
          (case bitswap_sync lp c_cid providers [c_cid] (net b) of
             (q, w) \<Rightarrow>
               (Ok (), b\<lparr>net := w, queries := (queries b)(q \<mapsto>
                  \<lparr>info_cid = cid, info_query_id = q, block_found = False\<rparr>)\<rparr>))
      | Err e \<Rightarrow> (Err e, b)
      | Panic x \<Rightarrow> (Panic x, b))"

definition cancel :: "'w libp2p \<Rightarrow> query_id \<Rightarrow> 'w behaviour \<Rightarrow> 'w behaviour" where
  "cancel lp q b =
     b\<lparr>queries := (queries b)(q := None), net := bitswap_cancel lp q (net b)\<rparr>"

definition beh_poll :: "'w behaviour \<Rightarrow> behaviour_event nb_action option \<times> 'w behaviour" where
  "beh_poll b =
     (case beh_events b of
        event # rest \<Rightarrow> (Some (GenerateEvent event), b\<lparr>beh_events := rest\<rparr>)
      | [] \<Rightarrow> (None, b))"

section \<open>Events of the sub-behaviours\<close>

datatype ping_success = Pong | PingRtt nat
datatype ping_failure = PingTimeout | PingUnsupported | PingOther string

record ping_event =
  ping_peer :: peer_id
  ping_result :: "(ping_failure, ping_success) outcome"

record identify_info =
  protocol_version :: string
  id_protocols :: "string list"
  listen_addrs :: "multiaddr list"

datatype identify_event =
    IdReceived peer_id identify_info | IdSent peer_id | IdPushed peer_id | IdError peer_id string

datatype autonat_event = StatusChanged nat_status nat_status | OutboundProbe nat | InboundProbe nat

datatype relay_server_event =
    ReservationReqAccepted peer_id bool
  | ReservationTimedOut peer_id
  | CircuitReqAccepted peer_id peer_id
  | CircuitClosed peer_id peer_id
  | OtherRelayServerEvent nat

datatype bitswap_event = Progress query_id nat | Complete query_id "(string, unit) outcome"

datatype gossipsub_event =
    GsMessage peer_id gossip_message
  | GsSubscribed peer_id string
  | GsUnsubscribed peer_id string
  | GsNotSupported peer_id

datatype rr_message =
    RrRequest request_id ursa_exchange_request response_channel
  | RrResponse request_id ursa_exchange_response

datatype rr_event =
    RrMessage peer_id rr_message
  | OutboundFailure peer_id request_id string
  | InboundFailure peer_id request_id string
  | ResponseSent peer_id request_id

section \<open>Handlers\<close>

text \<open>Pings, relay client and hole punching events are logged only.\<close>

definition handle_ping :: "ping_event \<Rightarrow> 'w behaviour \<Rightarrow> 'w behaviour" where
  "handle_ping event b =
     (case ping_result event of
        Ok result \<Rightarrow> (case result of Pong \<Rightarrow> b | PingRtt rtt \<Rightarrow> b)
      | Err err \<Rightarrow> (case err of PingTimeout \<Rightarrow> b | PingUnsupported \<Rightarrow> b | PingOther error \<Rightarrow> b)
      | Panic x \<Rightarrow> b)"

definition handle_identify :: "'w libp2p \<Rightarrow> identify_event \<Rightarrow> 'w behaviour \<Rightarrow> 'w behaviour" where
  "handle_identify lp event b =
     (case event of
        IdReceived p info \<Rightarrow>
          if list_ex (\<lambda>name. as_bytes name = URSA_KAD_PROTOCOL) (id_protocols info) then
            b\<lparr>net := fold (\<lambda>address w. rr_add_address lp p address (add_address lp p address w))
                       (listen_addrs info) (gossip_add_explicit_peer lp p (net b))\<rparr>
          else b
      | IdSent p \<Rightarrow> b
      | IdPushed p \<Rightarrow> b
      | IdError p e \<Rightarrow> b)"

definition handle_autonat :: "autonat_event \<Rightarrow> 'w behaviour \<Rightarrow> 'w behaviour" where
  "handle_autonat event b =
     (case event of
        StatusChanged old new \<Rightarrow> push_event (NatStatusChanged old new) b
      | OutboundProbe x \<Rightarrow> b
      | InboundProbe x \<Rightarrow> b)"

definition handle_relay_server :: "relay_server_event \<Rightarrow> 'w behaviour \<Rightarrow> 'w behaviour" where
  "handle_relay_server event b =
     (case event of
        ReservationReqAccepted src_peer_id renewed \<Rightarrow>
          if \<not> renewed then push_event (RelayReservationOpened src_peer_id) b else b
      | ReservationTimedOut src_peer_id \<Rightarrow> push_event (RelayReservationClosed src_peer_id) b
      | CircuitReqAccepted s d \<Rightarrow> push_event RelayCircuitOpened b
      | CircuitClosed s d \<Rightarrow> push_event RelayCircuitClosed b
      | OtherRelayServerEvent n \<Rightarrow> b)"

definition handle_relay_client :: "nat \<Rightarrow> 'w behaviour \<Rightarrow> 'w behaviour" where
  "handle_relay_client event b = b"

definition handle_dcutr :: "nat \<Rightarrow> 'w behaviour \<Rightarrow> 'w behaviour" where
  "handle_dcutr event b = b"

definition handle_bitswap :: "bitswap_event \<Rightarrow> 'w behaviour \<Rightarrow> 'w behaviour" where
  "handle_bitswap event b =
     (case event of
        Progress q missing \<Rightarrow> b
      | Complete q result \<Rightarrow>
          (case queries b q of
             Some info \<Rightarrow>
               push_event (Bitswap (case result of Err err \<Rightarrow> info | Ok u \<Rightarrow> info\<lparr>block_found := True\<rparr>
                                                  | Panic x \<Rightarrow> info))
                 (b\<lparr>queries := (queries b)(q := None)\<rparr>)
           | None \<Rightarrow> b))"

definition handle_gossipsub :: "gossipsub_event \<Rightarrow> 'w behaviour \<Rightarrow> 'w behaviour" where
  "handle_gossipsub event b =
     (case event of
        GsMessage propagation_source message \<Rightarrow>
          push_event (GossipMessage propagation_source (msg_topic message) message) b
      | GsSubscribed p t \<Rightarrow> b
      | GsUnsubscribed p t \<Rightarrow> b
      | GsNotSupported p \<Rightarrow> b)"

definition handle_discovery :: "discovery_event \<Rightarrow> 'w behaviour \<Rightarrow> 'w behaviour" where
  "handle_discovery event b =
     (case event of
        Connected p \<Rightarrow> push_event (PeerConnected p) b
      | Disconnected p \<Rightarrow> push_event (PeerDisconnected p) b)"

text \<open>Removing the waiting channel of a request and sending the result to it.\<close>

definition resolve_response ::
  "request_id \<Rightarrow> ursa_exchange_response result \<Rightarrow> 'w behaviour \<Rightarrow> 'w behaviour" where
  "resolve_response rid r b =
     (case pending_responses b rid of
        Some request \<Rightarrow>
          b\<lparr>pending_responses := (pending_responses b)(rid := None), answered := answered b @ [(request, r)]\<rparr>
      | None \<Rightarrow> b)"

definition handle_request_response :: "rr_event \<Rightarrow> 'w behaviour \<Rightarrow> 'w behaviour" where
  "handle_request_response event b =
     (case event of
        RrMessage peer message \<Rightarrow>
          (case message of
             RrRequest rid request channel \<Rightarrow> push_event (RequestMessage peer request channel) b
           | RrResponse rid response \<Rightarrow> resolve_response rid (Ok response) b)
      | OutboundFailure peer rid error \<Rightarrow> resolve_response rid (Err (External error)) b
      | InboundFailure peer rid error \<Rightarrow> b
      | ResponseSent peer rid \<Rightarrow> b)"

text \<open>The \<open>NetworkBehaviourEventProcess\<close> instances: one input per sub-behaviour.\<close>

datatype beh_input =
    InPing ping_event
  | InIdentify identify_event
  | InGossipsub gossipsub_event
  | InBitswap bitswap_event
  | InDiscovery discovery_event
  | InAutonat autonat_event
  | InRelayServer relay_server_event
  | InRelayClient nat
  | InDcutr nat
  | InRequestResponse rr_event

fun beh_inject_event :: "'w libp2p \<Rightarrow> beh_input \<Rightarrow> 'w behaviour \<Rightarrow> 'w behaviour" where
  "beh_inject_event lp (InPing event) b = handle_ping event b"
| "beh_inject_event lp (InIdentify event) b = handle_identify lp event b"
| "beh_inject_event lp (InGossipsub event) b = handle_gossipsub event b"
| "beh_inject_event lp (InBitswap event) b = handle_bitswap event b"
| "beh_inject_event lp (InDiscovery event) b = handle_discovery event b"
| "beh_inject_event lp (InAutonat event) b = handle_autonat event b"
| "beh_inject_event lp (InRelayServer event) b = handle_relay_server event b"
| "beh_inject_event lp (InRelayClient event) b = handle_relay_client event b"
| "beh_inject_event lp (InDcutr event) b = handle_dcutr event b"
| "beh_inject_event lp (InRequestResponse event) b = handle_request_response event b"

section \<open>The event queue\<close>

text \<open>The events an input adds for the service.\<close>

fun beh_emits :: "beh_input \<Rightarrow> 'w behaviour \<Rightarrow> behaviour_event list" where
  "beh_emits (InGossipsub (GsMessage p m)) b = [GossipMessage p (msg_topic m) m]"
| "beh_emits (InBitswap (Complete q r)) b =
     (case queries b q of
        None \<Rightarrow> []
      | Some info \<Rightarrow> [Bitswap (if is_ok r then info\<lparr>block_found := True\<rparr> else info)])"
| "beh_emits (InDiscovery (Connected p)) b = [PeerConnected p]"
| "beh_emits (InDiscovery (Disconnected p)) b = [PeerDisconnected p]"
| "beh_emits (InAutonat (StatusChanged old new)) b = [NatStatusChanged old new]"
| "beh_emits (InRelayServer (ReservationReqAccepted p renewed)) b =
     (if renewed then [] else [RelayReservationOpened p])"
| "beh_emits (InRelayServer (ReservationTimedOut p)) b = [RelayReservationClosed p]"
| "beh_emits (InRelayServer (CircuitReqAccepted s d)) b = [RelayCircuitOpened]"
| "beh_emits (InRelayServer (CircuitClosed s d)) b = [RelayCircuitClosed]"
| "beh_emits (InRequestResponse (RrMessage p (RrRequest i r c))) b = [RequestMessage p r c]"
| "beh_emits _ b = []"

lemmas handler_defs =
  handle_ping_def handle_identify_def handle_autonat_def handle_relay_server_def
  handle_relay_client_def handle_dcutr_def handle_bitswap_def handle_gossipsub_def
  handle_discovery_def handle_request_response_def resolve_response_def push_event_def

lemmas handler_splits =
  outcome.split ping_success.split ping_failure.split identify_event.split autonat_event.split
  relay_server_event.split bitswap_event.split gossipsub_event.split discovery_event.split
  rr_event.split rr_message.split option.split

definition beh_deliver :: "'w behaviour \<Rightarrow> (behaviour_event \<times> 'w behaviour) option" where
  "beh_deliver b = (case beh_poll b of (Some (GenerateEvent e), b') \<Rightarrow> Some (e, b') | _ \<Rightarrow> None)"

lemma beh_inject_event_queue:
  "beh_events (beh_inject_event lp i b) = beh_events b @ beh_emits i b"
  by (induction i b rule: beh_emits.induct) (auto simp: handler_defs split: handler_splits)

interpretation beh: event_source beh_events "beh_inject_event lp" beh_emits beh_deliver
  for lp
proof (unfold_locales, goal_cases)
  case (1 i s)
  show ?case by (rule beh_inject_event_queue)
next
  case (2 s e s')
  then show ?case by (auto simp: beh_deliver_def beh_poll_def split: list.splits)
next
  case (3 s)
  then show ?case by (auto simp: beh_deliver_def beh_poll_def split: list.splits)
qed

section \<open>Steps\<close>

text \<open>
  Everything that can happen to the behaviour apart from \<open>send_request\<close>: an event of a
  sub-behaviour, a poll, or another call of the service.
\<close>

datatype beh_step =
    Inject beh_input
  | PollEvent
  | CallGet cid "peer_id list"
  | CallSync cid "peer_id list"
  | CallCancel query_id
  | CallPublishAd multiaddr
  | CallPublish string gossip_message
  | CallBootstrap
  | CallSubscribe string
  | CallUnsubscribe string

fun beh_do :: "cid_lib \<Rightarrow> 'w libp2p \<Rightarrow> beh_step \<Rightarrow> 'w behaviour \<Rightarrow> 'w behaviour" where
  "beh_do cl lp (Inject i) b = beh_inject_event lp i b"
| "beh_do cl lp PollEvent b = snd (beh_poll b)"
| "beh_do cl lp (CallGet c ps) b = snd (get_block cl lp c ps b)"
| "beh_do cl lp (CallSync c ps) b = snd (sync_block cl lp c ps b)"
| "beh_do cl lp (CallCancel q) b = cancel lp q b"
| "beh_do cl lp (CallPublishAd a) b = snd (publish_ad a b)"
| "beh_do cl lp (CallPublish t m) b = snd (beh_publish lp t m b)"
| "beh_do cl lp CallBootstrap b = snd (beh_bootstrap lp b)"
| "beh_do cl lp (CallSubscribe t) b = snd (subscribe lp t b)"
| "beh_do cl lp (CallUnsubscribe t) b = snd (unsubscribe lp t b)"

lemmas call_defs =
  beh_poll_def get_block_def sync_block_def cancel_def publish_ad_def beh_publish_def
  beh_bootstrap_def subscribe_def unsubscribe_def push_event_def

section \<open>Requests waiting for a response\<close>

text \<open>The request a step resolves, if any.\<close>

fun resolves :: "beh_step \<Rightarrow> request_id option" where
  "resolves (Inject (InRequestResponse (RrMessage p (RrResponse rid r)))) = Some rid"
| "resolves (Inject (InRequestResponse (OutboundFailure p rid e))) = Some rid"
| "resolves _ = None"

definition resp_waiting :: "'w behaviour \<Rightarrow> request_id option \<Rightarrow> chan list" where
  "resp_waiting b k =
     (case k of
        None \<Rightarrow> []
      | Some rid \<Rightarrow> (case pending_responses b rid of None \<Rightarrow> [] | Some ch \<Rightarrow> [ch]))"

definition next_request_id :: "'w libp2p \<Rightarrow> peer_id \<times> ursa_exchange_request \<Rightarrow> 'w behaviour \<Rightarrow> request_id" where
  "next_request_id lp x b = fst (rr_send_request lp (fst x) (snd x) (net b))"

lemma send_request_pending:
  "pending_responses (snd (send_request lp p r ch b)) =
   (pending_responses b)(next_request_id lp (p, r) b \<mapsto> ch)"
  "answered (snd (send_request lp p r ch b)) = answered b"
  by (simp_all add: send_request_def next_request_id_def split: prod.splits)

lemma beh_do_unrelated:
  assumes "resolves st = None"
  shows "pending_responses (beh_do cl lp st b) = pending_responses b"
    and "answered (beh_do cl lp st b) = answered b"
proof -
  have "pending_responses (beh_inject_event lp i b) = pending_responses b \<and>
      answered (beh_inject_event lp i b) = answered b" if "resolves (Inject i) = None" for i
  proof (cases i)
    case (InRequestResponse e)
    then show ?thesis using that by (cases e) (auto simp: handler_defs split: rr_message.splits)
  qed (auto simp: handler_defs split: handler_splits)
  then show "pending_responses (beh_do cl lp st b) = pending_responses b"
    and "answered (beh_do cl lp st b) = answered b"
    using assms by (cases st; simp add: call_defs split: list.split outcome.split prod.split)+
qed

lemma resolves_SomeE:
  assumes "resolves st = Some rid"
  obtains r where "beh_do cl lp st b = resolve_response rid r b"
  using assms by (cases st rule: resolves.cases) (auto simp: handle_request_response_def)

lemma resolve_response_pending:
  "pending_responses (resolve_response rid r b) = (pending_responses b)(rid := None)"
  "answered (resolve_response rid r b) =
   answered b @ (case pending_responses b rid of None \<Rightarrow> [] | Some ch \<Rightarrow> [(ch, r)])"
  by (auto simp: resolve_response_def split: option.splits)

interpretation resp: waiter_table resp_waiting answered "\<lambda>x b. Some (next_request_id lp x b)"
  "\<lambda>x b. pending_responses b (next_request_id lp x b) = None"
  "\<lambda>x ch b. snd (send_request lp (fst x) (snd x) ch b)" resolves "\<lambda>st b. True" "beh_do cl lp"
  for cl lp
proof (unfold_locales, goal_cases)
  case (1 x s ch k)
  then show ?case
    by (cases k) (auto simp: resp_waiting_def send_request_pending split: option.splits)
next
  case (2 x s ch)
  show ?case by (simp add: send_request_pending)
next
  case (3 r s k)
  show ?case
  proof (cases "resolves r")
    case None
    then show ?thesis by (cases k) (simp_all add: resp_waiting_def beh_do_unrelated)
  next
    case (Some rid)
    then obtain v where "beh_do cl lp r s = resolve_response rid v s" by (rule resolves_SomeE)
    then show ?thesis
      using Some by (cases k) (auto simp: resp_waiting_def resolve_response_pending)
  qed
next
  case (4 r s)
  show ?case
  proof (cases "resolves r")
    case None
    then show ?thesis by (simp add: resp_waiting_def beh_do_unrelated)
  next
    case (Some rid)
    then obtain v where "beh_do cl lp r s = resolve_response rid v s" by (rule resolves_SomeE)
    then show ?thesis
      using Some
      by (intro exI [of _ "case pending_responses s rid of None \<Rightarrow> [] | Some ch \<Rightarrow> [v]"])
        (auto simp: resp_waiting_def resolve_response_pending split: option.splits)
  qed
qed

section \<open>Bitswap queries\<close>

text \<open>
  Documented behaviour of the bitswap crate: the identifier of a new query was never handed out
  before. \<open>issued w\<close> is the set of identifiers handed out so far; it never shrinks.
\<close>

definition bitswap_ids_fresh :: "'w libp2p \<Rightarrow> ('w \<Rightarrow> query_id set) \<Rightarrow> bool" where
  "bitswap_ids_fresh lp issued \<longleftrightarrow>
     (\<forall>c ps w. fst (bitswap_get lp c ps w) \<notin> issued w \<and>
        issued (snd (bitswap_get lp c ps w)) = insert (fst (bitswap_get lp c ps w)) (issued w)) \<and>
     (\<forall>c ps ms w. fst (bitswap_sync lp c ps ms w) \<notin> issued w \<and>
        issued (snd (bitswap_sync lp c ps ms w)) = insert (fst (bitswap_sync lp c ps ms w)) (issued w)) \<and>
     (\<forall>q w. issued (bitswap_cancel lp q w) = issued w) \<and>
     (\<forall>p a w. issued (kad_add_address lp p a w) = issued w) \<and>
     (\<forall>w. issued (snd (kad_bootstrap lp w)) = issued w) \<and>
     (\<forall>t d w. issued (snd (gossip_publish lp t d w)) = issued w) \<and>
     (\<forall>t w. issued (snd (gossip_subscribe lp t w)) = issued w) \<and>
     (\<forall>t w. issued (snd (gossip_unsubscribe lp t w)) = issued w) \<and>
     (\<forall>p w. issued (gossip_add_explicit_peer lp p w) = issued w) \<and>
     (\<forall>p r w. issued w \<subseteq> issued (snd (rr_send_request lp p r w))) \<and>
     (\<forall>p a w. issued (rr_add_address lp p a w) = issued w) \<and>
     (\<forall>a w. issued (snd (swarm_listen_on lp a w)) = issued w) \<and>
     (\<forall>p c e f n w. issued (kad_connection_established lp p c e f n w) = issued w) \<and>
     (\<forall>p c e h n w. issued (kad_connection_closed lp p c e h n w) = issued w) \<and>
     (\<forall>p c x y w. issued (kad_address_change lp p c x y w) = issued w) \<and>
     (\<forall>p c e w. issued (kad_inject_event lp p c e w) = issued w)"

fun query_of :: "behaviour_event \<Rightarrow> query_id list" where
  "query_of (Bitswap info) = [info_query_id info]"
| "query_of _ = []"

definition query_ids :: "behaviour_event list \<Rightarrow> query_id list" where
  "query_ids es = concat (map query_of es)"

text \<open>
  The invariant of the query table: \<open>ended\<close> are the queries whose event was delivered. A query is
  in the table under its own number and not marked found, and no query is both in the table and
  reported, or reported twice.
\<close>

definition queries_ok :: "('w \<Rightarrow> query_id set) \<Rightarrow> query_id list \<Rightarrow> 'w behaviour \<Rightarrow> bool" where
  "queries_ok issued ended b \<longleftrightarrow>
     (\<forall>q info. queries b q = Some info \<longrightarrow>
        info_query_id info = q \<and> \<not> block_found info \<and> q \<in> issued (net b)) \<and>
     distinct (ended @ query_ids (beh_events b)) \<and>
     (\<forall>q\<in>set (ended @ query_ids (beh_events b)). q \<in> issued (net b) \<and> queries b q = None)"

fun delivered_by :: "beh_step \<Rightarrow> 'w behaviour \<Rightarrow> behaviour_event list" where
  "delivered_by PollEvent b = take 1 (beh_events b)"
| "delivered_by _ b = []"

text \<open>A run of requests (\<open>Inl\<close>) and other steps, with the events delivered to the service.\<close>

fun beh_run ::
  "cid_lib \<Rightarrow> 'w libp2p \<Rightarrow> ((peer_id \<times> ursa_exchange_request) \<times> chan + beh_step) list \<Rightarrow> 'w behaviour \<Rightarrow>
   behaviour_event list \<times> 'w behaviour" where
  "beh_run cl lp [] b = ([], b)"
| "beh_run cl lp (Inl ((p, r), ch) # ops) b = beh_run cl lp ops (snd (send_request lp p r ch b))"
| "beh_run cl lp (Inr st # ops) b =
     (case beh_run cl lp ops (beh_do cl lp st b) of (out, b') \<Rightarrow> (delivered_by st b @ out, b'))"

lemma query_ids_simps [simp]:
  "query_ids [] = []" "query_ids (es @ fs) = query_ids es @ query_ids fs"
  "query_ids (e # es) = query_of e @ query_ids es"
  by (simp_all add: query_ids_def)

lemma queries_ok_transfer:
  assumes "queries_ok issued ended b" and "queries b' = queries b"
    and "ended' @ query_ids (beh_events b') = ended @ query_ids (beh_events b)"
    and "issued (net b) \<subseteq> issued (net b')"
  shows "queries_ok issued ended' b'"
  using assms(1,4) unfolding queries_ok_def assms(2,3) by blast

lemma queries_ok_issue:
  assumes "queries_ok issued ended b" and "q \<notin> issued (net b)" and "issued w = insert q (issued (net b))"
  shows "queries_ok issued ended
    (b\<lparr>net := w, queries := (queries b)(q \<mapsto> \<lparr>info_cid = c, info_query_id = q, block_found = False\<rparr>)\<rparr>)"
  using assms by (auto simp: queries_ok_def)

lemma queries_ok_complete:
  assumes "queries_ok issued ended b" and "queries b q = Some info" and "info_query_id info' = q"
  shows "queries_ok issued ended (push_event (Bitswap info') (b\<lparr>queries := (queries b)(q := None)\<rparr>))"
  using assms by (auto simp: queries_ok_def push_event_def)

lemma fold_issued:
  "(\<And>x w. issued (f x w) = issued w) \<Longrightarrow> issued (fold f xs w) = issued w"
  by (induction xs arbitrary: w) simp_all

lemma ids_fresh:
  assumes "bitswap_ids_fresh lp issued"
  shows "fst (bitswap_get lp c ps w) \<notin> issued w"
    and "issued (snd (bitswap_get lp c ps w)) = insert (fst (bitswap_get lp c ps w)) (issued w)"
    and "fst (bitswap_sync lp c ps ms w) \<notin> issued w"
    and "issued (snd (bitswap_sync lp c ps ms w)) = insert (fst (bitswap_sync lp c ps ms w)) (issued w)"
    and "issued (bitswap_cancel lp q w) = issued w"
    and "issued (kad_add_address lp p a w) = issued w"
    and "issued (snd (kad_bootstrap lp w)) = issued w"
    and "issued (snd (gossip_publish lp t d w)) = issued w"
    and "issued (snd (gossip_subscribe lp t w)) = issued w"
    and "issued (snd (gossip_unsubscribe lp t w)) = issued w"
    and "issued (gossip_add_explicit_peer lp p w) = issued w"
    and "issued w \<subseteq> issued (snd (rr_send_request lp p r w))"
    and "issued (rr_add_address lp p a w) = issued w"
    and "issued (snd (swarm_listen_on lp a w)) = issued w"
    and "issued (kad_connection_established lp p ci e f n w) = issued w"
    and "issued (kad_connection_closed lp p ci e h n w) = issued w"
    and "issued (kad_address_change lp p ci x y w) = issued w"
    and "issued (kad_inject_event lp p ci e w) = issued w"
  using assms by (simp_all add: bitswap_ids_fresh_def)

lemma issued_bootstrap:
  assumes "bitswap_ids_fresh lp issued"
  shows "issued (snd (bootstrap lp d w)) = issued w"
proof -
  let ?w1 = "fold (\<lambda>(p, a). add_address lp p a) (bootstrap_addrs d) w"
  have "issued ?w1 = issued w"
    by (rule fold_issued) (simp add: add_address_def ids_fresh [OF assms] split: prod.split)
  then show ?thesis
    using ids_fresh(7) [OF assms, of ?w1] by (cases "kad_bootstrap lp ?w1") (simp add: bootstrap_def Let_def)
qed

lemma handle_identify_effects:
  assumes "bitswap_ids_fresh lp issued"
  shows "queries (handle_identify lp e b) = queries b"
    and "beh_events (handle_identify lp e b) = beh_events b"
    and "issued (net (handle_identify lp e b)) = issued (net b)"
proof -
  have "issued (fold (\<lambda>address w. rr_add_address lp p address (add_address lp p address w)) as w) = issued w"
    for p as w
    by (rule fold_issued) (simp add: add_address_def ids_fresh [OF assms])
  then show "issued (net (handle_identify lp e b)) = issued (net b)"
    by (simp add: handle_identify_def ids_fresh [OF assms] split: identify_event.split)
  show "queries (handle_identify lp e b) = queries b"
    and "beh_events (handle_identify lp e b) = beh_events b"
    by (simp_all add: handle_identify_def split: identify_event.split)
qed

lemma beh_inject_other:
  assumes "bitswap_ids_fresh lp issued" and "\<And>q r. i \<noteq> InBitswap (Complete q r)"
  shows "queries (beh_inject_event lp i b) = queries b"
    and "query_ids (beh_emits i b) = []"
    and "issued (net (beh_inject_event lp i b)) = issued (net b)"
proof -
  have "queries (beh_inject_event lp i b) = queries b \<and>
      issued (net (beh_inject_event lp i b)) = issued (net b)"
  proof (cases i)
    case (InIdentify e)
    then show ?thesis by (simp add: handle_identify_effects [OF assms(1)])
  next
    case (InBitswap e)
    then show ?thesis using assms(2) by (cases e) (auto simp: handler_defs)
  qed (auto simp: handler_defs split: handler_splits)
  then show "queries (beh_inject_event lp i b) = queries b"
    and "issued (net (beh_inject_event lp i b)) = issued (net b)" by simp_all
  show "query_ids (beh_emits i b) = []"
    using assms(2) by (cases "(i, b)" rule: beh_emits.cases) auto
qed

lemma inject_queries_ok [ursa_inv]:
  assumes "bitswap_ids_fresh lp issued" and "queries_ok issued ended b"
  shows "queries_ok issued ended (beh_inject_event lp i b)"
proof (cases "\<exists>q r. i = InBitswap (Complete q r)")
  case True
  then obtain q r where i: "i = InBitswap (Complete q r)" by blast
  show ?thesis
  proof (cases "queries b q")
    case None
    with assms(2) show ?thesis by (simp add: i handle_bitswap_def)
  next
    case (Some info)
    then have "info_query_id info = q" using assms(2) by (simp add: queries_ok_def)
    then show ?thesis
      using queries_ok_complete [OF assms(2) Some]
      by (cases r) (simp_all add: i handle_bitswap_def Some)
  qed
next
  case False
  then have "\<And>q r. i \<noteq> InBitswap (Complete q r)" by blast
  note other = beh_inject_other [OF assms(1) this]
  show ?thesis
    by (rule queries_ok_transfer [OF assms(2)]) (simp_all add: other beh_inject_event_queue)
qed

lemma poll_queries_ok:
  assumes "queries_ok issued ended b"
  shows "queries_ok issued (ended @ query_ids (take 1 (beh_events b))) (snd (beh_poll b))"
proof (cases "beh_events b")
  case Nil
  with assms show ?thesis by (simp add: beh_poll_def)
next
  case (Cons e es)
  show ?thesis
    by (rule queries_ok_transfer [OF assms]) (simp_all add: beh_poll_def Cons)
qed

lemma query_call_queries_ok:
  assumes "bitswap_ids_fresh lp issued" and "queries_ok issued ended b"
  shows "queries_ok issued ended (snd (get_block cl lp c ps b))"
    and "queries_ok issued ended (snd (sync_block cl lp c ps b))"
proof -
  show "queries_ok issued ended (snd (get_block cl lp c ps b))"
    using assms(2)
    by (auto simp: get_block_def case_prod_beta ids_fresh [OF assms(1)] intro!: queries_ok_issue
        split: outcome.split)
  show "queries_ok issued ended (snd (sync_block cl lp c ps b))"
    using assms(2)
    by (auto simp: sync_block_def case_prod_beta ids_fresh [OF assms(1)] intro!: queries_ok_issue
        split: outcome.split)
qed

lemma cancel_queries_ok:
  assumes "bitswap_ids_fresh lp issued" and "queries_ok issued ended b"
  shows "queries_ok issued ended (cancel lp q b)"
  using assms(2) by (auto simp: queries_ok_def cancel_def ids_fresh [OF assms(1)])

lemma disc_step_issued:
  assumes "bitswap_ids_fresh lp issued"
  shows "issued (snd (disc_step lp di (d, w))) = issued w"
  by (cases di) (simp_all add: disc_inject_defs ids_fresh [OF assms])

lemma beh_do_queries_ok [ursa_inv]:
  assumes "bitswap_ids_fresh lp issued" and "queries_ok issued ended b"
  shows "queries_ok issued (ended @ query_ids (delivered_by st b)) (beh_do cl lp st b)"
proof (cases st)
  case (Inject i)
  then show ?thesis using assms by (simp add: inject_queries_ok)
next
  case PollEvent
  then show ?thesis using poll_queries_ok [OF assms(2)] by simp
next
  case (CallGet c ps)
  then show ?thesis using query_call_queries_ok [OF assms] by simp
next
  case (CallSync c ps)
  then show ?thesis using query_call_queries_ok [OF assms] by simp
next
  case (CallCancel q)
  then show ?thesis using cancel_queries_ok [OF assms] by simp
next
  case (CallPublishAd a)
  then show ?thesis by (intro queries_ok_transfer [OF assms(2)]) (simp_all add: call_defs)
next
  case (CallPublish t m)
  then show ?thesis
    by (intro queries_ok_transfer [OF assms(2)]) (simp_all add: beh_publish_def case_prod_beta ids_fresh [OF assms(1)] issued_bootstrap [OF assms(1)])
next
  case CallBootstrap
  then show ?thesis
    by (intro queries_ok_transfer [OF assms(2)]) (simp_all add: beh_bootstrap_def case_prod_beta ids_fresh [OF assms(1)] issued_bootstrap [OF assms(1)])
next
  case (CallSubscribe t)
  then show ?thesis
    by (intro queries_ok_transfer [OF assms(2)]) (simp_all add: subscribe_def case_prod_beta ids_fresh [OF assms(1)] issued_bootstrap [OF assms(1)])
next
  case (CallUnsubscribe t)
  then show ?thesis
    by (intro queries_ok_transfer [OF assms(2)]) (simp_all add: unsubscribe_def case_prod_beta ids_fresh [OF assms(1)] issued_bootstrap [OF assms(1)])
qed

lemma send_request_queries_ok [ursa_inv]:
  assumes "bitswap_ids_fresh lp issued" and "queries_ok issued ended b"
  shows "queries_ok issued ended (snd (send_request lp p r ch b))"
  by (intro queries_ok_transfer [OF assms(2)]) (simp_all add: send_request_def case_prod_beta ids_fresh [OF assms(1)] issued_bootstrap [OF assms(1)])

lemma beh_run_queries_ok:
  assumes "bitswap_ids_fresh lp issued" and "queries_ok issued ended b"
    and "beh_run cl lp ops b = (out, b')"
  shows "queries_ok issued (ended @ query_ids out) b'"
  using assms
proof (induction cl lp ops b arbitrary: ended out rule: beh_run.induct)
  case (2 cl lp p r ch ops b)
  show ?case
    using "2.IH" [OF "2.prems"(1) send_request_queries_ok [OF "2.prems"(1,2)]] "2.prems"(3) by simp
next
  case (3 cl lp st ops b)
  from "3.prems"(3) obtain out1 where r: "beh_run cl lp ops (beh_do cl lp st b) = (out1, b')"
    and "out = delivered_by st b @ out1"
    by (auto split: prod.splits)
  then show ?case
    using "3.IH" [OF "3.prems"(1) beh_do_queries_ok [OF "3.prems"(1,2)] r] by simp
qed simp

section \<open>Concrete states\<close>

definition idle_discovery :: discovery where
  "idle_discovery = \<lparr>local_peer_id = PeerId 0, bootstrap_nodes = [], disc_peers = {PeerId 7},
     peer_info = Map.empty, disc_events = [], mdns_enabled = False\<rparr>"

definition idle_behaviour :: "nat behaviour" where
  "idle_behaviour = \<lparr>net = 0, beh_discovery = idle_discovery, autonat_enabled = True,
     relay_client_enabled = True, relay_server_enabled = True, dcutr_enabled = True, beh_events = [],
     pending_requests = Map.empty, pending_responses = Map.empty, queries = Map.empty, answered = []\<rparr>"

lemma counter_ids_fresh [simp]: "bitswap_ids_fresh counter_libp2p (\<lambda>w. {..<w})"
  by (auto simp: bitswap_ids_fresh_def counter_libp2p_def lessThan_Suc)

lemma initial_queries_ok:
  "queries b = Map.empty \<Longrightarrow> beh_events b = [] \<Longrightarrow> queries_ok issued [] b"
  by (simp add: queries_ok_def)

section \<open>Properties\<close>

text \<open>
  Events leave the behaviour in the order in which the sub-behaviours produced them: in every
  interleaving of inputs and polls, what was delivered followed by what is queued is what was
  queued at the start followed by what was emitted.
\<close>

theorem behaviour_events_fifo:
  assumes "beh.run lp xs b = (emitted, delivered, b')"
  shows "beh_events b @ emitted = delivered @ beh_events b'"
  by (rule beh.run_fifo [OF assms])

theorem behaviour_events_fifo_witness:
  "\<exists>b'. beh.run counter_libp2p [Some (InDiscovery (Connected (PeerId 1))), None] idle_behaviour =
       ([PeerConnected (PeerId 1)], [PeerConnected (PeerId 1)], b') \<and>
     [PeerConnected (PeerId 1)] = [PeerConnected (PeerId 1)] @ beh_events b'"
proof -
  let ?r = "beh.run counter_libp2p [Some (InDiscovery (Connected (PeerId 1))), None] idle_behaviour"
  obtain b' where r: "?r = ([PeerConnected (PeerId 1)], [PeerConnected (PeerId 1)], b')"
    by (simp add: handler_defs beh_deliver_def beh_poll_def idle_behaviour_def)
  from r behaviour_events_fifo [OF r] show ?thesis by (auto simp: idle_behaviour_def)
qed

text \<open>
  C17. A response channel is answered at most once: in every interleaving of requests, events,
  polls and calls that starts without pending requests and in which request numbers are not
  reused while pending, each requester's channel either still waits or was answered exactly once,
  never both, and no channel is lost.
\<close>

theorem request_answered_at_most_once:
  assumes "resp.exec lp cl ops b = Some b'"
    and "pending_responses b = Map.empty" and "answered b = []"
    and "distinct (resp.registered ops)"
  shows "distinct (map fst (answered b')) \<and>
    (\<forall>ch\<in>set (resp.registered ops).
       (ch \<in> ran (pending_responses b')) \<noteq> (ch \<in> fst ` set (answered b')))"
proof -
  have waits: "resp.waits c ch \<longleftrightarrow> ch \<in> ran (pending_responses c)" for c :: "'a behaviour" and ch
    by (auto simp: resp.waits_def resp_waiting_def ran_def split: option.splits)
      (metis option.case(2) list.set_intros(1))
  have none: "\<not> resp.waits b ch" "resp.answered_chans b = []" for ch
    using assms(2,3) by (simp_all add: waits resp.answered_chans_def)
  have "resp.clean b"
    using assms(2,3) by (auto simp: resp.clean_def resp.waits_def resp.answered_chans_def resp_waiting_def
        split: option.splits)
  then have "resp.clean b'"
    using assms(4) none by (intro resp.exec_at_most_once [OF assms(1)]) auto
  moreover have "resp.waits b' ch \<or> ch \<in> set (resp.answered_chans b')" if "ch \<in> set (resp.registered ops)" for ch
    using resp.exec_accounted [OF assms(1), of ch] that by simp
  ultimately show ?thesis
    by (auto simp: resp.clean_def waits resp.answered_chans_def)
qed

theorem request_answered_at_most_once_witness:
  "\<exists>b'. resp.exec counter_libp2p unary_cid_lib
      [Inl ((PeerId 7, UrsaExchangeRequest (CarRequest ''Qm'')), 41),
       Inr (Inject (InRequestResponse (OutboundFailure (PeerId 7) 0 ''timeout'')))] idle_behaviour = Some b' \<and>
     distinct (map fst (answered b')) \<and> answered b' = [(41, Err (External ''timeout''))]"
proof -
  let ?ops = "[Inl ((PeerId 7, UrsaExchangeRequest (CarRequest ''Qm'')), 41),
       Inr (Inject (InRequestResponse (OutboundFailure (PeerId 7) 0 ''timeout'')))]"
  obtain b' where b': "resp.exec counter_libp2p unary_cid_lib ?ops idle_behaviour = Some b'"
    unfolding resp.exec.simps
    by (simp add: next_request_id_def counter_libp2p_def send_request_def idle_behaviour_def)
  then have "answered b' = [(41, Err (External ''timeout''))]"
    unfolding resp.exec.simps
    by (auto simp: next_request_id_def counter_libp2p_def send_request_def idle_behaviour_def
        handle_request_response_def resolve_response_def split: if_splits)
  with b' request_answered_at_most_once [OF b'] show ?thesis
    by (simp add: idle_behaviour_def)
qed

text \<open>
  C18. A bitswap query is reported at most once: in every run from a state without queries, no
  query number occurs twice among the events delivered to the service and those still queued,
  and a query that was reported is no longer in the table.
\<close>

theorem query_reported_at_most_once:
  assumes "bitswap_ids_fresh lp issued" and "queries b = Map.empty" and "beh_events b = []"
    and "beh_run cl lp ops b = (delivered, b')"
  shows "distinct (query_ids (delivered @ beh_events b')) \<and>
    (\<forall>q\<in>set (query_ids (delivered @ beh_events b')). queries b' q = None)"
  using beh_run_queries_ok [OF assms(1) initial_queries_ok [OF assms(2,3)] assms(4)]
  by (simp add: queries_ok_def)

theorem query_reported_at_most_once_witness:
  "\<exists>out b'. beh_run unary_cid_lib counter_libp2p
      [Inr (CallGet (Cid 4) [PeerId 7]), Inr (Inject (InBitswap (Complete 0 (Ok ())))),
       Inr (Inject (InBitswap (Complete 0 (Ok ())))), Inr PollEvent, Inr PollEvent] idle_behaviour = (out, b') \<and>
     distinct (query_ids (out @ beh_events b')) \<and> query_ids out = [0]"
proof -
  let ?ops = "[Inr (CallGet (Cid 4) [PeerId 7]), Inr (Inject (InBitswap (Complete 0 (Ok ())))),
       Inr (Inject (InBitswap (Complete 0 (Ok ())))), Inr PollEvent, Inr PollEvent]"
  obtain out b' where r: "beh_run unary_cid_lib counter_libp2p ?ops idle_behaviour = (out, b')"
    by (cases "beh_run unary_cid_lib counter_libp2p ?ops idle_behaviour")
  then have "query_ids out = [0]"
    by (auto simp: get_block_def handle_bitswap_def push_event_def beh_poll_def idle_behaviour_def
        counter_libp2p_def)
  with r query_reported_at_most_once [OF counter_ids_fresh _ _ r] show ?thesis
    by (simp add: idle_behaviour_def)
qed

text \<open>
  The life of a query started by \<open>get_block\<close>: its completion queues exactly one event, which
  carries the requested CID and whether the query succeeded; a second completion, and a completion
  after \<open>cancel\<close>, queue nothing.
\<close>

theorem query_completion_event:
  assumes "cid_lib_ok cl"
  shows "case bitswap_get lp c ps (net b) of (q, w) \<Rightarrow>
    fst (get_block cl lp c ps b) = Ok () \<and>
    (let b1 = snd (get_block cl lp c ps b); b2 = handle_bitswap (Complete q res) b1 in
       beh_events b2 = beh_events b @ [Bitswap \<lparr>info_cid = c, info_query_id = q, block_found = is_ok res\<rparr>] \<and>
       handle_bitswap (Complete q res') b2 = b2 \<and>
       handle_bitswap (Complete q res) (cancel lp q b1) = cancel lp q b1)"
  using assms
  by (cases res) (auto simp: get_block_def handle_bitswap_def push_event_def cancel_def Let_def
      split: prod.splits)

theorem query_completion_event_witness:
  "beh_events (handle_bitswap (Complete 0 (Err ''no block''))
      (snd (get_block unary_cid_lib counter_libp2p (Cid 4) [PeerId 7] idle_behaviour))) =
   [Bitswap \<lparr>info_cid = Cid 4, info_query_id = 0, block_found = False\<rparr>]"
  using query_completion_event [OF unary_cid_lib_ok, of counter_libp2p "Cid 4" "[PeerId 7]" idle_behaviour
      "Err ''no block''" "Ok ()"]
  by (simp add: counter_libp2p_def idle_behaviour_def Let_def)

text \<open>
  Constructing the behaviour succeeds, with empty queues and tables, exactly when a relay
  client is supplied or not configured; configuring one without supplying it panics.
\<close>

theorem behaviour_new_relay_client:
  assumes "gossip_lib_ok gl" and "\<forall>mh. peer_from_multihash pl mh \<noteq> None"
    and "mdns config \<longrightarrow> is_ok (mdns_start pl)"
  shows "if relay_client config \<and> \<not> given
    then behaviour_new pl gl mk peer_of kp config given = Panic (Explicit ''relay client not instantiated'')
    else \<exists>b. behaviour_new pl gl mk peer_of kp config given = Ok b \<and> beh_events b = [] \<and>
      queries b = Map.empty \<and> pending_responses b = Map.empty \<and> peers b = {} \<and>
      relay_client_enabled b = given"
proof -
  obtain g where g: "ursa_gossipsub_new gl kp config = Ok g"
    using ursa_gossipsub_new_ok [OF assms(1)] by blast
  obtain g' where g': "gossip_with_peer_score gl g = Ok g'"
    using assms(1) unfolding gossip_lib_ok_def is_ok_iff by blast
  obtain d where d: "discovery_new pl (peer_of kp) (cfg_bootstrap_nodes config) (mdns config) = Ok d"
    "disc_peers d = {}"
    using discovery_new_ok [OF assms(2,3)] by blast
  show ?thesis by (simp add: behaviour_new_def g g' d peers_def)
qed

theorem behaviour_new_relay_client_witness:
  "behaviour_new plain_peer_lib
     checking_gossip_lib (\<lambda>g. g) (\<lambda>k. PeerId 0) (Ed25519 3)
     \<lparr>mdns = False, relay_server = True, autonat = True, relay_client = True, bootstrapper = False,
      swarm_addr = [], cfg_bootstrap_nodes = [], net_database_path = [], identity = [],
      keystore_path = []\<rparr> False = Panic (Explicit ''relay client not instantiated'')"
  using behaviour_new_relay_client [OF checking_gossip_lib_ok,
      of plain_peer_lib
      "\<lparr>mdns = False, relay_server = True, autonat = True, relay_client = True, bootstrapper = False,
      swarm_addr = [], cfg_bootstrap_nodes = [], net_database_path = [], identity = [],
      keystore_path = []\<rparr>" False "\<lambda>g. g" "\<lambda>k. PeerId 0" "Ed25519 3"]
  by simp

end
