(* ===== verification/Transport.thy ===== *)
theory Transport
  imports Network_Config
begin

text \<open>
  The transport of a node, \<open>crates/ursa-network/src/transport.rs\<close>, and the settings of its swarm
  (\<open>UrsaService::new\<close> in \<open>service.rs\<close>). The layers are third-party objects; what the code decides is
  which of them are stacked, in which order and with which parameters, and that is the model: a
  description of the stack. Signing the noise key and opening the system's DNS resolver may fail,
  which panics.

  The lemmas show that every stack is authenticated with the node's key and multiplexed, that TCP is
  tried first, that a relay is used exactly when one is given, and that the settings are in range.
\<close>

section \<open>Layers\<close>

datatype base_transport = TcpWithDns | RelayTransport nat

datatype upgrade_version = V1 | V1Lazy

datatype noise_handshake = IK | IX | XX

text \<open>\<open>noise_dh_keys\<close> is the static key signed with the key pair of the node.\<close>

record noise_config =
  noise_pattern :: noise_handshake
  noise_dh_keys :: nat

datatype max_buffer_behaviour = ResetStream | Block

record mplex_config =
  mplex_buffer_behaviour :: max_buffer_behaviour
  mplex_buffer_size :: "64 word"

datatype window_update_mode = OnReceive | OnRead

record yamux_config =
  yamux_window_update_mode :: window_update_mode

datatype muxer = Yamux yamux_config | Mplex mplex_config

text \<open>The alternatives of \<open>or_transport\<close> and of \<open>SelectUpgrade\<close> are lists, the preferred one first.\<close>

record transport =
  tr_base :: "base_transport list"
  tr_version :: upgrade_version
  tr_authenticate :: noise_config
  tr_multiplex :: "muxer list"

section \<open>UrsaTransport::new\<close>

definition ursa_transport_new ::
  "peer_lib \<Rightarrow> keypair \<Rightarrow> network_config \<Rightarrow> nat option \<Rightarrow> transport result" where
  "ursa_transport_new pl keypair config relay_transport =
     obind (expect ''Signing libp2p-noise static DH keypair failed.'' (noise_into_authentic pl keypair)) (\<lambda>dh_keys.
     let noise = \<lparr>noise_pattern = XX, noise_dh_keys = dh_keys\<rparr>;
         mplex = [Yamux \<lparr>yamux_window_update_mode = OnRead\<rparr>,
                  Mplex \<lparr>mplex_buffer_behaviour = Block, mplex_buffer_size = - 1\<rparr>]
     in obind (unwrap (dns_system pl)) (\<lambda>_.
     (case relay_transport of
        Some relay \<Rightarrow>
          Ok \<lparr>tr_base = [TcpWithDns, RelayTransport relay], tr_version = V1, tr_authenticate = noise, tr_multiplex = mplex\<rparr>
      | None \<Rightarrow>
          Ok \<lparr>tr_base = [TcpWithDns], tr_version = V1, tr_authenticate = noise, tr_multiplex = mplex\<rparr>)))"

section \<open>Settings of the swarm\<close>

record swarm_config =
  max_pending_incoming :: "32 word option"
  max_pending_outgoing :: "32 word option"
  max_established_incoming :: "32 word option"
  max_established_outgoing :: "32 word option"
  max_established_per_peer :: "32 word option"
  notify_handler_buffer_size :: "64 word"
  connection_event_buffer_size :: "64 word"
  dial_concurrency_factor :: "8 word"

text \<open>\<open>NonZeroU8::new\<close> and \<open>NonZeroUsize::new\<close>.\<close>

definition non_zero :: "'a::len word \<Rightarrow> 'a word option" where
  "non_zero w = (if w = 0 then None else Some w)"

definition swarm_config_new :: "swarm_config result" where
  "swarm_config_new =
     obind (unwrap_opt (non_zero (push_bit 7 2))) (\<lambda>buffer.
     obind (unwrap_opt (non_zero 8)) (\<lambda>factor.
     Ok \<lparr>max_pending_incoming = Some (push_bit 9 2), max_pending_outgoing = Some (push_bit 9 2),
         max_established_incoming = Some (push_bit 9 2), max_established_outgoing = Some (push_bit 9 2),
         max_established_per_peer = Some 8, notify_handler_buffer_size = buffer,
         connection_event_buffer_size = push_bit 7 2, dial_concurrency_factor = factor\<rparr>))"

section \<open>Lemmas\<close>

text \<open>A stack every connection of which is encrypted under \<open>keys\<close> and multiplexed.\<close>

definition secured :: "nat \<Rightarrow> transport \<Rightarrow> bool" where
  "secured keys t \<longleftrightarrow> tr_authenticate t = \<lparr>noise_pattern = XX, noise_dh_keys = keys\<rparr> \<and> tr_multiplex t \<noteq> [] \<and>
     tr_base t \<noteq> [] \<and> hd (tr_base t) = TcpWithDns"

lemma ursa_transport_new_Ok:
  assumes "ursa_transport_new pl kp config relay = Ok t"
  shows "\<exists>keys. noise_into_authentic pl kp = Ok keys \<and> secured keys t"
    and "RelayTransport r \<in> set (tr_base t) \<longleftrightarrow> relay = Some r"
proof -
  let ?mux = "[Yamux \<lparr>yamux_window_update_mode = OnRead\<rparr>,
    Mplex \<lparr>mplex_buffer_behaviour = Block, mplex_buffer_size = - 1\<rparr>]"
  from assms obtain keys where k: "noise_into_authentic pl kp = Ok keys"
    by (auto simp: ursa_transport_new_def obind_eq_Ok expect_eq_Ok)
  from assms obtain u where d: "dns_system pl = Ok u"
    by (auto simp: ursa_transport_new_def Let_def obind_eq_Ok unwrap_eq_Ok)
  have t: "t = \<lparr>tr_base = TcpWithDns # (case relay of None \<Rightarrow> [] | Some n \<Rightarrow> [RelayTransport n]), tr_version = V1,
      tr_authenticate = \<lparr>noise_pattern = XX, noise_dh_keys = keys\<rparr>, tr_multiplex = ?mux\<rparr>"
    using assms by (cases relay) (simp_all add: ursa_transport_new_def Let_def k d)
  show "\<exists>keys. noise_into_authentic pl kp = Ok keys \<and> secured keys t"
    using k by (simp add: t secured_def)
  show "RelayTransport r \<in> set (tr_base t) \<longleftrightarrow> relay = Some r"
    by (cases relay) (auto simp: t)
qed

lemma ursa_transport_new_total:
  assumes "noise_into_authentic pl kp = Ok keys" and "dns_system pl = Ok ()"
  shows "\<exists>t. ursa_transport_new pl kp config relay = Ok t"
  using assms by (cases relay) (simp_all add: ursa_transport_new_def Let_def)

lemma swarm_config_new_Ok:
  "swarm_config_new =
     Ok \<lparr>max_pending_incoming = Some 1024, max_pending_outgoing = Some 1024,
         max_established_incoming = Some 1024, max_established_outgoing = Some 1024,
         max_established_per_peer = Some 8, notify_handler_buffer_size = 256,
         connection_event_buffer_size = 256, dial_concurrency_factor = 8\<rparr>"
  by (simp add: swarm_config_new_def non_zero_def push_bit_eq_mult)

end
