(* ===== verification/Service.thy ===== *)
theory Service
  imports Store Behaviour Index_Provider Metrics Transport
begin

text \<open>
  The network service, \<open>crates/ursa-network/src/service.rs\<close>: the loop that dispatches the events of
  the swarm and the commands of the RPC server, the table of channels that wait for a block, and
  the publication of advertisements. Each arm of the two \<open>match\<close> statements is one definition; it
  takes the service state and returns the outcome with the new state, \<open>Err\<close> being a \<open>?\<close> that ends
  the loop. What is sent on channels is recorded in the state in the order of the \<open>send\<close> calls.

  The store is written by other tasks while a handler runs: a handler that reads it several times
  takes the sequence \<open>st\<close> of the states it finds. \<open>None\<close> is a handler that does not return.
\<close>

section \<open>State, commands and events\<close>

definition URSA_GLOBAL :: string where
  "URSA_GLOBAL = ''/ursa/global''"

datatype bitswap_type = Get | Sync

datatype ursa_command =
    GetBitswap cid bitswap_type chan
  | Put cid chan
  | GetPeers chan
  | Index "cid list" chan
  | SendRequest peer_id ursa_exchange_request chan
  | SendResponse request_id ursa_exchange_response chan
  | GossipsubMessage string gossip_message

datatype ursa_event =
    UrsaPeerConnected peer_id
  | UrsaPeerDisconnected peer_id
  | UrsaBitswapEvent bitswap_event
  | UrsaGossipsubMessage gossip_message
  | UrsaRequestMessage ursa_exchange_request response_channel

record ('w, 'p) service =
  swarm :: "'w behaviour"
  svc_transport :: transport
  svc_swarm_config :: swarm_config
  response_channels :: "cid \<Rightarrow> chan list option"
  index_provider :: "'p provider"
  svc_peer_id :: peer_id
  event_sender :: "ursa_event list"
  block_replies :: "(chan \<times> unit result) list"
  peer_replies :: "(chan \<times> peer_id set) list"
  index_replies :: "(chan \<times> cid list result) list"
  metric_log :: "metric_op list"
  http_log :: "(string \<times> bytes) list"

text \<open>
  The third-party parameters, one record: \<open>peers_iter\<close> is the iteration order of a hash set,
  \<open>cid_hash\<close> the multihash bytes of a CID, \<open>ipld_to_vec\<close> the encoder of \<open>forest_encoding\<close>, and
  the \<open>fmt\<close> fields are the formatting of label values.
\<close>

record ('w, 's, 'p) libs =
  l_cid :: cid_lib
  l_net :: "'w libp2p"
  l_peer :: peer_lib
  l_kv :: "'s kvdb"
  l_blk :: block_lib
  l_pick :: "nat \<Rightarrow> cid set \<Rightarrow> cid"
  l_ad :: ad_lib
  l_obj :: "'p obj_store"
  l_ann :: announce_lib
  peers_iter :: "peer_id set \<Rightarrow> peer_id list"
  cid_hash :: "cid \<Rightarrow> multihash"
  ipld_to_vec :: "ipld list \<Rightarrow> bytes result"
  fmt_query :: "query_id \<Rightarrow> string"
  fmt_message :: "gossip_message \<Rightarrow> string"
  fmt_request :: "ursa_exchange_request \<Rightarrow> string"
  fmt_channel :: "response_channel \<Rightarrow> string"

fun fmt_bool :: "bool \<Rightarrow> string" where
  "fmt_bool True = ''true''"
| "fmt_bool False = ''false''"

definition track_svc ::
  "metric_event \<Rightarrow> label list option \<Rightarrow> ('w, 'p) service \<Rightarrow> ('w, 'p) service" where
  "track_svc e labels s = s\<lparr>metric_log := metric_log s @ track e labels None\<rparr>"

definition send_event :: "ursa_event \<Rightarrow> ('w, 'p) service \<Rightarrow> ('w, 'p) service" where
  "send_event e s = s\<lparr>event_sender := event_sender s @ [e]\<rparr>"

section \<open>Construction\<close>

fun dial_all :: "'w libp2p \<Rightarrow> multiaddr list \<Rightarrow> 'w \<Rightarrow> 'w result" where
  "dial_all lp [] w = Ok w"
| "dial_all lp (to_dial # rest) w =
     (case swarm_dial lp to_dial w of
        (r, w') \<Rightarrow> obind (unwrap r) (\<lambda>_. dial_all lp rest w'))"

text \<open>
  A relay client is built when configured, with its transport. Listening and dialling must succeed;
  a failing subscription or bootstrap is only logged.
\<close>

definition service_new ::
  "peer_lib \<Rightarrow> 'g gossip_lib \<Rightarrow> ('g \<Rightarrow> 'w) \<Rightarrow> 'w libp2p \<Rightarrow> (keypair \<Rightarrow> peer_id) \<Rightarrow> keypair \<Rightarrow>
   network_config \<Rightarrow> 'p provider \<Rightarrow> ('w, 'p) service result" where
  "service_new pl gl mk lp peer_of kp config provider =
     (let relay_transport = (if relay_client config then Some 0 else None) in
      obind (ursa_transport_new pl kp config relay_transport) (\<lambda>tr.
      obind (behaviour_new pl gl mk peer_of kp config (relay_client config)) (\<lambda>b.
      obind swarm_config_new (\<lambda>limits.
      (case swarm_listen_on lp (swarm_addr config) (net b) of
        (r, w) \<Rightarrow>
          obind (unwrap r) (\<lambda>_.
          obind (dial_all lp (cfg_bootstrap_nodes config) w) (\<lambda>w'.
            let b1 = snd (subscribe lp URSA_GLOBAL (b\<lparr>net := w'\<rparr>));
                b2 = snd (beh_bootstrap lp b1)
            in Ok \<lparr>swarm = b2, svc_transport = tr, svc_swarm_config = limits,
                   response_channels = Map.empty, index_provider = provider,
                   svc_peer_id = peer_of kp, event_sender = [], block_replies = [],
                   peer_replies = [], index_replies = [], metric_log = [], http_log = []\<rparr>)))))))"

section \<open>A finished bitswap query\<close>

text \<open>The busy wait for the block, and the answers to the waiting channels.\<close>

partial_function (option) wait_block ::
  "cid_lib \<Rightarrow> 's kvdb \<Rightarrow> (nat \<Rightarrow> 's) \<Rightarrow> cid \<Rightarrow> nat \<Rightarrow> nat result option" where
  "wait_block cl kv st c n =
     (case unwrap (contains cl kv (st n) c) of
        Ok found \<Rightarrow> if found then Some (Ok (Suc n)) else wait_block cl kv st c (Suc n)
      | Err e \<Rightarrow> Some (Err e)
      | Panic x \<Rightarrow> Some (Panic x))"

fun answer_channels ::
  "cid_lib \<Rightarrow> 's kvdb \<Rightarrow> (nat \<Rightarrow> 's) \<Rightarrow> cid \<Rightarrow> cid \<Rightarrow> nat \<Rightarrow> chan list \<Rightarrow> ('w, 'p) service \<Rightarrow>
   unit result \<times> ('w, 'p) service" where
  "answer_channels cl kv st bitswap_cid cid n [] s = (Ok (), s)"
| "answer_channels cl kv st bitswap_cid cid n (chan # chans) s =
     (case unwrap (contains cl kv (st n) bitswap_cid) of
        Ok found \<Rightarrow>
          answer_channels cl kv st bitswap_cid cid (Suc n) chans
            (s\<lparr>block_replies := block_replies s @
                 [(chan, if found then Ok () else Err (BlockNotFoundWithPeers cid))]\<rparr>)
      | Err e \<Rightarrow> (Err e, s)
      | Panic x \<Rightarrow> (Panic x, s))"

definition on_bitswap ::
  "('w, 's, 'p) libs \<Rightarrow> (nat \<Rightarrow> 's) \<Rightarrow> bitswap_info \<Rightarrow> ('w, 'p) service \<Rightarrow>
   (unit result \<times> ('w, 'p) service) option" where
  "on_bitswap L st info s =
     (let cid = info_cid info;
          labels = [(''cid'', cid_to_string (l_cid L) cid), (''query_id'', fmt_query L (info_query_id info)),
                    (''block_found'', fmt_bool (block_found info))];
          s1 = track_svc EvBitswap (Some labels)
                 (s\<lparr>swarm := cancel (l_net L) (info_query_id info) (swarm s)\<rparr>)
      in case response_channels s1 cid of
           None \<Rightarrow> Some (Ok (), s1)
         | Some chans \<Rightarrow>
             (let s2 = s1\<lparr>response_channels := (response_channels s1)(cid := None)\<rparr> in
              case convert_cid (cid_try_from (l_cid L)) (cid_to_bytes (l_cid L) cid) of
                Ok bitswap_cid \<Rightarrow>
                  (case (if block_found info then wait_block (l_cid L) (l_kv L) st bitswap_cid 0
                         else Some (Ok 0)) of
                     None \<Rightarrow> None
                   | Some (Ok n) \<Rightarrow>
                       Some (answer_channels (l_cid L) (l_kv L) st bitswap_cid cid n chans s2)
                   | Some (Err e) \<Rightarrow> Some (Err e, s2)
                   | Some (Panic x) \<Rightarrow> Some (Panic x, s2))
              | Err e \<Rightarrow> Some (Err e, s2)
              | Panic x \<Rightarrow> Some (Panic x, s2)))"

section \<open>The other swarm events\<close>

definition on_gossip_message ::
  "('w, 's, 'p) libs \<Rightarrow> peer_id \<Rightarrow> string \<Rightarrow> gossip_message \<Rightarrow> ('w, 'p) service \<Rightarrow> ('w, 'p) service" where
  "on_gossip_message L peer topic message s =
     (let labels = [(''peer'', peer_to_string (l_ann L) peer), (''topic'', topic),
                    (''message'', fmt_message L message)];
          s1 = track_svc EvGossipMessage (Some labels) s
      in if swarm_is_connected (l_net L) peer (net (swarm s1))
         then send_event (UrsaGossipsubMessage message) s1 else s1)"

definition on_request_message ::
  "('w, 's, 'p) libs \<Rightarrow> peer_id \<Rightarrow> ursa_exchange_request \<Rightarrow> response_channel \<Rightarrow> ('w, 'p) service \<Rightarrow>
   ('w, 'p) service" where
  "on_request_message L peer request channel s =
     (let labels = [(''peer'', peer_to_string (l_ann L) peer), (''request'', fmt_request L request),
                    (''channel'', fmt_channel L channel)]
      in send_event (UrsaRequestMessage request channel) (track_svc EvRequestMessage (Some labels) s))"

definition on_peer_connected :: "peer_id \<Rightarrow> ('w, 'p) service \<Rightarrow> ('w, 'p) service" where
  "on_peer_connected peer s = send_event (UrsaPeerConnected peer) (track_svc EvPeerConnected None s)"

definition on_peer_disconnected :: "peer_id \<Rightarrow> ('w, 'p) service \<Rightarrow> ('w, 'p) service" where
  "on_peer_disconnected peer s =
     send_event (UrsaPeerDisconnected peer) (track_svc EvPeerDisconnected None s)"

text \<open>\<open>choose\<close> of the \<open>rand\<close> crate: nothing of an empty slice, otherwise the element drawn.\<close>

definition slice_choose :: "nat \<Rightarrow> 'a list \<Rightarrow> 'a option" where
  "slice_choose rng xs = (if xs = [] then None else Some (xs ! (rng mod length xs)))"

definition on_nat_status_changed ::
  "('w, 's, 'p) libs \<Rightarrow> nat \<Rightarrow> nat_status \<Rightarrow> nat_status \<Rightarrow> ('w, 'p) service \<Rightarrow>
   unit result \<times> ('w, 'p) service" where
  "on_nat_status_changed L rng old new s =
     (case (old, new) of
        (NatUnknown, NatPrivate) \<Rightarrow>
          if is_relay_client_enabled (swarm s) then
            (case slice_choose rng (bootstrap_addrs (beh_discovery (swarm s))) of
               Some (relay_peer, relay_addr) \<Rightarrow>
                 (let addr = relay_addr @ [P2p (peer_to_multihash (l_peer L) relay_peer)] @ [P2pCircuit] in
                  case swarm_listen_on (l_net L) addr (net (swarm s)) of
                    (r, w) \<Rightarrow> (obind (expect ''failed to listen on relay'' r) (\<lambda>_. Ok ()),
                               s\<lparr>swarm := (swarm s)\<lparr>net := w\<rparr>\<rparr>))
             | None \<Rightarrow> (Ok (), s))
          else (Ok (), s)
      | (_, NatPublic addr) \<Rightarrow> (Ok (), s\<lparr>swarm := snd (publish_ad addr (swarm s))\<rparr>)
      | (_, _) \<Rightarrow> (Ok (), s))"

section \<open>Publishing advertisements\<close>

text \<open>The address of the advertisement: only the IP and TCP components of the public address.\<close>

fun publish_address :: "multiaddr \<Rightarrow> multiaddr" where
  "publish_address [] = []"
| "publish_address (Ip6 ip # ps) = Ip6 ip # publish_address ps"
| "publish_address (Ip4 ip # ps) = Ip4 ip # publish_address ps"
| "publish_address (Tcp p # ps) = Tcp p # publish_address ps"
| "publish_address (_ # ps) = publish_address ps"

text \<open>\<open>slice::chunks\<close>, for a chunk size that is not zero.\<close>

function chunks :: "nat \<Rightarrow> 'a list \<Rightarrow> 'a list list" where
  "chunks n xs = (if n = 0 \<or> xs = [] then [] else take n xs # chunks n (drop n xs))"
  by pat_completeness auto
termination by (relation "measure (\<lambda>(n, xs). length xs)") auto

declare chunks.simps [simp del]

fun add_entry_chunks ::
  "('w, 's, 'p) libs \<Rightarrow> usize \<Rightarrow> ipld list list \<Rightarrow> 'p provider \<Rightarrow> unit result \<times> 'p provider" where
  "add_entry_chunks L aid [] p = (Ok (), p)"
| "add_entry_chunks L aid (chunk # rest) p =
     (case ipld_to_vec L chunk of
        Ok entries_bytes \<Rightarrow>
          (case add_chunk (l_cid L) (l_obj L) (l_ann L) entries_bytes aid p of
             (r, p') \<Rightarrow>
               (case expect '' adding chunk to ad should not fail'' r of
                  Ok u \<Rightarrow> add_entry_chunks L aid rest p'
                | Err e \<Rightarrow> (Err e, p')
                | Panic x \<Rightarrow> (Panic x, p')))
      | Err e \<Rightarrow> (Err e, p)
      | Panic x \<Rightarrow> (Panic x, p))"

text \<open>The announcement: by gossip, by HTTP when gossiping fails.\<close>

definition announce ::
  "('w, 's, 'p) libs \<Rightarrow> ('w, 'p) service \<Rightarrow> unit result \<times> ('w, 'p) service" where
  "announce L s =
     (case create_announce_msg (l_ann L) (svc_peer_id s) (index_provider s) of
        Ok announce_msg \<Rightarrow>
          (let topic = ''indexer/ingest/mainnet'';
               g_msg = \<lparr>msg_source = None, msg_data = announce_msg, msg_sequence_number = None,
                        msg_topic = topic\<rparr>
           in case beh_publish (l_net L) topic g_msg (swarm s) of
                (Ok res, b) \<Rightarrow> (Ok (), s\<lparr>swarm := b\<rparr>)
              | (Err e, b) \<Rightarrow>
                  (Ok (), s\<lparr>swarm := b, http_log := http_log s @
                             [announce_http_message (index_provider s) announce_msg]\<rparr>)
              | (Panic x, b) \<Rightarrow> (Panic x, s\<lparr>swarm := b\<rparr>))
      | Err e \<Rightarrow> (Ok (), s)
      | Panic x \<Rightarrow> (Panic x, s))"

text \<open>
  One iteration of the loop: \<open>store\<close> is the state of the block store, \<open>aid\<close> the random number.
  \<open>create\<close> always returns \<open>Ok\<close> of that number, which the code unwraps.
\<close>

definition publish_root_cid ::
  "('w, 's, 'p) libs \<Rightarrow> 's \<Rightarrow> usize \<Rightarrow> multiaddr \<Rightarrow> cid \<Rightarrow> ('w, 'p) service \<Rightarrow>
   (unit result \<times> ('w, 'p) service) option" where
  "publish_root_cid L store aid address root_cid s =
     (let context_id = cid_to_bytes (l_cid L) root_cid;
          addresses = [multiaddr_to_string (l_ann L) address]
      in case advertisement_new (l_ad L) context_id (svc_peer_id s) addresses False of
           Err e \<Rightarrow> Some (Err e, s)
         | Panic x \<Rightarrow> Some (Panic x, s)
         | Ok ad \<Rightarrow>
             (let p1 = snd (create aid ad (index_provider s)); s1 = s\<lparr>index_provider := p1\<rparr> in
              case convert_cid (cid_try_from (l_cid L)) (cid_to_bytes (l_cid L) root_cid) of
                Err e \<Rightarrow> Some (Err e, s1)
              | Panic x \<Rightarrow> Some (Panic x, s1)
              | Ok root \<Rightarrow>
                  (case dag_traversal (l_pick L) (l_cid L) (l_kv L) (l_blk L) store root of
                     None \<Rightarrow> None
                   | Some (Err e) \<Rightarrow> Some (Err e, s1)
                   | Some (Panic x) \<Rightarrow> Some (Panic x, s1)
                   | Some (Ok dag) \<Rightarrow>
                       (let entries = map (\<lambda>d. IpldBytes (cid_hash L (fst d))) dag in
                        case add_entry_chunks L aid (chunks MAX_ENTRIES entries) p1 of
                          (Err e, p2) \<Rightarrow> Some (Err e, s1\<lparr>index_provider := p2\<rparr>)
                        | (Panic x, p2) \<Rightarrow> Some (Panic x, s1\<lparr>index_provider := p2\<rparr>)
                        | (Ok u, p2) \<Rightarrow>
                            (case publish (l_cid L) (l_ad L) (l_obj L) aid p2 of
                               (r, p3) \<Rightarrow>
                                 (case expect ''publishing the ad should not fail'' r of
                                    Ok u \<Rightarrow> Some (announce L (s1\<lparr>index_provider := p3\<rparr>))
                                  | Err e \<Rightarrow> Some (Err e, s1\<lparr>index_provider := p3\<rparr>)
                                  | Panic x \<Rightarrow> Some (Panic x, s1\<lparr>index_provider := p3\<rparr>)))))))"

text \<open>
  \<open>while !cid_queue.is_empty()\<close>: the \<open>n\<close>-th root is popped and published. The write lock on the
  queue is held during the loop, so no root is added meanwhile.
\<close>

definition set_roots :: "cid list \<Rightarrow> ('w, 'p) service \<Rightarrow> ('w, 'p) service" where
  "set_roots q s = s\<lparr>index_provider := (index_provider s)\<lparr>root_cids := q\<rparr>\<rparr>"

partial_function (option) publish_loop ::
  "('w, 's, 'p) libs \<Rightarrow> (nat \<Rightarrow> 's) \<Rightarrow> (nat \<Rightarrow> usize) \<Rightarrow> multiaddr \<Rightarrow> nat \<Rightarrow> ('w, 'p) service \<Rightarrow>
   (unit result \<times> ('w, 'p) service) option" where
  "publish_loop L st aid address n s =
     (case root_cids (index_provider s) of
        [] \<Rightarrow> Some (Ok (), s)
      | root_cid # rest \<Rightarrow>
          (case publish_root_cid L (st n) (aid n) address root_cid (set_roots rest s) of
             None \<Rightarrow> None
           | Some (r, s') \<Rightarrow>
               (case r of
                  Ok u \<Rightarrow> publish_loop L st aid address (Suc n) s'
                | Err e \<Rightarrow> Some (Err e, s')
                | Panic x \<Rightarrow> Some (Panic x, s'))))"

definition on_start_publish ::
  "('w, 's, 'p) libs \<Rightarrow> (nat \<Rightarrow> 's) \<Rightarrow> (nat \<Rightarrow> usize) \<Rightarrow> multiaddr \<Rightarrow> ('w, 'p) service \<Rightarrow>
   (unit result \<times> ('w, 'p) service) option" where
  "on_start_publish L st aid address s = publish_loop L st aid (publish_address address) 0 s"

section \<open>Dispatch\<close>

definition handle_event ::
  "('w, 's, 'p) libs \<Rightarrow> (nat \<Rightarrow> 's) \<Rightarrow> (nat \<Rightarrow> usize) \<Rightarrow> nat \<Rightarrow> behaviour_event \<Rightarrow> ('w, 'p) service \<Rightarrow>
   (unit result \<times> ('w, 'p) service) option" where
  "handle_event L st aid rng event s =
     (case event of
        Bitswap info \<Rightarrow> on_bitswap L st info s
      | GossipMessage peer topic message \<Rightarrow> Some (Ok (), on_gossip_message L peer topic message s)
      | RequestMessage peer request channel \<Rightarrow> Some (Ok (), on_request_message L peer request channel s)
      | PeerConnected peer \<Rightarrow> Some (Ok (), on_peer_connected peer s)
      | PeerDisconnected peer \<Rightarrow> Some (Ok (), on_peer_disconnected peer s)
      | NatStatusChanged old new \<Rightarrow> Some (on_nat_status_changed L rng old new s)
      | RelayReservationOpened p \<Rightarrow> Some (Ok (), track_svc EvRelayReservationOpened None s)
      | RelayReservationClosed p \<Rightarrow> Some (Ok (), track_svc EvRelayReservationClosed None s)
      | RelayCircuitOpened \<Rightarrow> Some (Ok (), track_svc EvRelayCircuitOpened None s)
      | RelayCircuitClosed \<Rightarrow> Some (Ok (), track_svc EvRelayCircuitClosed None s)
      | StartPublish address \<Rightarrow> on_start_publish L st aid address s)"

section \<open>Commands\<close>

definition on_get_bitswap ::
  "('w, 's, 'p) libs \<Rightarrow> cid \<Rightarrow> bitswap_type \<Rightarrow> chan \<Rightarrow> ('w, 'p) service \<Rightarrow> unit result \<times> ('w, 'p) service" where
  "on_get_bitswap L cid query sender s =
     (let ps = peers (swarm s) in
      if ps = {} then (Ok (), s\<lparr>block_replies := block_replies s @ [(sender, Err NoPeersProvided)]\<rparr>)
      else
        (let s1 = (case response_channels s cid of
                     Some chans \<Rightarrow> s\<lparr>response_channels := (response_channels s)(cid \<mapsto> chans @ [sender])\<rparr>
                   | None \<Rightarrow> s\<lparr>response_channels := (response_channels s)(cid \<mapsto> [sender])\<rparr>)
         in case (case query of
                    Get \<Rightarrow> get_block (l_cid L) (l_net L) cid (peers_iter L ps) (swarm s1)
                  | Sync \<Rightarrow> sync_block (l_cid L) (l_net L) cid (peers_iter L ps) (swarm s1)) of
              (r, b) \<Rightarrow> (r, s1\<lparr>swarm := b\<rparr>)))"

definition on_get_peers :: "chan \<Rightarrow> ('w, 'p) service \<Rightarrow> ('w, 'p) service" where
  "on_get_peers sender s = s\<lparr>peer_replies := peer_replies s @ [(sender, peers (swarm s))]\<rparr>"

definition on_index ::
  "('w, 's, 'p) libs \<Rightarrow> cid list \<Rightarrow> chan \<Rightarrow> ('w, 'p) service \<Rightarrow> unit result \<times> ('w, 'p) service" where
  "on_index L cids sender s =
     (case cids of
        [] \<Rightarrow> (Panic IndexOutOfBounds, s)
      | root_cid # _ \<Rightarrow>
          (let s1 = set_roots (root_cids (index_provider s) @ [root_cid]) s;
               s2 = (case public_address (l_net L) (swarm s1) of
                       Some address \<Rightarrow> s1\<lparr>swarm := snd (publish_ad address (swarm s1))\<rparr>
                     | None \<Rightarrow> s1)
           in (Ok (), s2\<lparr>index_replies := index_replies s2 @ [(sender, Ok cids)]\<rparr>)))"

definition handle_command ::
  "('w, 's, 'p) libs \<Rightarrow> ursa_command \<Rightarrow> ('w, 'p) service \<Rightarrow> unit result \<times> ('w, 'p) service" where
  "handle_command L command s =
     (case command of
        GetBitswap cid query sender \<Rightarrow> on_get_bitswap L cid query sender s
      | Put cid sender \<Rightarrow> (Ok (), s)
      | GetPeers sender \<Rightarrow> (Ok (), on_get_peers sender s)
      | Index cids sender \<Rightarrow> on_index L cids sender s
      | SendRequest p request channel \<Rightarrow>
          (Ok (), s\<lparr>swarm := snd (send_request (l_net L) p request channel (swarm s))\<rparr>)
      | SendResponse rid response channel \<Rightarrow> (Panic Todo, s)
      | GossipsubMessage topic message \<Rightarrow>
          (case beh_publish (l_net L) topic message (swarm s) of
             (Ok i, b) \<Rightarrow> (Ok (), s\<lparr>swarm := b\<rparr>)
           | (Err e, b) \<Rightarrow> (Ok (), s\<lparr>swarm := b\<rparr>)
           | (Panic x, b) \<Rightarrow> (Panic x, s\<lparr>swarm := b\<rparr>)))"

section \<open>The loop\<close>

text \<open>
  What \<open>select!\<close> yields in a round: an event of the behaviour, another event of the swarm (dialling,
  listeners, connections), the end of a stream, or a command. \<open>work n\<close> is what the swarm does to its
  behaviour while \<open>start\<close> waits in round \<open>n\<close>. \<open>None\<close> is a service that never returns.
\<close>

datatype 's select_item =
    SwarmBehaviour "nat \<Rightarrow> 's" "nat \<Rightarrow> usize" nat behaviour_event
  | SwarmOther
  | SwarmNone
  | CommandItem ursa_command
  | CommandNone

definition select_step ::
  "('w, 's, 'p) libs \<Rightarrow> 's select_item \<Rightarrow> ('w, 'p) service \<Rightarrow> (unit result \<times> ('w, 'p) service) option" where
  "select_step L item s =
     (case item of
        SwarmBehaviour st aid rng event \<Rightarrow> handle_event L st aid rng event s
      | SwarmOther \<Rightarrow> Some (Ok (), s)
      | SwarmNone \<Rightarrow> Some (Ok (), s)
      | CommandItem command \<Rightarrow> Some (handle_command L command s)
      | CommandNone \<Rightarrow> Some (Ok (), s))"

partial_function (option) service_start ::
  "('w, 's, 'p) libs \<Rightarrow> (nat \<Rightarrow> 'w behaviour \<Rightarrow> 'w behaviour) \<Rightarrow> (nat \<Rightarrow> 's select_item) \<Rightarrow> nat \<Rightarrow> ('w, 'p) service \<Rightarrow>
   (unit result \<times> ('w, 'p) service) option" where
  "service_start L work items n s =
     (case select_step L (items n) (s\<lparr>swarm := work n (swarm s)\<rparr>) of
        None \<Rightarrow> None
      | Some (r, s') \<Rightarrow>
          (case r of
             Ok u \<Rightarrow> service_start L work items (Suc n) s'
           | Err e \<Rightarrow> Some (Err e, s')
           | Panic x \<Rightarrow> Some (Panic x, s')))"

section \<open>A concrete service\<close>

text \<open>
  For closed instances: an in-memory store, a multihash of one byte per CID, and a service with one
  connected peer.
\<close>

fun first_byte :: "ipld \<Rightarrow> byte" where
  "first_byte (IpldBytes (w # ws)) = w"
| "first_byte _ = 0"

definition demo_libs :: "(nat, bytes \<Rightarrow> bytes option, obj list) libs" where
  "demo_libs =
     \<lparr>l_cid = unary_cid_lib, l_net = counter_libp2p,
      l_peer = plain_peer_lib,
      l_kv = mem_kvdb unary_cid_lib, l_blk = link_blocks, l_pick = (\<lambda>_ S. Min S),
      l_ad = plain_ad_lib, l_obj = list_obj_store, l_ann = plain_announce_lib,
      peers_iter = (\<lambda>S. []), cid_hash = case_cid (\<lambda>n. [word_of_nat n]),
      ipld_to_vec = (\<lambda>es. Ok (map first_byte es)), fmt_query = (\<lambda>q. ''q''),
      fmt_message = (\<lambda>m. ''m''), fmt_request = (\<lambda>r. ''r''), fmt_channel = (\<lambda>c. ''c'')\<rparr>"

definition demo_service :: "(nat, obj list) service" where
  "demo_service =
     \<lparr>swarm = idle_behaviour,
      svc_transport = \<lparr>tr_base = [TcpWithDns], tr_version = V1,
        tr_authenticate = \<lparr>noise_pattern = XX, noise_dh_keys = 5\<rparr>,
        tr_multiplex = [Yamux \<lparr>yamux_window_update_mode = OnRead\<rparr>]\<rparr>,
      svc_swarm_config = \<lparr>max_pending_incoming = None, max_pending_outgoing = None,
        max_established_incoming = None, max_established_outgoing = None, max_established_per_peer = None,
        notify_handler_buffer_size = 1, connection_event_buffer_size = 1, dial_concurrency_factor = 1\<rparr>,
      response_channels = Map.empty, index_provider = fresh_provider,
      svc_peer_id = PeerId 0, event_sender = [], block_replies = [], peer_replies = [],
      index_replies = [], metric_log = [], http_log = []\<rparr>"

lemma demo_libs_simps [simp]:
  "l_cid demo_libs = unary_cid_lib" "l_net demo_libs = counter_libp2p"
  "l_kv demo_libs = mem_kvdb unary_cid_lib" "l_blk demo_libs = link_blocks"
  "l_pick demo_libs = (\<lambda>_ S. Min S)" "l_ad demo_libs = plain_ad_lib" "l_obj demo_libs = list_obj_store"
  "l_ann demo_libs = plain_announce_lib" "cid_hash demo_libs = case_cid (\<lambda>n. [word_of_nat n])"
  "ipld_to_vec demo_libs = (\<lambda>es. Ok (map first_byte es))"
  by (simp_all add: demo_libs_def)

lemma demo_service_simps [simp]:
  "swarm demo_service = idle_behaviour" "response_channels demo_service = Map.empty"
  "index_provider demo_service = fresh_provider" "block_replies demo_service = []"
  by (simp_all add: demo_service_def)

lemma idle_behaviour_simps [simp]:
  "queries idle_behaviour = Map.empty" "beh_events idle_behaviour = []" "net idle_behaviour = 0"
  "peers idle_behaviour = {PeerId 7}"
  by (simp_all add: idle_behaviour_def peers_def idle_discovery_def)

end
