(* ===== verification/Service_Waiters.thy ===== *)
theory Service_Waiters
  imports Service
begin

text \<open>
  The channels that wait for a block in the network service (\<open>crates/ursa-network/src/service.rs\<close>).
  The table \<open>response_channels\<close> is an instance of the interface \<open>waiter_table\<close> for every interleaving
  of commands, swarm events and connection changes, so a requester is answered at most once. An
  invariant over all reachable states shows that a waiting channel always has a running query or
  a queued completion event that will answer it. The last lemmas say what the answer is, that
  the handler returns when the block arrives, and that it never does when the block does not.
\<close>

section \<open>Operations of the service\<close>

datatype ('w, 's) svc_op =
    OpEvent "nat \<Rightarrow> 's" "nat \<Rightarrow> usize" nat behaviour_event
  | OpCommand ursa_command
  | OpSub beh_input
  | OpDisc disc_input

text \<open>
  One step: the swarm hands out the event at the front of its queue, a command arrives, a
  sub-behaviour reports something, or a connection changes.
\<close>

fun svc_do ::
  "('w, 's, 'p) libs \<Rightarrow> ('w, 's) svc_op \<Rightarrow> ('w, 'p) service \<Rightarrow> (unit result \<times> ('w, 'p) service) option" where
  "svc_do L (OpEvent st aid rng e) s =
     (case beh_deliver (swarm s) of
        None \<Rightarrow> None
      | Some (e', b) \<Rightarrow> if e' = e then handle_event L st aid rng e (s\<lparr>swarm := b\<rparr>) else None)"
| "svc_do L (OpCommand c) s = Some (handle_command L c s)"
| "svc_do L (OpSub i) s = Some (Ok (), s\<lparr>swarm := beh_inject_event (l_net L) i (swarm s)\<rparr>)"
| "svc_do L (OpDisc di) s =
     (case disc_step (l_net L) di (beh_discovery (swarm s), net (swarm s)) of
        (d, w) \<Rightarrow> Some (Ok (), s\<lparr>swarm := (swarm s)\<lparr>beh_discovery := d, net := w\<rparr>\<rparr>))"

inductive svc_reach :: "('w, 's, 'p) libs \<Rightarrow> ('w, 'p) service \<Rightarrow> ('w, 'p) service \<Rightarrow> bool"
  for L s0 where
  reach_init: "svc_reach L s0 s0"
| reach_op: "svc_reach L s0 s \<Longrightarrow> svc_do L op s = Some (Ok (), s') \<Longrightarrow> svc_reach L s0 s'"

section \<open>What the handlers change\<close>

definition svc_waiting :: "('w, 'p) service \<Rightarrow> cid \<Rightarrow> chan list" where
  "svc_waiting s c = (case response_channels s c of None \<Rightarrow> [] | Some chans \<Rightarrow> chans)"

lemma answer_channels_Ok:
  "answer_channels cl kv st bc c n chans s = (Ok (), s') \<Longrightarrow>
   \<exists>vs. length vs = length chans \<and> s' = s\<lparr>block_replies := block_replies s @ zip chans vs\<rparr>"
proof (induction chans arbitrary: n s)
  case (Cons ch chans)
  then obtain found where
    "answer_channels cl kv st bc c (Suc n) chans
       (s\<lparr>block_replies := block_replies s @
            [(ch, if found then Ok () else Err (BlockNotFoundWithPeers c))]\<rparr>) = (Ok (), s')"
    by (auto split: outcome.splits)
  from Cons.IH [OF this] obtain vs where "length vs = length chans"
    "s' = s\<lparr>block_replies := block_replies s @
            (ch, if found then Ok () else Err (BlockNotFoundWithPeers c)) # zip chans vs\<rparr>"
    by auto
  then show ?case
    by (intro exI [of _ "(if found then Ok () else Err (BlockNotFoundWithPeers c)) # vs"]) simp
qed simp

lemma on_bitswap_Ok:
  assumes "on_bitswap L st info s = Some (Ok (), s')"
  shows "\<exists>vs m. length vs = length (svc_waiting s (info_cid info)) \<and>
    s' = s\<lparr>swarm := cancel (l_net L) (info_query_id info) (swarm s), metric_log := m,
           response_channels := (response_channels s)(info_cid info := None),
           block_replies := block_replies s @ zip (svc_waiting s (info_cid info)) vs\<rparr>"
proof (cases "response_channels s (info_cid info)")
  case None
  then have "(response_channels s)(info_cid info := None) = response_channels s" by auto
  with None assms show ?thesis
    by (auto simp: on_bitswap_def Let_def svc_waiting_def track_svc_def)
next
  case (Some chans)
  from assms Some obtain bc n m where
    "answer_channels (l_cid L) (l_kv L) st bc (info_cid info) n chans
       (s\<lparr>swarm := cancel (l_net L) (info_query_id info) (swarm s), metric_log := m,
          response_channels := (response_channels s)(info_cid info := None)\<rparr>) = (Ok (), s')"
    by (auto simp: on_bitswap_def Let_def track_svc_def split: outcome.splits option.splits if_splits)
  from answer_channels_Ok [OF this] Some show ?thesis by (auto simp: svc_waiting_def)
qed

text \<open>
  Publishing changes neither the waiting channels nor the queries and events; \<open>issued\<close> is any
  view of the library state that gossiping keeps.
\<close>

definition publish_frame ::
  "('w \<Rightarrow> query_id set) \<Rightarrow> ('w, 'p) service \<Rightarrow> ('w, 'p) service \<Rightarrow> bool" where
  "publish_frame issued s s' \<longleftrightarrow>
     response_channels s' = response_channels s \<and> block_replies s' = block_replies s \<and>
     index_replies s' = index_replies s \<and> queries (swarm s') = queries (swarm s) \<and> beh_events (swarm s') = beh_events (swarm s) \<and>
     issued (net (swarm s')) = issued (net (swarm s))"

lemma publish_frame_trans: "publish_frame i s t \<Longrightarrow> publish_frame i t u \<Longrightarrow> publish_frame i s u"
  by (simp add: publish_frame_def)

lemma announce_frame:
  assumes "\<And>t d w. issued (snd (gossip_publish (l_net L) t d w)) = issued w"
  shows "publish_frame issued s (snd (announce L s))"
  by (auto simp: announce_def publish_frame_def beh_publish_def case_prod_beta Let_def assms
      split: outcome.splits)

lemma publish_root_cid_cases:
  assumes "publish_root_cid L store aid address root s = Some (r, s')"
  shows "s' = s \<or> (\<exists>p. s' = s\<lparr>index_provider := p\<rparr>) \<or>
    (\<exists>p. announce L (s\<lparr>index_provider := p\<rparr>) = (r, s'))"
  using assms
  by (auto simp: publish_root_cid_def Let_def split: outcome.splits option.splits prod.splits)

lemma publish_root_cid_frame:
  assumes "\<And>t d w. issued (snd (gossip_publish (l_net L) t d w)) = issued w"
    and "publish_root_cid L store aid address root s = Some (r, s')"
  shows "publish_frame issued s s'"
  using publish_root_cid_cases [OF assms(2)]
proof (elim disjE exE)
  fix p assume "announce L (s\<lparr>index_provider := p\<rparr>) = (r, s')"
  with announce_frame [OF assms(1), of "s\<lparr>index_provider := p\<rparr>"]
  show ?thesis by (simp add: publish_frame_def)
qed (simp_all add: publish_frame_def)

text \<open>What every publication of a root keeps, the loop over the queue keeps.\<close>

lemma publish_loop_invariant:
  assumes "publish_loop L st aid address n s = Some r" and "P s"
    and roots: "\<And>q s. P s \<Longrightarrow> P (set_roots q s)"
    and root: "\<And>store aid root s r' s'. P s \<Longrightarrow> publish_root_cid L store aid address root s = Some (r', s') \<Longrightarrow> P s'"
  shows "P (snd r)"
proof -
  have "L = L \<longrightarrow> address = address \<longrightarrow> P s \<longrightarrow> P (snd r)"
  proof (rule publish_loop.raw_induct [where P = "\<lambda>L' st aid address' n s r. L' = L \<longrightarrow> address' = address \<longrightarrow> P s \<longrightarrow> P (snd r)",
        OF _ assms(1)], intro impI, goal_cases)
    case (1 f L' st aid address' n s r)
    show ?case
    proof (cases "root_cids (index_provider s)")
      case Nil
      with 1 show ?thesis by auto
    next
      case (Cons c rest)
      with 1 obtain r1 s1 where p: "publish_root_cid L (st n) (aid n) address c (set_roots rest s) = Some (r1, s1)"
        by (auto split: option.splits)
      have s1: "P s1" by (rule root [OF roots [OF 1(5)] p])
      show ?thesis
      proof (cases r1)
        case (Ok u)
        with 1(2-4) Cons p have "f L st aid address (Suc n) s1 = Some r" by simp
        from 1(1) [OF this] s1 show ?thesis by simp
      qed (use 1(2-4) Cons p s1 in auto)
    qed
  qed
  with assms(2) show ?thesis by simp
qed

lemma publish_loop_frame:
  assumes "\<And>t d w. issued (snd (gossip_publish (l_net L) t d w)) = issued w"
    and "publish_loop L st aid address n s = Some r"
  shows "publish_frame issued s (snd r)"
proof (rule publish_loop_invariant [OF assms(2)])
  show "publish_frame issued s (set_roots q t)" if "publish_frame issued s t" for q t
    using that by (simp add: publish_frame_def set_roots_def)
  show "publish_frame issued s t'"
    if "publish_frame issued s t" "publish_root_cid L store aid address root t = Some (r', t')" for store aid root t r' t'
    using publish_frame_trans [OF that(1) publish_root_cid_frame [OF assms(1) that(2)]] .
qed (simp add: publish_frame_def)

lemma on_nat_status_changed_frame:
  "response_channels (snd (on_nat_status_changed L rng old new s)) = response_channels s"
  "block_replies (snd (on_nat_status_changed L rng old new s)) = block_replies s"
  "index_replies (snd (on_nat_status_changed L rng old new s)) = index_replies s"
  by (auto simp: on_nat_status_changed_def Let_def split: nat_status.splits option.splits prod.splits)

lemmas log_defs =
  track_svc_def send_event_def on_gossip_message_def on_request_message_def on_peer_connected_def
  on_peer_disconnected_def Let_def

text \<open>Events other than a completed query leave the waiting channels alone.\<close>

lemma handle_event_other:
  assumes "handle_event L st aid rng e s = Some (r, s')" and "\<And>info. e \<noteq> Bitswap info"
  shows "response_channels s' = response_channels s" and "block_replies s' = block_replies s"
    and "index_replies s' = index_replies s"
proof -
  have "response_channels s' = response_channels s \<and> block_replies s' = block_replies s \<and>
    index_replies s' = index_replies s"
  proof (cases e)
    case (NatStatusChanged old new)
    then show ?thesis
      using assms(1) on_nat_status_changed_frame [of L rng old new s]
      by (cases "on_nat_status_changed L rng old new s") (auto simp: handle_event_def)
  next
    case (StartPublish a)
    then have "publish_loop L st aid (publish_address a) 0 s = Some (r, s')"
      using assms(1) by (simp add: handle_event_def on_start_publish_def)
    from publish_loop_frame [OF _ this, of "\<lambda>w. {}"] show ?thesis by (simp add: publish_frame_def)
  qed (use assms in \<open>auto simp: handle_event_def log_defs\<close>)
  then show "response_channels s' = response_channels s" and "block_replies s' = block_replies s"
    and "index_replies s' = index_replies s"
    by simp_all
qed

lemma handle_command_other:
  assumes "handle_command L c s = (r, s')" and "\<And>cid q ch. c \<noteq> GetBitswap cid q ch"
  shows "response_channels s' = response_channels s" and "block_replies s' = block_replies s"
  using assms
  by (cases c; auto simp: handle_command_def on_get_peers_def on_index_def set_roots_def Let_def
      split: list.splits option.splits outcome.splits prod.splits)+

section \<open>Answers at most once\<close>

text \<open>The key an operation resolves: the CID of a completed query.\<close>

fun op_key :: "('w, 's) svc_op \<Rightarrow> cid option" where
  "op_key (OpEvent st aid rng (Bitswap info)) = Some (info_cid info)"
| "op_key _ = None"

fun is_get_bitswap :: "('w, 's) svc_op \<Rightarrow> bool" where
  "is_get_bitswap (OpCommand (GetBitswap c q ch)) = True"
| "is_get_bitswap _ = False"

definition keyed_waiting :: "('w, 'p) service \<Rightarrow> cid option \<Rightarrow> chan list" where
  "keyed_waiting s k = (case k of None \<Rightarrow> [] | Some c \<Rightarrow> svc_waiting s c)"

definition svc_apply :: "('w, 's, 'p) libs \<Rightarrow> ('w, 's) svc_op \<Rightarrow> ('w, 'p) service \<Rightarrow> ('w, 'p) service" where
  "svc_apply L op s = (case svc_do L op s of Some (Ok u, s') \<Rightarrow> s' | _ \<Rightarrow> s)"

definition can_apply :: "('w, 's, 'p) libs \<Rightarrow> ('w, 's) svc_op \<Rightarrow> ('w, 'p) service \<Rightarrow> bool" where
  "can_apply L op s \<longleftrightarrow>
     \<not> is_get_bitswap op \<and> (case svc_do L op s of Some (r, s') \<Rightarrow> is_ok r | None \<Rightarrow> False)"

lemma can_applyE:
  assumes "can_apply L op s"
  obtains s' where "svc_do L op s = Some (Ok (), s')" and "svc_apply L op s = s'" and "\<not> is_get_bitswap op"
  using assms by (auto simp: can_apply_def svc_apply_def is_ok_iff split: option.splits prod.splits)

lemma svc_do_unrelated:
  assumes "svc_do L op s = Some (r, s')" and "op_key op = None" and "\<not> is_get_bitswap op"
  shows "response_channels s' = response_channels s \<and> block_replies s' = block_replies s"
proof (cases op)
  case (OpEvent st aid rng e)
  then obtain b where h: "handle_event L st aid rng e (s\<lparr>swarm := b\<rparr>) = Some (r, s')"
    using assms(1) by (auto split: option.splits prod.splits if_splits)
  have "e \<noteq> Bitswap info" for info using assms(2) OpEvent by auto
  from handle_event_other [OF h this] show ?thesis by simp
next
  case (OpCommand c)
  then have h: "handle_command L c s = (r, s')" using assms(1) by simp
  have "c \<noteq> GetBitswap cid q ch" for cid q ch using assms(3) OpCommand by auto
  from handle_command_other [OF h this] show ?thesis by simp
qed (use assms in \<open>auto split: prod.splits\<close>)

lemma svc_do_bitswap:
  assumes "svc_do L (OpEvent st aid rng (Bitswap info)) s = Some (Ok (), s')"
  shows "\<exists>vs. length vs = length (svc_waiting s (info_cid info)) \<and>
    response_channels s' = (response_channels s)(info_cid info := None) \<and>
    block_replies s' = block_replies s @ zip (svc_waiting s (info_cid info)) vs"
proof -
  from assms obtain b where "on_bitswap L st info (s\<lparr>swarm := b\<rparr>) = Some (Ok (), s')"
    by (auto simp: handle_event_def split: option.splits prod.splits if_splits)
  from on_bitswap_Ok [OF this] show ?thesis by (auto simp: svc_waiting_def)
qed

lemma op_key_SomeE:
  assumes "op_key op = Some c"
  obtains st aid rng info where "op = OpEvent st aid rng (Bitswap info)" and "c = info_cid info"
  using assms by (cases op rule: op_key.cases) auto

definition svc_register ::
  "('w, 's, 'p) libs \<Rightarrow> cid \<times> bitswap_type \<Rightarrow> chan \<Rightarrow> ('w, 'p) service \<Rightarrow> ('w, 'p) service" where
  "svc_register L x ch s = snd (handle_command L (GetBitswap (fst x) (snd x) ch) s)"

definition can_get :: "cid \<times> bitswap_type \<Rightarrow> ('w, 'p) service \<Rightarrow> bool" where
  "can_get x s \<longleftrightarrow> peers (swarm s) \<noteq> {}"

lemma svc_register_tables:
  assumes "can_get x s"
  shows "svc_waiting (svc_register L x ch s) c =
      (if c = fst x then svc_waiting s c @ [ch] else svc_waiting s c)"
    and "block_replies (svc_register L x ch s) = block_replies s"
  using assms
  by (auto simp: can_get_def svc_register_def handle_command_def on_get_bitswap_def Let_def
      svc_waiting_def case_prod_beta split: option.splits)

interpretation blk: waiter_table keyed_waiting block_replies "\<lambda>x s. Some (fst x)" can_get
  "svc_register L" op_key "can_apply L" "svc_apply L"
  for L
proof (unfold_locales, goal_cases)
  case (1 x s ch k)
  then show ?case by (cases k) (simp_all add: keyed_waiting_def svc_register_tables)
next
  case (2 x s ch)
  then show ?case by (rule svc_register_tables)
next
  case (3 r s k)
  then obtain s' where d: "svc_do L r s = Some (Ok (), s')" "svc_apply L r s = s'" "\<not> is_get_bitswap r"
    by (rule can_applyE)
  show ?case
  proof (cases "op_key r")
    case None
    with svc_do_unrelated [OF d(1)] d show ?thesis
      by (cases k) (simp_all add: keyed_waiting_def svc_waiting_def)
  next
    case (Some c)
    then show ?thesis
    proof (rule op_key_SomeE)
      fix st aid rng info assume r: "r = OpEvent st aid rng (Bitswap info)" "c = info_cid info"
      from svc_do_bitswap [OF d(1) [unfolded r]] d(2) r show ?thesis
        by (cases k) (auto simp: keyed_waiting_def svc_waiting_def)
    qed
  qed
next
  case (4 r s)
  then obtain s' where d: "svc_do L r s = Some (Ok (), s')" "svc_apply L r s = s'" "\<not> is_get_bitswap r"
    by (rule can_applyE)
  show ?case
  proof (cases "op_key r")
    case None
    with svc_do_unrelated [OF d(1)] d show ?thesis by (simp add: keyed_waiting_def)
  next
    case (Some c)
    then show ?thesis
    proof (rule op_key_SomeE)
      fix st aid rng info assume r: "r = OpEvent st aid rng (Bitswap info)" "c = info_cid info"
      from svc_do_bitswap [OF d(1) [unfolded r]] d(2) r show ?thesis
        by (auto simp: keyed_waiting_def)
    qed
  qed
qed

lemma blk_waits: "blk.waits t ch \<longleftrightarrow> (\<exists>c. ch \<in> set (svc_waiting t c))"
  by (auto simp: blk.waits_def keyed_waiting_def split: option.splits)

section \<open>No waiter is stranded\<close>

text \<open>Some running query, or some completion event in the queue, is for the CID.\<close>

definition awaited :: "cid \<Rightarrow> 'w behaviour \<Rightarrow> bool" where
  "awaited c b \<longleftrightarrow>
     (\<exists>q info. queries b q = Some info \<and> info_cid info = c) \<or>
     (\<exists>info. Bitswap info \<in> set (beh_events b) \<and> info_cid info = c)"

definition svc_inv :: "('w \<Rightarrow> query_id set) \<Rightarrow> ('w, 'p) service \<Rightarrow> bool" where
  "svc_inv issued s \<longleftrightarrow>
     (\<exists>ended. queries_ok issued ended (swarm s)) \<and>
     (\<forall>c. response_channels s c \<noteq> Some []) \<and>
     (\<forall>c chans. response_channels s c = Some chans \<longrightarrow> awaited c (swarm s))"

text \<open>A change of the swarm that keeps queries and adds events keeps the invariant.\<close>

lemma svc_inv_transfer:
  assumes "svc_inv issued s" and "response_channels s' = response_channels s"
    and "queries (swarm s') = queries (swarm s)"
    and "beh_events (swarm s') = beh_events (swarm s) @ es" and "query_ids es = []"
    and "issued (net (swarm s')) = issued (net (swarm s))"
  shows "svc_inv issued s'"
proof -
  from assms(1) obtain ended where "queries_ok issued ended (swarm s)" by (auto simp: svc_inv_def)
  then have "queries_ok issued ended (swarm s')"
    by (rule queries_ok_transfer) (simp_all add: assms)
  moreover have "awaited c (swarm s')" if "awaited c (swarm s)" for c
    using that by (auto simp: awaited_def assms(3,4))
  ultimately show ?thesis using assms(1) by (auto simp: svc_inv_def assms(2))
qed

lemma svc_inv_frame: "svc_inv issued s \<Longrightarrow> publish_frame issued s s' \<Longrightarrow> svc_inv issued s'"
  by (rule svc_inv_transfer [where es = "[]"]) (simp_all add: publish_frame_def)

lemma inject_awaited:
  assumes "bitswap_ids_fresh lp issued" and "awaited c b"
  shows "awaited c (beh_inject_event lp i b)"
proof (cases "\<exists>q r. i = InBitswap (Complete q r)")
  case True
  then obtain q r where i: "i = InBitswap (Complete q r)" by blast
  show ?thesis
  proof (cases "queries b q")
    case None
    with assms(2) show ?thesis by (simp add: i handle_bitswap_def)
  next
    case (Some info)
    define info' where "info' = (case r of Ok u \<Rightarrow> info\<lparr>block_found := True\<rparr> | Err x \<Rightarrow> info | Panic x \<Rightarrow> info)"
    have b': "beh_inject_event lp i b =
        push_event (Bitswap info') (b\<lparr>queries := (queries b)(q := None)\<rparr>)"
      by (cases r) (simp_all add: i handle_bitswap_def Some info'_def)
    have "info_cid info' = info_cid info" by (cases r) (simp_all add: info'_def)
    then show ?thesis
      using assms(2) Some unfolding b' awaited_def push_event_def
      by (cases "info_cid info = c") (auto, metis option.inject)
  qed
next
  case False
  then have "\<And>q r. i \<noteq> InBitswap (Complete q r)" by blast
  with assms(2) show ?thesis
    by (auto simp: awaited_def beh_inject_event_queue beh_inject_other(1) [OF assms(1)])
qed

lemma svc_inv_sub:
  assumes "bitswap_ids_fresh (l_net L) issued" and "svc_inv issued s"
  shows "svc_inv issued (s\<lparr>swarm := beh_inject_event (l_net L) i (swarm s)\<rparr>)"
  using assms(2) inject_queries_ok [OF assms(1)] inject_awaited [OF assms(1)]
  by (fastforce simp: svc_inv_def)

text \<open>Taking an event that is not a completed query off the queue.\<close>

lemma svc_inv_pop:
  assumes "svc_inv issued s" and "beh_deliver (swarm s) = Some (e, b)" and "query_of e = []"
  shows "svc_inv issued (s\<lparr>swarm := b\<rparr>)"
proof -
  from assms(2) obtain es where b: "beh_events (swarm s) = e # es" "b = (swarm s)\<lparr>beh_events := es\<rparr>"
    by (auto simp: beh_deliver_def beh_poll_def split: list.splits)
  have "awaited c b" if "awaited c (swarm s)" for c
    using that assms(3) by (auto simp: awaited_def b)
  moreover have "queries_ok issued ended b" if "queries_ok issued ended (swarm s)" for ended
    by (rule queries_ok_transfer [OF that]) (simp_all add: b assms(3))
  ultimately show ?thesis using assms(1) by (auto simp: svc_inv_def)
qed

lemma svc_inv_bitswap:
  assumes fresh: "bitswap_ids_fresh (l_net L) issued" and inv: "svc_inv issued s"
    and pop: "beh_deliver (swarm s) = Some (Bitswap info, b)"
    and ok: "on_bitswap L st info (s\<lparr>swarm := b\<rparr>) = Some (Ok (), s')"
  shows "svc_inv issued s'"
proof -
  from pop obtain es where b: "beh_events (swarm s) = Bitswap info # es" "b = (swarm s)\<lparr>beh_events := es\<rparr>"
    by (auto simp: beh_deliver_def beh_poll_def split: list.splits)
  from inv obtain ended where q: "queries_ok issued ended (swarm s)" by (auto simp: svc_inv_def)
  have "queries_ok issued (ended @ [info_query_id info]) b"
    by (rule queries_ok_transfer [OF q]) (simp_all add: b)
  then have "queries_ok issued (ended @ [info_query_id info]) (cancel (l_net L) (info_query_id info) b)"
    by (rule cancel_queries_ok [OF fresh])
  moreover have "queries b (info_query_id info) = None" using q by (simp add: queries_ok_def b)
  then have "queries (cancel (l_net L) (info_query_id info) b) = queries b"
    by (simp add: cancel_def fun_upd_idem)
  then have "awaited c (cancel (l_net L) (info_query_id info) b)"
    if "awaited c (swarm s)" "c \<noteq> info_cid info" for c
    using that by (auto simp: awaited_def b cancel_def)
  ultimately show ?thesis
    using inv on_bitswap_Ok [OF ok] by (auto simp: svc_inv_def split: if_splits)
qed

lemma svc_inv_event:
  assumes fresh: "bitswap_ids_fresh (l_net L) issued" and inv: "svc_inv issued s"
    and pop: "beh_deliver (swarm s) = Some (e, b)"
    and ok: "handle_event L st aid rng e (s\<lparr>swarm := b\<rparr>) = Some (Ok (), s')"
  shows "svc_inv issued s'"
proof (cases "\<exists>info. e = Bitswap info")
  case True
  then show ?thesis
    using svc_inv_bitswap [OF fresh inv] pop ok by (auto simp: handle_event_def)
next
  case False
  then have e: "query_of e = []" by (cases e) auto
  note inv' = svc_inv_pop [OF inv pop e]
  show ?thesis
  proof (cases e)
    case (StartPublish a)
    then have "publish_loop L st aid (publish_address a) 0 (s\<lparr>swarm := b\<rparr>) = Some (Ok (), s')"
      using ok by (simp add: handle_event_def on_start_publish_def)
    from publish_loop_frame [OF _ this, of issued] show ?thesis
      using svc_inv_frame [OF inv'] by (simp add: ids_fresh(8) [OF fresh])
  next
    case (NatStatusChanged old new)
    let ?t = "s\<lparr>swarm := b\<rparr>"
    have "on_nat_status_changed L rng old new ?t = (Ok (), s')"
      using ok NatStatusChanged by (simp add: handle_event_def)
    then consider (same) "s' = ?t" | (net) w where "s' = ?t\<lparr>swarm := b\<lparr>net := w\<rparr>\<rparr>" "issued w = issued (net b)"
      | (ad) a where "s' = ?t\<lparr>swarm := push_event (StartPublish a) b\<rparr>"
      using ids_fresh(14) [OF fresh]
      by (auto simp: on_nat_status_changed_def publish_ad_def Let_def case_prod_beta
          split: nat_status.splits option.splits if_splits)
    then show ?thesis
    proof cases
      case same
      then show ?thesis using inv' by simp
    next
      case net
      then show ?thesis by (intro svc_inv_transfer [OF inv', of _ "[]"]) simp_all
    next
      case (ad a)
      then show ?thesis
        by (intro svc_inv_transfer [OF inv', of _ "[StartPublish a]"]) (simp_all add: push_event_def)
    qed
  qed (use False ok in \<open>auto simp: handle_event_def log_defs split: if_splits
      intro!: svc_inv_transfer [OF inv', of _ "[]"]\<close>)
qed

lemma query_call_issues:
  assumes fresh: "bitswap_ids_fresh lp issued"
  shows "fst (get_block cl lp c ps b) = Ok () \<Longrightarrow>
      \<exists>i. i \<notin> issued (net b) \<and> beh_events (snd (get_block cl lp c ps b)) = beh_events b \<and>
        queries (snd (get_block cl lp c ps b)) =
          (queries b)(i \<mapsto> \<lparr>info_cid = c, info_query_id = i, block_found = False\<rparr>)" (is "?P \<Longrightarrow> ?Q")
    and "fst (sync_block cl lp c ps b) = Ok () \<Longrightarrow>
      \<exists>i. i \<notin> issued (net b) \<and> beh_events (snd (sync_block cl lp c ps b)) = beh_events b \<and>
        queries (snd (sync_block cl lp c ps b)) =
          (queries b)(i \<mapsto> \<lparr>info_cid = c, info_query_id = i, block_found = False\<rparr>)" (is "?R \<Longrightarrow> ?S")
proof -
  assume ?P
  then obtain d where "convert_cid (cid_try_from cl) (cid_to_bytes cl c) = (Ok d :: cid result)"
    by (auto simp: get_block_def split: outcome.splits)
  then show ?Q
    using ids_fresh(1) [OF fresh]
    by (intro exI [of _ "fst (bitswap_get lp d ps (net b))"]) (simp add: get_block_def case_prod_beta)
next
  assume ?R
  then obtain d where "convert_cid (cid_try_from cl) (cid_to_bytes cl c) = (Ok d :: cid result)"
    by (auto simp: sync_block_def split: outcome.splits)
  then show ?S
    using ids_fresh(3) [OF fresh]
    by (intro exI [of _ "fst (bitswap_sync lp d ps [d] (net b))"]) (simp add: sync_block_def case_prod_beta)
qed

lemma on_get_bitswap_inv:
  assumes fresh: "bitswap_ids_fresh (l_net L) issued" and inv: "svc_inv issued s"
    and ok: "on_get_bitswap L c q ch s = (Ok (), s')"
  shows "svc_inv issued s'"
proof (cases "peers (swarm s) = {}")
  case True
  then show ?thesis
    using inv ok by (auto simp: on_get_bitswap_def svc_inv_def)
next
  case False
  let ?ps = "peers_iter L (peers (swarm s))"
  let ?b = "case q of Get \<Rightarrow> get_block (l_cid L) (l_net L) c ?ps (swarm s)
    | Sync \<Rightarrow> sync_block (l_cid L) (l_net L) c ?ps (swarm s)"
  have s': "swarm s' = snd ?b" "fst ?b = Ok ()"
      "response_channels s' = (response_channels s)(c \<mapsto> svc_waiting s c @ [ch])"
    using ok False
    by (cases q; auto simp: on_get_bitswap_def Let_def svc_waiting_def case_prod_beta
        split: option.splits)+
  have "\<exists>i. i \<notin> issued (net (swarm s)) \<and> beh_events (snd ?b) = beh_events (swarm s) \<and>
      queries (snd ?b) = (queries (swarm s))(i \<mapsto> \<lparr>info_cid = c, info_query_id = i, block_found = False\<rparr>)"
    using s'(2) by (cases q) (simp_all add: query_call_issues [OF fresh])
  then obtain i where b: "i \<notin> issued (net (swarm s))" "beh_events (snd ?b) = beh_events (swarm s)"
    "queries (snd ?b) = (queries (swarm s))(i \<mapsto> \<lparr>info_cid = c, info_query_id = i, block_found = False\<rparr>)"
    by blast
  from inv obtain ended where q: "queries_ok issued ended (swarm s)" by (auto simp: svc_inv_def)
  have "queries (swarm s) i = None"
    using q b(1) by (auto simp: queries_ok_def)
  then have "awaited d (snd ?b)" if "awaited d (swarm s) \<or> d = c" for d
    using that by (auto simp: awaited_def b) (metis option.distinct(1))
  moreover have "queries_ok issued ended (snd ?b)"
    using query_call_queries_ok [OF fresh q] by (cases q) simp_all
  ultimately show ?thesis
    using inv by (auto simp: svc_inv_def s' split: if_splits)
qed

lemma handle_command_inv:
  assumes fresh: "bitswap_ids_fresh (l_net L) issued" and inv: "svc_inv issued s"
    and ok: "handle_command L c s = (Ok (), s')"
  shows "svc_inv issued s'"
proof (cases c)
  case (GetBitswap cid q ch)
  then show ?thesis using on_get_bitswap_inv [OF fresh inv] ok by (simp add: handle_command_def)
next
  case (Index cids ch)
  show ?thesis
  proof (cases "public_address (l_net L) (swarm s)")
    case None
    then show ?thesis
      using ok Index by (intro svc_inv_transfer [OF inv, of _ "[]"])
        (auto simp: handle_command_def on_index_def set_roots_def split: list.splits)
  next
    case (Some a)
    then show ?thesis
      using ok Index by (intro svc_inv_transfer [OF inv, of _ "[StartPublish a]"])
        (auto simp: handle_command_def on_index_def set_roots_def publish_ad_def push_event_def
          split: list.splits)
  qed
next
  case (SendRequest p r ch)
  then have s': "s' = s\<lparr>swarm := snd (send_request (l_net L) p r ch (swarm s))\<rparr>"
    using ok by (simp add: handle_command_def)
  have "awaited d (snd (send_request (l_net L) p r ch (swarm s))) \<longleftrightarrow> awaited d (swarm s)" for d
    by (simp add: awaited_def send_request_def case_prod_beta)
  moreover obtain ended where "queries_ok issued ended (swarm s)" using inv by (auto simp: svc_inv_def)
  then have "queries_ok issued ended (swarm s')"
    by (simp add: s' send_request_queries_ok [OF fresh])
  ultimately show ?thesis using inv by (auto simp: svc_inv_def s')
next
  case (GossipsubMessage t m)
  then show ?thesis
    using ok by (intro svc_inv_transfer [OF inv, of _ "[]"])
      (auto simp: handle_command_def beh_publish_def case_prod_beta ids_fresh [OF fresh]
        split: outcome.splits)
qed (use inv ok in \<open>auto simp: handle_command_def on_get_peers_def
    intro!: svc_inv_transfer [OF inv, of _ "[]"]\<close>)

lemma svc_do_inv [ursa_inv]:
  assumes fresh: "bitswap_ids_fresh (l_net L) issued" and inv: "svc_inv issued s"
    and ok: "svc_do L op s = Some (Ok (), s')"
  shows "svc_inv issued s'"
proof (cases op)
  case (OpEvent st aid rng e)
  then obtain b where "beh_deliver (swarm s) = Some (e, b)"
    "handle_event L st aid rng e (s\<lparr>swarm := b\<rparr>) = Some (Ok (), s')"
    using ok by (auto split: option.splits prod.splits if_splits)
  then show ?thesis by (rule svc_inv_event [OF fresh inv])
next
  case (OpCommand c)
  then show ?thesis using ok handle_command_inv [OF fresh inv] by simp
next
  case (OpSub i)
  then show ?thesis using ok svc_inv_sub [OF fresh inv] by auto
next
  case (OpDisc di)
  obtain d w where dw: "disc_step (l_net L) di (beh_discovery (swarm s), net (swarm s)) = (d, w)"
    by (cases "disc_step (l_net L) di (beh_discovery (swarm s), net (swarm s))")
  then have "issued w = issued (net (swarm s))"
    using disc_step_issued [OF fresh, of di "beh_discovery (swarm s)" "net (swarm s)"] by simp
  moreover have "s' = s\<lparr>swarm := (swarm s)\<lparr>beh_discovery := d, net := w\<rparr>\<rparr>"
    using ok OpDisc dw by simp
  ultimately show ?thesis by (intro svc_inv_transfer [OF inv, of _ "[]"]) simp_all
qed

lemma svc_reach_inv:
  "svc_reach L s0 s \<Longrightarrow> bitswap_ids_fresh (l_net L) issued \<Longrightarrow> svc_inv issued s0 \<Longrightarrow> svc_inv issued s"
proof (induction rule: svc_reach.induct)
  case (reach_op s op s')
  then show ?case using svc_do_inv [OF reach_op.prems(1) _ reach_op.hyps(2)] by simp
qed simp

text \<open>A service that was just constructed.\<close>

lemma service_new_Ok:
  assumes "service_new pl gl mk lp peer_of kp config provider = Ok s"
  shows "queries (swarm s) = Map.empty" and "beh_events (swarm s) = []"
    and "response_channels s = Map.empty" and "index_provider s = provider"
    and "block_replies s = []" and "index_replies s = []"
proof -
  from assms obtain b w where b: "behaviour_new pl gl mk peer_of kp config (relay_client config) = Ok b"
    and s: "swarm s = snd (beh_bootstrap lp (snd (subscribe lp URSA_GLOBAL (b\<lparr>net := w\<rparr>))))"
    and t: "response_channels s = Map.empty" "index_provider s = provider" "block_replies s = []" "index_replies s = []"
    by (auto simp: service_new_def outcome_simps Let_def case_prod_beta)
  from b have "queries b = Map.empty" "beh_events b = []"
    by (auto simp: behaviour_new_def outcome_simps split: if_splits)
  then show "queries (swarm s) = Map.empty" and "beh_events (swarm s) = []"
    by (simp_all add: s beh_bootstrap_def subscribe_def case_prod_beta)
  show "response_channels s = Map.empty" and "index_provider s = provider"
    and "block_replies s = []" and "index_replies s = []" by (rule t)+
qed

lemma service_new_inv:
  assumes "service_new pl gl mk lp peer_of kp config provider = Ok s"
  shows "svc_inv issued s"
  unfolding svc_inv_def
  using initial_queries_ok [OF service_new_Ok(1,2) [OF assms]] service_new_Ok(3) [OF assms] by auto

section \<open>What a waiting channel is told\<close>

lemma wait_block_returns:
  assumes "\<And>i. contains cl kv (st i) c = Ok (f i)" and "f m" and "n \<le> m"
  shows "\<exists>k. wait_block cl kv st c n = Some (Ok k) \<and> n < k \<and> k \<le> Suc m \<and> f (k - 1)"
  using assms(3)
proof (induction "m - n" arbitrary: n)
  case 0
  then show ?case using assms(1,2) by (subst wait_block.simps) simp
next
  case (Suc x)
  show ?case
  proof (cases "f n")
    case True
    then show ?thesis
      using assms(1) Suc(3) by (subst wait_block.simps) auto
  next
    case False
    then have "n \<noteq> m" using assms(2) by auto
    then obtain k where "wait_block cl kv st c (Suc n) = Some (Ok k)" "Suc n < k" "k \<le> Suc m" "f (k - 1)"
      using Suc by (metis (no_types, lifting) Suc_diff_Suc diff_Suc_Suc le_neq_implies_less Suc_leI diff_Suc_1)
    then show ?thesis
      using assms(1) False by (subst wait_block.simps) auto
  qed
qed

lemma wait_block_stuck:
  assumes "\<And>i. contains cl kv (st i) c = Ok False"
  shows "wait_block cl kv st c n = None"
proof (rule ccontr)
  assume "wait_block cl kv st c n \<noteq> None"
  then obtain r where r: "wait_block cl kv st c n = Some r" by blast
  have "cl = cl \<longrightarrow> kv = kv \<longrightarrow> st = st \<longrightarrow> c = c \<longrightarrow> False"
    by (rule wait_block.raw_induct
        [where P = "\<lambda>cl' kv' st' c' n r. cl' = cl \<longrightarrow> kv' = kv \<longrightarrow> st' = st \<longrightarrow> c' = c \<longrightarrow> False", OF _ r])
      (clarsimp simp: assms, blast)
  then show False by simp
qed

lemma answer_channels_values:
  assumes "\<And>i. contains cl kv (st i) bc = Ok (f i)"
  shows "answer_channels cl kv st bc c n chans s =
    (Ok (), s\<lparr>block_replies := block_replies s @
       zip chans (map (\<lambda>i. if f i then Ok () else Err (BlockNotFoundWithPeers c)) [n..<n + length chans])\<rparr>)"
  by (induction chans arbitrary: n s) (simp_all add: assms upt_conv_Cons del: upt_Suc)

lemma zip_map_const:
  "(\<And>i. i \<in> set is \<Longrightarrow> g i = v) \<Longrightarrow> length is = length xs \<Longrightarrow> zip xs (map g is) = map (\<lambda>x. (x, v)) xs"
  by (induction xs arbitrary: "is") (auto simp: length_Suc_conv)

text \<open>A query that ended while channels wait for its CID.\<close>

lemma on_bitswap_waiting:
  assumes "cid_lib_ok (l_cid L)" and "response_channels s (info_cid info) = Some chans"
    and "\<And>i. contains (l_cid L) (l_kv L) (st i) (info_cid info) = Ok (f i)"
    and "(if block_found info then wait_block (l_cid L) (l_kv L) st (info_cid info) 0 else Some (Ok 0)) = Some (Ok n)"
  shows "\<exists>s'. on_bitswap L st info s = Some (Ok (), s') \<and>
    response_channels s' = (response_channels s)(info_cid info := None) \<and>
    block_replies s' = block_replies s @ zip chans
      (map (\<lambda>i. if f i then Ok () else Err (BlockNotFoundWithPeers (info_cid info))) [n..<n + length chans])"
  using assms(1,2,4)
  by (simp add: on_bitswap_def Let_def track_svc_def answer_channels_values [where st = st and f = f, OF assms(3)])

lemma contains_table:
  assumes "kvdb_ok cl kv tbl" and "is_ok (kv_exists kv s (cid_to_bytes cl c))"
  shows "contains cl kv s c = Ok (content cl tbl s c \<noteq> None)"
  using assms by (auto simp: contains_def content_def kvdb_ok_def is_ok_iff)

definition demo_config :: network_config where
  "demo_config = \<lparr>mdns = False, relay_server = True, autonat = True, relay_client = True,
     bootstrapper = False, swarm_addr = [Ip4 0, Tcp 6009], cfg_bootstrap_nodes = [[Tcp 6009, P2p [1]]],
     net_database_path = ''db'', identity = ''default'', keystore_path = ''keys''\<rparr>"

lemma demo_service_new:
  "\<exists>s. service_new plain_peer_lib checking_gossip_lib (\<lambda>g. g) counter_libp2p (\<lambda>k. PeerId 0) (Ed25519 3)
     demo_config fresh_provider = Ok s"
  by (simp add: service_new_def ursa_transport_new_def swarm_config_new_Ok behaviour_new_def ursa_gossipsub_new_def gossip_config_build
      discovery_new_def demo_config_def counter_libp2p_def)
    (simp add: checking_gossip_lib_def Let_def)

section \<open>Properties\<close>



text \<open>
  C15. A found block: when a query ends with success, the block arrives in the store and stays
  there, the handler returns and every channel waiting for that CID is told success, in the
  order in which they were registered.
\<close>

theorem found_block_answers_all:
  assumes "cid_lib_ok (l_cid L)" and "kvdb_ok (l_cid L) (l_kv L) tbl"
    and "\<forall>i. is_ok (kv_exists (l_kv L) (st i) (cid_to_bytes (l_cid L) (info_cid info)))"
    and "block_found info" and "response_channels s (info_cid info) = Some chans"
    and "content (l_cid L) tbl (st m) (info_cid info) \<noteq> None"
    and "\<forall>i j. i \<le> j \<and> content (l_cid L) tbl (st i) (info_cid info) \<noteq> None \<longrightarrow>
           content (l_cid L) tbl (st j) (info_cid info) \<noteq> None"
  shows "\<exists>s'. on_bitswap L st info s = Some (Ok (), s') \<and>
    response_channels s' = (response_channels s)(info_cid info := None) \<and>
    block_replies s' = block_replies s @ map (\<lambda>ch. (ch, Ok ())) chans"
proof -
  let ?f = "\<lambda>i. content (l_cid L) tbl (st i) (info_cid info) \<noteq> None"
  have f: "contains (l_cid L) (l_kv L) (st i) (info_cid info) = Ok (?f i)" for i
    using assms(2,3) by (intro contains_table) auto
  obtain k where k: "wait_block (l_cid L) (l_kv L) st (info_cid info) 0 = Some (Ok k)" "?f (k - 1)"
    using wait_block_returns [where f = ?f, OF f assms(6), of 0] by blast
  have later: "?f i" if "i \<in> set [k..<k + length chans]" for i
  proof -
    have "k - 1 \<le> i" using that by auto
    then show ?thesis using k(2) assms(7) by blast
  qed
  have "zip chans (map (\<lambda>i. if ?f i then Ok () else Err (BlockNotFoundWithPeers (info_cid info)))
      [k..<k + length chans]) = map (\<lambda>ch. (ch, Ok ())) chans"
    using later by (intro zip_map_const) auto
  with on_bitswap_waiting [where f = ?f, OF assms(1,5) f] assms(4) k(1) show ?thesis by simp
qed

theorem found_block_answers_all_witness:
  "\<exists>s'. on_bitswap demo_libs (\<lambda>i. if i < 3 then Map.empty else full_store)
      \<lparr>info_cid = Cid 2, info_query_id = 0, block_found = True\<rparr>
      (demo_service\<lparr>response_channels := [Cid 2 \<mapsto> [41, 42]]\<rparr>) = Some (Ok (), s') \<and>
     block_replies s' = [(41, Ok ()), (42, Ok ())]"
proof -
  have "is_ok (kv_exists (mem_kvdb unary_cid_lib) t k)" for t k by (simp add: mem_kvdb_def)
  moreover have "content unary_cid_lib (\<lambda>s. s) (if i < 3 then Map.empty else full_store) (Cid 2) \<noteq> None \<longleftrightarrow> 3 \<le> i"
    for i :: nat
    by (cases "i < 3") (simp_all, simp add: content_def)
  ultimately show ?thesis
    using found_block_answers_all [of demo_libs "\<lambda>s. s" "\<lambda>i. if i < 3 then Map.empty else full_store"
      "\<lparr>info_cid = Cid 2, info_query_id = 0, block_found = True\<rparr>"
      "demo_service\<lparr>response_channels := [Cid 2 \<mapsto> [41, 42]]\<rparr>" "[41, 42]" 3]
    by auto
qed

text \<open>
  A query that ends without the block: every channel waiting for that CID is told that the
  block was not found with any peer.
\<close>

theorem missing_block_answers_all:
  assumes "cid_lib_ok (l_cid L)" and "kvdb_ok (l_cid L) (l_kv L) tbl"
    and "\<forall>i. is_ok (kv_exists (l_kv L) (st i) (cid_to_bytes (l_cid L) (info_cid info)))"
    and "\<not> block_found info" and "response_channels s (info_cid info) = Some chans"
    and "\<forall>i. content (l_cid L) tbl (st i) (info_cid info) = None"
  shows "\<exists>s'. on_bitswap L st info s = Some (Ok (), s') \<and>
    response_channels s' = (response_channels s)(info_cid info := None) \<and>
    block_replies s' = block_replies s @ map (\<lambda>ch. (ch, Err (BlockNotFoundWithPeers (info_cid info)))) chans"
proof -
  have f: "contains (l_cid L) (l_kv L) (st i) (info_cid info) = Ok False" for i
    using contains_table [OF assms(2), of "st i" "info_cid info"] assms(3,6) by simp
  show ?thesis
    using on_bitswap_waiting [where f = "\<lambda>i. False" and n = 0, OF assms(1,5) f] assms(4)
    by (simp add: zip_map_const [where v = "Err (BlockNotFoundWithPeers (info_cid info))"])
qed

theorem missing_block_answers_all_witness:
  "\<exists>s'. on_bitswap demo_libs (\<lambda>i. part_store)
      \<lparr>info_cid = Cid 4, info_query_id = 0, block_found = False\<rparr>
      (demo_service\<lparr>response_channels := [Cid 4 \<mapsto> [41]]\<rparr>) = Some (Ok (), s') \<and>
     block_replies s' = [(41, Err (BlockNotFoundWithPeers (Cid 4)))]"
proof -
  have "is_ok (kv_exists (mem_kvdb unary_cid_lib) t k)" for t k by (simp add: mem_kvdb_def)
  then show ?thesis
    using missing_block_answers_all [of demo_libs "\<lambda>s. s" "\<lambda>i. part_store"
      "\<lparr>info_cid = Cid 4, info_query_id = 0, block_found = False\<rparr>"
      "demo_service\<lparr>response_channels := [Cid 4 \<mapsto> [41]]\<rparr>" "[41]"]
    by auto
qed

text \<open>
  C38. A query reported as successful whose block never appears in the store blocks the service:
  the handler of the event does not return as long as a channel waits for the CID.
\<close>

theorem absent_block_blocks_service:
  assumes "cid_lib_ok (l_cid L)" and "kvdb_ok (l_cid L) (l_kv L) tbl"
    and "\<forall>i. is_ok (kv_exists (l_kv L) (st i) (cid_to_bytes (l_cid L) (info_cid info)))"
    and "block_found info" and "response_channels s (info_cid info) \<noteq> None"
    and "\<forall>i. content (l_cid L) tbl (st i) (info_cid info) = None"
  shows "on_bitswap L st info s = None"
proof -
  have "contains (l_cid L) (l_kv L) (st i) (info_cid info) = Ok False" for i
    using contains_table [OF assms(2), of "st i" "info_cid info"] assms(3,6) by simp
  from wait_block_stuck [OF this] assms(1,4,5) show ?thesis
    by (auto simp: on_bitswap_def Let_def track_svc_def)
qed

theorem absent_block_blocks_service_witness:
  "on_bitswap demo_libs (\<lambda>i. part_store) \<lparr>info_cid = Cid 4, info_query_id = 0, block_found = True\<rparr>
     (demo_service\<lparr>response_channels := [Cid 4 \<mapsto> [41]]\<rparr>) = None"
proof -
  have "is_ok (kv_exists (mem_kvdb unary_cid_lib) t k)" for t k by (simp add: mem_kvdb_def)
  then show ?thesis
    using absent_block_blocks_service [of demo_libs "\<lambda>s. s" "\<lambda>i. part_store"
      "\<lparr>info_cid = Cid 4, info_query_id = 0, block_found = True\<rparr>"
      "demo_service\<lparr>response_channels := [Cid 4 \<mapsto> [41]]\<rparr>"]
    by simp
qed

text \<open>
  A block request without connected peers is refused at once and starts no query; with peers
  its channel joins those waiting for the CID and exactly one query for the CID is started.
\<close>

theorem get_bitswap_refused_or_registered:
  assumes "cid_lib_ok (l_cid L)" and "bitswap_ids_fresh (l_net L) issued"
    and "handle_command L (GetBitswap c q ch) s = (r, s')"
  shows "r = Ok () \<and>
    (if peers (swarm s) = {}
     then s' = s\<lparr>block_replies := block_replies s @ [(ch, Err NoPeersProvided)]\<rparr>
     else block_replies s' = block_replies s \<and>
       response_channels s' = (response_channels s)(c \<mapsto> svc_waiting s c @ [ch]) \<and>
       (\<exists>i. i \<notin> issued (net (swarm s)) \<and>
          queries (swarm s') = (queries (swarm s))(i \<mapsto> \<lparr>info_cid = c, info_query_id = i, block_found = False\<rparr>)))"
proof (cases "peers (swarm s) = {}")
  case True
  then show ?thesis using assms(3) by (auto simp: handle_command_def on_get_bitswap_def)
next
  case False
  let ?ps = "peers_iter L (peers (swarm s))"
  let ?b = "case q of Get \<Rightarrow> get_block (l_cid L) (l_net L) c ?ps (swarm s)
    | Sync \<Rightarrow> sync_block (l_cid L) (l_net L) c ?ps (swarm s)"
  have s': "swarm s' = snd ?b" "r = fst ?b" "block_replies s' = block_replies s"
      "response_channels s' = (response_channels s)(c \<mapsto> svc_waiting s c @ [ch])"
    using assms(3) False
    by (cases q; auto simp: handle_command_def on_get_bitswap_def Let_def svc_waiting_def case_prod_beta
        split: option.splits)+
  have ok: "fst ?b = Ok ()"
    using assms(1) by (cases q) (simp_all add: get_block_def sync_block_def case_prod_beta)
  then have "\<exists>i. i \<notin> issued (net (swarm s)) \<and>
      queries (snd ?b) = (queries (swarm s))(i \<mapsto> \<lparr>info_cid = c, info_query_id = i, block_found = False\<rparr>)"
    using query_call_issues [OF assms(2), where cl = "l_cid L" and c = c and ps = ?ps and b = "swarm s"]
    by (cases q) auto
  then show ?thesis using False s' ok by simp
qed

theorem get_bitswap_refused_or_registered_witness:
  "\<exists>s'. handle_command demo_libs (GetBitswap (Cid 4) Sync 41) demo_service = (Ok (), s') \<and>
     response_channels s' = [Cid 4 \<mapsto> [41]]"
proof -
  obtain r s' where h: "handle_command demo_libs (GetBitswap (Cid 4) Sync 41) demo_service = (r, s')"
    by (cases "handle_command demo_libs (GetBitswap (Cid 4) Sync 41) demo_service")
  show ?thesis
    using get_bitswap_refused_or_registered [of demo_libs "\<lambda>w. {..<w}", OF _ _ h] h
    by (simp add: svc_waiting_def)
qed

text \<open>
  Three commands never reach their requester: a response command and an index command without
  CIDs stop the service with a panic, and the channel of a put command is dropped unanswered.
\<close>

lemma commands_without_answer:
  "handle_command L (SendResponse rid resp ch) s = (Panic Todo, s) \<and>
   handle_command L (Index [] ch) s = (Panic IndexOutOfBounds, s) \<and>
   handle_command L (Put c ch) s = (Ok (), s)"
  by (simp add: handle_command_def on_index_def)

end
