(* ===== verification/Service_Publish.thy ===== *)
theory Service_Publish
  imports Service
begin

text \<open>
  Publication of queued roots by the network service (\<open>crates/ursa-network/src/service.rs\<close>, arm
  \<open>StartPublish\<close>). The lemmas combine the walk over the stored DAG (\<open>Store\<close>) with the publisher
  interface of the index provider (\<open>ad_publisher\<close>, interpreted as \<open>prov\<close>): one advertisement per queued root,
  in order, which lists the multihash of every block below the root exactly once. They also show
  that the loop over the queue returns, and what a root with a missing block does.
\<close>

section \<open>Chunks\<close>

lemma chunks_Nil [simp]: "chunks n [] = []"
  by (simp add: chunks.simps)

lemma concat_chunks: "0 < n \<Longrightarrow> concat (chunks n xs) = xs"
proof (induction n xs rule: chunks.induct)
  case (1 n xs)
  then show ?case by (cases "xs = []") (simp_all add: chunks.simps [of n xs])
qed

lemma chunks_bounds: "0 < n \<Longrightarrow> ys \<in> set (chunks n xs) \<Longrightarrow> ys \<noteq> [] \<and> length ys \<le> n"
proof (induction n xs rule: chunks.induct)
  case (1 n xs)
  then show ?case by (cases "xs = []") (auto simp: chunks.simps [of n xs])
qed

lemma MAX_ENTRIES_pos: "0 < MAX_ENTRIES"
  by (simp add: MAX_ENTRIES_def)

section \<open>One root\<close>

text \<open>
  What the parameters promise: the CID, object store and advertisement laws, and that the provider
  decodes the entries the service encoded.
\<close>

definition publish_libs_ok :: "('w, 's, 'p) libs \<Rightarrow> bool" where
  "publish_libs_ok L \<longleftrightarrow>
     cid_lib_ok (l_cid L) \<and> obj_store_ok (l_obj L) \<and> ad_lib_ok (l_ad L) \<and> picks_member (l_pick L) \<and>
     (\<forall>es b. (\<forall>e\<in>set es. \<exists>c. e = IpldBytes (cid_hash L c)) \<and> ipld_to_vec L es = Ok b \<longrightarrow>
        entries_from_slice (l_ann L) b = Ok es)"

text \<open>The DAG below a root can be walked: it is finite and the database and the decoder answer.\<close>

definition dag_walkable ::
  "('w, 's, 'p) libs \<Rightarrow> ('s \<Rightarrow> bytes \<Rightarrow> bytes option) \<Rightarrow> 's \<Rightarrow> cid \<Rightarrow> bool" where
  "dag_walkable L tbl store root \<longleftrightarrow>
     (let look = content (l_cid L) tbl store; R = reach (l_blk L) look root in
      finite R \<and> db_answers (l_cid L) (l_kv L) store R \<and> blocks_decode (l_blk L) look R)"

definition dag_stored ::
  "('w, 's, 'p) libs \<Rightarrow> ('s \<Rightarrow> bytes \<Rightarrow> bytes option) \<Rightarrow> 's \<Rightarrow> cid \<Rightarrow> bool" where
  "dag_stored L tbl store root \<longleftrightarrow>
     (let look = content (l_cid L) tbl store in \<forall>d\<in>reach (l_blk L) look root. look d \<noteq> None)"

text \<open>An advertisement with these chunks lists every block below the root exactly once.\<close>

definition advertises ::
  "('w, 's, 'p) libs \<Rightarrow> ('s \<Rightarrow> bytes \<Rightarrow> bytes option) \<Rightarrow> 's \<Rightarrow> cid \<Rightarrow> ipld list list \<Rightarrow> bool" where
  "advertises L tbl store root ess \<longleftrightarrow>
     (\<exists>cs. distinct cs \<and> set cs = reach (l_blk L) (content (l_cid L) tbl store) root \<and>
        concat (rev ess) = map (\<lambda>c. IpldBytes (cid_hash L c)) cs) \<and>
     (\<forall>es\<in>set ess. es \<noteq> [] \<and> length es \<le> MAX_ENTRIES)"

lemma add_entry_chunks_Ok:
  "add_entry_chunks L aid cks p = (Ok (), p') \<Longrightarrow>
   \<exists>bs. list_all2 (\<lambda>b ck. ipld_to_vec L ck = Ok b) bs cks \<and>
     prov.add_chunks (l_cid L) (l_obj L) (l_ann L) bs aid p = (Ok (), p')"
proof (induction L aid cks p rule: add_entry_chunks.induct)
  case (2 L aid ck cks p)
  from "2.prems" obtain b p1 where b: "ipld_to_vec L ck = Ok b"
    and a: "add_chunk (l_cid L) (l_obj L) (l_ann L) b aid p = (Ok (), p1)"
    and r: "add_entry_chunks L aid cks p1 = (Ok (), p')"
    by (auto simp: outcome_simps split: outcome.splits prod.splits)
  from "2.IH" [OF b a [symmetric]] r obtain bs where
    "list_all2 (\<lambda>b ck. ipld_to_vec L ck = Ok b) bs cks"
    "prov.add_chunks (l_cid L) (l_obj L) (l_ann L) bs aid p1 = (Ok (), p')"
    by auto
  with a b show ?case by (intro exI [of _ "b # bs"]) simp
qed auto

lemma publish_root_cid_OkE:
  assumes "publish_root_cid L store aid address root s = Some (Ok (), s')" and "cid_lib_ok (l_cid L)"
  obtains ad dag p2 p3 where
    "advertisement_new (l_ad L) (cid_to_bytes (l_cid L) root) (svc_peer_id s)
       [multiaddr_to_string (l_ann L) address] False = Ok ad"
    and "dag_traversal (l_pick L) (l_cid L) (l_kv L) (l_blk L) store root = Some (Ok dag)"
    and "add_entry_chunks L aid (chunks MAX_ENTRIES (map (\<lambda>d. IpldBytes (cid_hash L (fst d))) dag))
           (snd (create aid ad (index_provider s))) = (Ok (), p2)"
    and "publish (l_cid L) (l_ad L) (l_obj L) aid p2 = (Ok (), p3)"
    and "announce L (s\<lparr>index_provider := p3\<rparr>) = (Ok (), s')"
  using assms
  by (auto simp: publish_root_cid_def Let_def outcome_simps
      split: outcome.splits option.splits prod.splits)

lemma announce_provider: "index_provider (snd (announce L s)) = index_provider s"
  by (auto simp: announce_def Let_def beh_publish_def split: outcome.splits prod.splits)

lemma publish_root_advertises:
  assumes libs: "publish_libs_ok L" and kv: "kvdb_ok (l_cid L) (l_kv L) tbl"
    and walk: "dag_walkable L tbl store root" and stored: "dag_stored L tbl store root"
    and chain: "published (l_ad L) (l_obj L) (index_provider s) adss"
    and ok: "publish_root_cid L store aid address root s = Some (Ok (), s')"
  shows "\<exists>ess. published (l_ad L) (l_obj L) (index_provider s') (ess # adss) \<and> advertises L tbl store root ess"
proof -
  have cl: "cid_lib_ok (l_cid L)" and pick: "picks_member (l_pick L)"
    and good: "cid_lib_ok (l_cid L) \<and> obj_store_ok (l_obj L) \<and> ad_lib_ok (l_ad L)"
    using libs by (simp_all add: publish_libs_ok_def)
  from ok cl obtain ad dag p2 p3 where
    dag: "dag_traversal (l_pick L) (l_cid L) (l_kv L) (l_blk L) store root = Some (Ok dag)"
    and add: "add_entry_chunks L aid (chunks MAX_ENTRIES (map (\<lambda>d. IpldBytes (cid_hash L (fst d))) dag))
           (snd (create aid ad (index_provider s))) = (Ok (), p2)"
    and pub: "publish (l_cid L) (l_ad L) (l_obj L) aid p2 = (Ok (), p3)"
    and ann: "announce L (s\<lparr>index_provider := p3\<rparr>) = (Ok (), s')"
    by (rule publish_root_cid_OkE)
  let ?es = "map (\<lambda>d. IpldBytes (cid_hash L (fst d))) dag"
  let ?cks = "chunks MAX_ENTRIES ?es"
  have cks: "concat ?cks = ?es" "\<forall>es\<in>set ?cks. es \<noteq> [] \<and> length es \<le> MAX_ENTRIES"
    using concat_chunks [OF MAX_ENTRIES_pos] chunks_bounds [OF MAX_ENTRIES_pos] by blast+
  have hashes: "\<exists>c. e = IpldBytes (cid_hash L c)" if "es \<in> set ?cks" "e \<in> set es" for e es
  proof -
    have "e \<in> set (concat ?cks)" using that by auto
    then show ?thesis unfolding cks by auto
  qed
  from add_entry_chunks_Ok [OF add] obtain bs where
    bs: "list_all2 (\<lambda>b ck. ipld_to_vec L ck = Ok b) bs ?cks"
    and adds: "prov.add_chunks (l_cid L) (l_obj L) (l_ann L) bs aid (snd (create aid ad (index_provider s))) = (Ok (), p2)"
    by blast
  have dec: "list_all2 (\<lambda>b es. entries_from_slice (l_ann L) b = Ok es) bs ?cks"
  proof (rule list_all2_all_nthI)
    show "length bs = length ?cks" using bs by (rule list_all2_lengthD)
    fix i assume i: "i < length bs"
    then have "ipld_to_vec L (?cks ! i) = Ok (bs ! i)" and "?cks ! i \<in> set ?cks"
      using bs by (auto dest: list_all2_nthD list_all2_lengthD)
    then show "entries_from_slice (l_ann L) (bs ! i) = Ok (?cks ! i)"
      using libs hashes by (simp add: publish_libs_ok_def)
  qed
  have "published (l_ad L) (l_obj L) p3 (rev ?cks # adss)"
    by (rule prov.publish_root [OF good chain adds pub dec])
  moreover have "index_provider s' = p3" using announce_provider [of L "s\<lparr>index_provider := p3\<rparr>"] ann by simp
  moreover have "advertises L tbl store root (rev ?cks)"
  proof -
    obtain dag' where "dag_traversal (l_pick L) (l_cid L) (l_kv L) (l_blk L) store root = Some (Ok dag')"
      "distinct (map fst dag')" "set (map fst dag') = reach (l_blk L) (content (l_cid L) tbl store) root"
      using dag_traversal_Ok [OF cl kv pick] walk stored unfolding dag_walkable_def dag_stored_def Let_def
      by blast
    then show ?thesis
      using dag cks unfolding advertises_def
      by (intro conjI exI [of _ "map fst dag"]) (auto simp: comp_def)
  qed
  ultimately show ?thesis by blast
qed

section \<open>The queue of roots\<close>

text \<open>What the calls of the provider interface keep, publishing a root keeps.\<close>

lemma add_entry_chunks_invariant:
  assumes "\<And>b p. P p \<Longrightarrow> P (snd (add_chunk (l_cid L) (l_obj L) (l_ann L) b aid p))" and "P p"
  shows "P (snd (add_entry_chunks L aid cks p))"
  using assms(2)
proof (induction cks arbitrary: p)
  case (Cons ck cks)
  show ?case
  proof (cases "ipld_to_vec L ck")
    case (Ok b)
    obtain r p1 where a: "add_chunk (l_cid L) (l_obj L) (l_ann L) b aid p = (r, p1)"
      by (cases "add_chunk (l_cid L) (l_obj L) (l_ann L) b aid p")
    with assms(1) [OF Cons.prems, of b] have "P p1" by simp
    with Cons.IH [of p1] show ?thesis by (cases r) (simp_all add: Ok a)
  qed (use Cons.prems in simp_all)
qed simp

lemma publish_root_cid_invariant:
  assumes "publish_root_cid L store aid address root s = Some (r, s')" and "P (index_provider s)"
    and create: "\<And>ad p. P p \<Longrightarrow> ad_signable ad \<Longrightarrow> P (snd (create aid ad p))"
    and add: "\<And>b p. P p \<Longrightarrow> P (snd (add_chunk (l_cid L) (l_obj L) (l_ann L) b aid p))"
    and pub: "\<And>p. P p \<Longrightarrow> P (snd (publish (l_cid L) (l_ad L) (l_obj L) aid p))"
  shows "P (index_provider s')"
proof -
  have c: "P (snd (create aid ad (index_provider s)))"
    if "advertisement_new (l_ad L) ctx pid as rm = Ok ad" for ad ctx pid as rm
    by (rule create [OF assms(2) ad_signable_new [OF that]])
  have a: "P p2" if "add_entry_chunks L aid cks p = (x, p2)" "P p" for cks p x p2
    using add_entry_chunks_invariant [where P = P, OF add that(2), of cks] that(1) by simp
  have p: "P p3" if "publish (l_cid L) (l_ad L) (l_obj L) aid p2 = (x, p3)" "P p2" for p2 p3 x
    using pub [OF that(2)] that(1) by simp
  have n: "index_provider t' = index_provider t" if "announce L t = (x, t')" for t x t'
    using announce_provider [of L t] that by simp
  show ?thesis
    using assms(1,2)
    by (auto simp: publish_root_cid_def Let_def dest!: c n dest: a p
        split: outcome.splits option.splits prod.splits)
qed

lemma publish_root_cid_roots:
  assumes "publish_root_cid L store aid address root s = Some (r, s')"
  shows "root_cids (index_provider s') = root_cids (index_provider s)"
  using assms
  by (rule publish_root_cid_invariant [where P = "\<lambda>p. root_cids p = root_cids (index_provider s)"])
    (auto simp: create_def add_chunk_def publish_def Let_def split: outcome.splits option.splits)

text \<open>The loop returns when every walk does: each iteration removes one root from the queue.\<close>

lemma publish_loop_returns:
  assumes "cid_lib_ok (l_cid L)"
    and "\<And>i root. root \<in> R \<Longrightarrow> dag_traversal (l_pick L) (l_cid L) (l_kv L) (l_blk L) (st i) root \<noteq> None"
    and "set (root_cids (index_provider s)) \<subseteq> R"
  shows "\<exists>r s'. publish_loop L st aid address n s = Some (r, s')"
  using assms(3)
proof (induction "length (root_cids (index_provider s))" arbitrary: n s)
  case 0
  then show ?case by (subst publish_loop.simps) simp
next
  case (Suc k)
  then obtain root rest where q: "root_cids (index_provider s) = root # rest"
    by (cases "root_cids (index_provider s)") auto
  have returns: "dag_traversal (l_pick L) (l_cid L) (l_kv L) (l_blk L) (st n) root = None \<longleftrightarrow> False"
    using assms(2) q Suc.prems by simp
  have "publish_root_cid L (st n) (aid n) address root (set_roots rest s) \<noteq> None"
    using assms(1)
    by (auto simp: publish_root_cid_def Let_def returns split: outcome.splits option.splits prod.splits)
  then obtain r s1 where p: "publish_root_cid L (st n) (aid n) address root (set_roots rest s) = Some (r, s1)"
    by auto
  have r: "root_cids (index_provider s1) = rest"
    using publish_root_cid_roots [OF p] by (simp add: set_roots_def)
  with Suc.hyps(1) [of s1 "Suc n"] Suc.hyps(2) Suc.prems q
  have "\<exists>r s'. publish_loop L st aid address (Suc n) s1 = Some (r, s')" by simp
  then show ?case
    by (subst publish_loop.simps) (auto simp: q p split: outcome.split)
qed

lemma publish_loop_step:
  assumes "root_cids (index_provider s) = root # rest"
    and "publish_loop L st aid address n s = Some (Ok (), s')"
  obtains s1 where "publish_root_cid L (st n) (aid n) address root (set_roots rest s) = Some (Ok (), s1)"
    and "publish_loop L st aid address (Suc n) s1 = Some (Ok (), s')"
    and "root_cids (index_provider s1) = rest"
proof -
  have unfold: "publish_loop L st aid address n s =
      (case publish_root_cid L (st n) (aid n) address root (set_roots rest s) of
         None \<Rightarrow> None
       | Some (r, s1) \<Rightarrow>
           (case r of
              Ok u \<Rightarrow> publish_loop L st aid address (Suc n) s1
            | Err e \<Rightarrow> Some (Err e, s1)
            | Panic x \<Rightarrow> Some (Panic x, s1)))"
    by (subst publish_loop.simps) (simp add: assms(1))
  from assms(2) obtain s1 where
    p: "publish_root_cid L (st n) (aid n) address root (set_roots rest s) = Some (Ok (), s1)"
    and "publish_loop L st aid address (Suc n) s1 = Some (Ok (), s')"
    unfolding unfold by (auto split: option.splits outcome.splits)
  moreover have "root_cids (index_provider s1) = rest"
    using publish_root_cid_roots [OF p] by (simp add: set_roots_def)
  ultimately show ?thesis using that p by blast
qed

lemma publish_loop_advertises:
  assumes libs: "publish_libs_ok L" and kv: "kvdb_ok (l_cid L) (l_kv L) tbl"
    and "\<And>i. i < length roots \<Longrightarrow> dag_walkable L tbl (st (n + i)) (roots ! i)"
    and "\<And>i. i < length roots \<Longrightarrow> dag_stored L tbl (st (n + i)) (roots ! i)"
    and "published (l_ad L) (l_obj L) (index_provider s) adss"
    and "root_cids (index_provider s) = roots"
    and "publish_loop L st aid address n s = Some (Ok (), s')"
  shows "\<exists>new. published (l_ad L) (l_obj L) (index_provider s') (rev new @ adss) \<and>
    length new = length roots \<and> root_cids (index_provider s') = [] \<and>
    (\<forall>i<length roots. advertises L tbl (st (n + i)) (roots ! i) (new ! i))"
  using assms(3-7)
proof (induction roots arbitrary: n s adss)
  case Nil
  then show ?case by (subst (asm) publish_loop.simps) auto
next
  case (Cons root rest)
  from publish_loop_step [OF Cons.prems(4,5)] obtain s1 where
    p: "publish_root_cid L (st n) (aid n) address root (set_roots rest s) = Some (Ok (), s1)"
    and rec: "publish_loop L st aid address (Suc n) s1 = Some (Ok (), s')"
    and q: "root_cids (index_provider s1) = rest"
    by blast
  have "published (l_ad L) (l_obj L) (index_provider (set_roots rest s)) adss"
    using Cons.prems(3) by (simp add: published_def set_roots_def)
  moreover have "dag_walkable L tbl (st n) root" "dag_stored L tbl (st n) root"
    using Cons.prems(1,2) [of 0] by simp_all
  ultimately obtain ess where ess: "published (l_ad L) (l_obj L) (index_provider s1) (ess # adss)"
    "advertises L tbl (st n) root ess"
    using publish_root_advertises [OF libs kv _ _ _ p] by blast
  have "\<exists>new. published (l_ad L) (l_obj L) (index_provider s') (rev new @ ess # adss) \<and>
      length new = length rest \<and> root_cids (index_provider s') = [] \<and>
      (\<forall>i<length rest. advertises L tbl (st (Suc n + i)) (rest ! i) (new ! i))"
    using Cons.prems(1,2) [of "Suc i" for i]
    by (intro Cons.IH [OF _ _ ess(1) q rec]) simp_all
  then obtain new where "published (l_ad L) (l_obj L) (index_provider s') (rev (ess # new) @ adss)"
    "length new = length rest" "root_cids (index_provider s') = []"
    "\<forall>i<length rest. advertises L tbl (st (Suc n + i)) (rest ! i) (new ! i)"
    by auto
  then show ?case
    using ess(2) by (intro exI [of _ "ess # new"]) (auto simp: less_Suc_eq_0_disj)
qed

text \<open>A block is missing below the first root of the queue.\<close>

lemma missing_dag_stops:
  assumes "cid_lib_ok (l_cid L)" and "kvdb_ok (l_cid L) (l_kv L) tbl" and "picks_member (l_pick L)"
    and "root_cids (index_provider s) = root # rest" and "dag_walkable L tbl (st 0) root"
    and "\<not> dag_stored L tbl (st 0) root" and "is_ok (bincode_metadata (l_ad L) \<lparr>ProtocolID = 0x0900, Data = []\<rparr>)"
  shows "\<exists>s'. on_start_publish L st aid address s = Some (Err (MissingDag root), s') \<and>
    root_cids (index_provider s') = rest \<and> head (index_provider s') = head (index_provider s) \<and>
    swarm s' = swarm s \<and> http_log s' = http_log s"
proof -
  from assms(5) have w: "finite (reach (l_blk L) (content (l_cid L) tbl (st 0)) root)"
    "db_answers (l_cid L) (l_kv L) (st 0) (reach (l_blk L) (content (l_cid L) tbl (st 0)) root)"
    "blocks_decode (l_blk L) (content (l_cid L) tbl (st 0)) (reach (l_blk L) (content (l_cid L) tbl (st 0)) root)"
    by (auto simp: dag_walkable_def Let_def)
  from assms(6) have "dag_traversal (l_pick L) (l_cid L) (l_kv L) (l_blk L) (st 0) root = Some (Err (MissingDag root))"
    using dag_traversal_Err [OF assms(1-3) w] by (auto simp: dag_stored_def Let_def)
  moreover obtain m where "bincode_metadata (l_ad L) \<lparr>ProtocolID = 0x0900, Data = []\<rparr> = Ok m"
    using assms(7) by (auto simp: is_ok_iff)
  ultimately show ?thesis
    using assms(1,4) unfolding on_start_publish_def
    by (subst publish_loop.simps)
      (simp add: publish_root_cid_def Let_def advertisement_new_def set_roots_def create_def)
qed

section \<open>A concrete publication\<close>

definition queued_service :: "(nat, obj list) service" where
  "queued_service = set_roots [Cid 2] demo_service"

lemma demo_publish_libs_ok: "publish_libs_ok demo_libs"
  by (auto simp: publish_libs_ok_def plain_announce_lib_def split: cid.splits
      intro!: nth_equalityI) (metis (no_types) cid.exhaust cid.case first_byte.simps(1) nth_mem)

lemma full_dag_walkable: "dag_walkable demo_libs (\<lambda>s. s) full_store (Cid 2)"
  "dag_stored demo_libs (\<lambda>s. s) full_store (Cid 2)"
  by (simp_all add: dag_walkable_def dag_stored_def reach_full_store)

lemma queued_service_published: "published al os (index_provider queued_service) []"
  by (simp add: published_def queued_service_def set_roots_def fresh_provider_def provider_new_def)

lemma chunks_single:
  assumes "xs \<noteq> []" and "length xs \<le> n"
  shows "chunks n xs = [xs]"
proof -
  have "0 < n" using assms by (cases xs) auto
  then show ?thesis using assms by (simp add: chunks.simps [of n xs])
qed

lemma demo_start_publish:
  assumes s: "index_provider s = fresh_provider\<lparr>root_cids := [Cid 2]\<rparr>"
  shows "\<exists>s'. on_start_publish demo_libs (\<lambda>i. full_store) (\<lambda>i. 1) [Ip4 1, Tcp 6009] s = Some (Ok (), s')"
proof -
  let ?R = "reach link_blocks (content unary_cid_lib (\<lambda>s. s) full_store) (Cid 2)"
  obtain dag where dag: "dag_traversal (\<lambda>_ S. Min S) unary_cid_lib (mem_kvdb unary_cid_lib) link_blocks
      full_store (Cid 2) = Some (Ok dag)" and d: "distinct (map fst dag)" "set (map fst dag) = ?R"
    using dag_traversal_Ok [OF unary_cid_lib_ok mem_kvdb_ok picks_member_Min _ mem_kvdb_answers
        link_blocks_decode, of full_store "Cid 2"] by (auto simp: reach_full_store)
  have "length dag = 3"
    using distinct_card [OF d(1)] by (simp only: d(2) reach_full_store) simp
  then have len: "dag \<noteq> []" "length dag \<le> MAX_ENTRIES" by (auto simp: MAX_ENTRIES_def)
  have one: "\<exists>s1. publish_root_cid demo_libs full_store 1 [Ip4 1, Tcp 6009] (Cid 2) (set_roots [] s) =
      Some (Ok (), s1)"
    using len
    by (simp add: publish_root_cid_def Let_def advertisement_new_def dag chunks_single add_chunk_def create_def
        s set_roots_def fresh_provider_def provider_new_def publish_def
        sign_def sig_payload_def link_bytes_def plain_ad_lib_def list_obj_store_def plain_announce_lib_def
        announce_def create_announce_msg_def marshal_cbor_def beh_publish_def counter_libp2p_def)
  then obtain s1 where s1: "publish_root_cid demo_libs full_store 1 [Ip4 1, Tcp 6009] (Cid 2)
      (set_roots [] s) = Some (Ok (), s1)" by blast
  have "root_cids (index_provider s1) = []"
    using publish_root_cid_roots [OF s1] by (simp add: set_roots_def)
  then have "publish_loop demo_libs (\<lambda>i. full_store) (\<lambda>i. 1) [Ip4 1, Tcp 6009] (Suc 0) s1 = Some (Ok (), s1)"
    by (subst publish_loop.simps) simp
  moreover have "root_cids (index_provider s) = [Cid 2]" by (simp add: s)
  ultimately show ?thesis
    unfolding on_start_publish_def by (subst publish_loop.simps) (simp add: s1)
qed

lemma queued_service_publishes:
  "\<exists>s'. on_start_publish demo_libs (\<lambda>i. full_store) (\<lambda>i. 1) [Ip4 1, Tcp 6009] queued_service = Some (Ok (), s')"
  by (rule demo_start_publish) (simp add: queued_service_def set_roots_def)

section \<open>Properties\<close>

text \<open>
  C5. Publishing the queue: when the handler of a publish event succeeds, every queued root is
  published, in order, each as one advertisement in front of the chain, whose entries are the
  multihashes of all blocks below the root, each exactly once, in chunks of at most \<open>MAX_ENTRIES\<close>;
  the queue is empty afterwards.
\<close>

theorem start_publish_advertises_queue:
  assumes "publish_libs_ok L" and "kvdb_ok (l_cid L) (l_kv L) tbl"
    and "\<forall>i<length (root_cids (index_provider s)).
      dag_walkable L tbl (st i) (root_cids (index_provider s) ! i) \<and>
      dag_stored L tbl (st i) (root_cids (index_provider s) ! i)"
    and "published (l_ad L) (l_obj L) (index_provider s) adss"
    and "on_start_publish L st aid address s = Some (Ok (), s')"
  shows "\<exists>new. published (l_ad L) (l_obj L) (index_provider s') (rev new @ adss) \<and>
    length new = length (root_cids (index_provider s)) \<and> root_cids (index_provider s') = [] \<and>
    (\<forall>i<length (root_cids (index_provider s)).
       advertises L tbl (st i) (root_cids (index_provider s) ! i) (new ! i))"
  using publish_loop_advertises [OF assms(1,2), of "root_cids (index_provider s)" st 0 s adss aid
      "publish_address address" s'] assms(3-5)
  by (simp add: on_start_publish_def)

theorem start_publish_advertises_queue_witness:
  "\<exists>s' ess. on_start_publish demo_libs (\<lambda>i. full_store) (\<lambda>i. 1) [Ip4 1, Tcp 6009] queued_service = Some (Ok (), s') \<and>
     published plain_ad_lib list_obj_store (index_provider s') [ess] \<and>
     advertises demo_libs (\<lambda>s. s) full_store (Cid 2) ess"
proof -
  obtain s' where s': "on_start_publish demo_libs (\<lambda>i. full_store) (\<lambda>i. 1) [Ip4 1, Tcp 6009] queued_service = Some (Ok (), s')"
    using queued_service_publishes by blast
  have q: "root_cids (index_provider queued_service) = [Cid 2]" by (simp add: queued_service_def set_roots_def)
  obtain new where "published plain_ad_lib list_obj_store (index_provider s') (rev new @ [])"
    "length new = length [Cid 2]" "advertises demo_libs (\<lambda>s. s) full_store (Cid 2) (new ! 0)"
    using start_publish_advertises_queue [OF demo_publish_libs_ok _ _ queued_service_published s',
        of "\<lambda>s. s"] full_dag_walkable by (auto simp: q)
  then show ?thesis using s' by (auto simp: length_Suc_conv)
qed

text \<open>
  C24. The handler of a publish event returns when the DAGs of the queued roots can be walked,
  whether or not they are complete: the loop over the queue ends.
\<close>

theorem start_publish_returns:
  assumes "cid_lib_ok (l_cid L)" and "kvdb_ok (l_cid L) (l_kv L) tbl" and "picks_member (l_pick L)"
    and "\<forall>i. \<forall>root\<in>set (root_cids (index_provider s)). dag_walkable L tbl (st i) root"
  shows "\<exists>r s'. on_start_publish L st aid address s = Some (r, s')"
proof -
  have "dag_traversal (l_pick L) (l_cid L) (l_kv L) (l_blk L) (st i) root \<noteq> None"
    if "root \<in> set (root_cids (index_provider s))" for i root
  proof -
    from assms(4) that have w: "finite (reach (l_blk L) (content (l_cid L) tbl (st i)) root)"
      "db_answers (l_cid L) (l_kv L) (st i) (reach (l_blk L) (content (l_cid L) tbl (st i)) root)"
      "blocks_decode (l_blk L) (content (l_cid L) tbl (st i)) (reach (l_blk L) (content (l_cid L) tbl (st i)) root)"
      by (auto simp: dag_walkable_def Let_def)
    show ?thesis
      using dag_traversal_Ok [OF assms(1-3) w] dag_traversal_Err [OF assms(1-3) w]
      by (metis option.distinct(1))
  qed
  from publish_loop_returns [where R = "set (root_cids (index_provider s))", OF assms(1) this subset_refl]
  show ?thesis by (simp add: on_start_publish_def)
qed

theorem start_publish_returns_witness:
  "\<exists>r s'. on_start_publish demo_libs (\<lambda>i. full_store) (\<lambda>i. 1) [Tcp 6009] queued_service = Some (r, s')"
  using start_publish_returns [of demo_libs "\<lambda>s. s" queued_service "\<lambda>i. full_store" "\<lambda>i. 1" "[Tcp 6009]"]
    full_dag_walkable
  by (simp add: queued_service_def set_roots_def)

text \<open>
  C37. A queued root with a block missing from the store ends the service loop with an error; the
  root has been removed from the queue, so it is not published later, the roots behind it stay
  queued, and the published chain is unchanged.
\<close>

theorem missing_dag_stops_service:
  assumes "cid_lib_ok (l_cid L)" and "kvdb_ok (l_cid L) (l_kv L) tbl" and "picks_member (l_pick L)"
    and "root_cids (index_provider s) = root # rest" and "dag_walkable L tbl (st 0) root"
    and "\<not> dag_stored L tbl (st 0) root" and "is_ok (bincode_metadata (l_ad L) \<lparr>ProtocolID = 0x0900, Data = []\<rparr>)"
  shows "\<exists>s'. on_start_publish L st aid address s = Some (Err (MissingDag root), s') \<and>
    root_cids (index_provider s') = rest \<and> head (index_provider s') = head (index_provider s) \<and>
    swarm s' = swarm s \<and> http_log s' = http_log s"
  using assms by (rule missing_dag_stops)

theorem missing_dag_stops_service_witness:
  "\<exists>s'. on_start_publish demo_libs (\<lambda>i. part_store) (\<lambda>i. 1) [Tcp 6009] queued_service =
      Some (Err (MissingDag (Cid 2)), s') \<and> root_cids (index_provider s') = []"
proof -
  have "dag_walkable demo_libs (\<lambda>s. s) part_store (Cid 2)" "\<not> dag_stored demo_libs (\<lambda>s. s) part_store (Cid 2)"
    by (simp_all add: dag_walkable_def dag_stored_def reach_part_store)
  then show ?thesis
    using missing_dag_stops_service [of demo_libs "\<lambda>s. s" queued_service "Cid 2" "[]" "\<lambda>i. part_store"]
    by (auto simp: queued_service_def set_roots_def plain_ad_lib_def)
qed

end
