(* ===== verification/Files.thy ===== *)
theory Files
  imports Ursa_Prelude
begin

text \<open>
  Paths and files, shared by key storage, the node interface and the configuration:
  \<open>PathBuf::join\<close>, \<open>file_stem\<close> and \<open>set_extension\<close> of the standard library on lists of path components,
  the calls into the file system as a parameter over an abstract state with their documented
  behaviour, and an in-memory file system for closed instances. A file holds a byte string; a HOL
  string is one, whether or not it is text.
\<close>

section \<open>Paths\<close>

type_synonym path = "string list"

fun split_path :: "string \<Rightarrow> string \<Rightarrow> string list" where
  "split_path acc [] = [rev acc]"
| "split_path acc (c # cs) = (if c = CHR ''/'' then rev acc # split_path [] cs else split_path (c # acc) cs)"

definition components :: "string \<Rightarrow> path" where
  "components s = filter (\<lambda>p. p \<noteq> [] \<and> p \<noteq> ''.'') (split_path [] s)"

text \<open>Joining an absolute path replaces the directory; \<open>''/''\<close> is the root component.\<close>

definition join :: "path \<Rightarrow> string \<Rightarrow> path" where
  "join dir name = (if take 1 name = ''/'' then ''/'' # components name else dir @ components name)"

text \<open>The part of a file name before its last dot; a leading dot does not count.\<close>

definition file_stem :: "string \<Rightarrow> string" where
  "file_stem f =
     (let before = rev (tl (dropWhile (\<lambda>c. c \<noteq> CHR ''.'') (rev f)))
      in if CHR ''.'' \<in> set f \<and> before \<noteq> [] then before else f)"

definition set_extension :: "string \<Rightarrow> path \<Rightarrow> path" where
  "set_extension ext p =
     (if p = [] \<or> last p = ''/'' \<or> last p = ''..'' then p
      else butlast p @ [file_stem (last p) @ ''.'' @ ext])"

section \<open>The file system\<close>

datatype io_err = NotFound | InvalidData | OtherErr string

text \<open>File system calls over a state \<open>'f\<close>.\<close>

record 'f fs_lib =
  fs_exists :: "path \<Rightarrow> 'f \<Rightarrow> bool"
  fs_create_dir_all :: "path \<Rightarrow> 'f \<Rightarrow> (io_err, unit) outcome \<times> 'f"
  fs_create :: "path \<Rightarrow> 'f \<Rightarrow> (io_err, unit) outcome \<times> 'f"
  fs_write_all :: "path \<Rightarrow> string \<Rightarrow> 'f \<Rightarrow> (io_err, unit) outcome \<times> 'f"
  fs_sync_all :: "path \<Rightarrow> 'f \<Rightarrow> (io_err, unit) outcome \<times> 'f"
  fs_mode :: "path \<Rightarrow> 'f \<Rightarrow> (io_err, nat) outcome"
  fs_set_permissions :: "path \<Rightarrow> nat \<Rightarrow> 'f \<Rightarrow> (io_err, unit) outcome \<times> 'f"
  fs_open :: "path \<Rightarrow> 'f \<Rightarrow> (io_err, unit) outcome"
  fs_read_to_string :: "path \<Rightarrow> 'f \<Rightarrow> (io_err, string) outcome"
  fs_read :: "path \<Rightarrow> 'f \<Rightarrow> (io_err, bytes) outcome"

text \<open>
  Documented behaviour, with \<open>look f p\<close> the content and mode of the file at \<open>p\<close>: a successful write
  to a file just created (hence empty) gives it that content, changing permissions changes the
  mode only, reading returns the content, and a missing file is reported as not found. The files
  are those of the user who runs the node, so opening and reading an existing one succeeds.
\<close>

definition fs_reads_ok :: "'f fs_lib \<Rightarrow> ('f \<Rightarrow> path \<Rightarrow> (string \<times> nat) option) \<Rightarrow> bool" where
  "fs_reads_ok fs look \<longleftrightarrow>
     (\<forall>p f. fs_exists fs p f = (look f p \<noteq> None)) \<and>
     (\<forall>p f. fs_open fs p f = (case look f p of None \<Rightarrow> Err NotFound | Some (s, m) \<Rightarrow> Ok ())) \<and>
     (\<forall>p f. fs_read_to_string fs p f = (case look f p of None \<Rightarrow> Err NotFound | Some (s, m) \<Rightarrow> Ok s)) \<and>
     (\<forall>p f. fs_read fs p f = (case look f p of None \<Rightarrow> Err NotFound | Some (s, m) \<Rightarrow> Ok (as_bytes s)))"

definition fs_ok :: "'f fs_lib \<Rightarrow> ('f \<Rightarrow> path \<Rightarrow> (string \<times> nat) option) \<Rightarrow> bool" where
  "fs_ok fs look \<longleftrightarrow>
     (\<forall>p f f'. fs_create fs p f = (Ok (), f') \<longrightarrow> (\<exists>m. look f' p = Some ([], m))) \<and>
     (\<forall>p s f f' m. look f p = Some ([], m) \<and> fs_write_all fs p s f = (Ok (), f') \<longrightarrow> look f' p = Some (s, m)) \<and>
     (\<forall>p f f'. fs_sync_all fs p f = (Ok (), f') \<longrightarrow> look f' = look f) \<and>
     (\<forall>p m f f' s m'. look f p = Some (s, m') \<and> fs_set_permissions fs p m f = (Ok (), f') \<longrightarrow>
        look f' p = Some (s, m)) \<and>
     fs_reads_ok fs look"

text \<open>A call whose error ends the function by \<open>?\<close>.\<close>

definition and_then ::
  "(io_err, 'a) outcome \<times> 'f \<Rightarrow> ('a \<Rightarrow> 'f \<Rightarrow> (io_err, 'b) outcome \<times> 'f) \<Rightarrow> (io_err, 'b) outcome \<times> 'f" where
  "and_then r k =
     (case r of (Ok a, f) \<Rightarrow> k a f | (Err e, f) \<Rightarrow> (Err e, f) | (Panic x, f) \<Rightarrow> (Panic x, f))"

lemma and_then_Ok:
  "and_then r k = (Ok b, f') \<longleftrightarrow> (\<exists>a f. r = (Ok a, f) \<and> k a f = (Ok b, f'))"
  by (cases r) (auto simp: and_then_def split: outcome.splits)

lemma fs_okD:
  assumes "fs_ok fs look"
  shows "fs_create fs p f = (Ok (), f') \<Longrightarrow> \<exists>m. look f' p = Some ([], m)"
    and "look f p = Some ([], m) \<Longrightarrow> fs_write_all fs p s f = (Ok (), f') \<Longrightarrow> look f' p = Some (s, m)"
    and "fs_sync_all fs p f = (Ok (), f') \<Longrightarrow> look f' = look f"
    and "look f p = Some (s, m') \<Longrightarrow> fs_set_permissions fs p m f = (Ok (), f') \<Longrightarrow> look f' p = Some (s, m)"
    and "fs_exists fs p f = (look f p \<noteq> None)"
    and "fs_open fs p f = (case look f p of None \<Rightarrow> Err NotFound | Some (s, m) \<Rightarrow> Ok ())"
    and "fs_read_to_string fs p f = (case look f p of None \<Rightarrow> Err NotFound | Some (s, m) \<Rightarrow> Ok s)"
    and "fs_read fs p f = (case look f p of None \<Rightarrow> Err NotFound | Some (s, m) \<Rightarrow> Ok (as_bytes s))"
proof -
  note d = assms [unfolded fs_ok_def]
  from d show "fs_create fs p f = (Ok (), f') \<Longrightarrow> \<exists>m. look f' p = Some ([], m)"
    and "look f p = Some ([], m) \<Longrightarrow> fs_write_all fs p s f = (Ok (), f') \<Longrightarrow> look f' p = Some (s, m)"
    and "fs_sync_all fs p f = (Ok (), f') \<Longrightarrow> look f' = look f"
    and "look f p = Some (s, m') \<Longrightarrow> fs_set_permissions fs p m f = (Ok (), f') \<Longrightarrow> look f' p = Some (s, m)"
    by blast+
  from d have "fs_reads_ok fs look" by blast
  then show "fs_exists fs p f = (look f p \<noteq> None)"
    and "fs_open fs p f = (case look f p of None \<Rightarrow> Err NotFound | Some (s, m) \<Rightarrow> Ok ())"
    and "fs_read_to_string fs p f = (case look f p of None \<Rightarrow> Err NotFound | Some (s, m) \<Rightarrow> Ok s)"
    and "fs_read fs p f = (case look f p of None \<Rightarrow> Err NotFound | Some (s, m) \<Rightarrow> Ok (as_bytes s))"
    by (simp_all add: fs_reads_ok_def)
qed

section \<open>A file system in memory\<close>

definition mem_fs :: "(path \<Rightarrow> (string \<times> nat) option) fs_lib" where
  "mem_fs =
     \<lparr>fs_exists = (\<lambda>p f. f p \<noteq> None),
      fs_create_dir_all = (\<lambda>p f. (Ok (), f)), fs_create = (\<lambda>p f. (Ok (), f(p \<mapsto> ([], 420)))),
      fs_write_all = (\<lambda>p s f. (Ok (), f(p := map_option (\<lambda>(t, m). (t @ s, m)) (f p)))),
      fs_sync_all = (\<lambda>p f. (Ok (), f)), fs_mode = (\<lambda>p f. case f p of None \<Rightarrow> Err NotFound | Some (s, m) \<Rightarrow> Ok m),
      fs_set_permissions = (\<lambda>p m f. (Ok (), f(p := map_option (\<lambda>(t, m'). (t, m)) (f p)))),
      fs_open = (\<lambda>p f. case f p of None \<Rightarrow> Err NotFound | Some (s, m) \<Rightarrow> Ok ()),
      fs_read_to_string = (\<lambda>p f. case f p of None \<Rightarrow> Err NotFound | Some (s, m) \<Rightarrow> Ok s),
      fs_read = (\<lambda>p f. case f p of None \<Rightarrow> Err NotFound | Some (s, m) \<Rightarrow> Ok (as_bytes s))\<rparr>"

lemma mem_fs_ok [simp]: "fs_ok mem_fs (\<lambda>f. f)"
  by (auto simp: fs_ok_def fs_reads_ok_def mem_fs_def)

section \<open>Lemmas on paths\<close>

lemma split_path_single: "CHR ''/'' \<notin> set s \<Longrightarrow> split_path acc s = [rev acc @ s]"
  by (induction s arbitrary: acc) auto

lemma file_stem_dotted:
  assumes "base \<noteq> []" and "CHR ''.'' \<notin> set x"
  shows "file_stem (base @ CHR ''.'' # x) = base"
proof -
  have "dropWhile (\<lambda>c. c \<noteq> CHR ''.'') (rev (base @ CHR ''.'' # x)) = CHR ''.'' # rev base"
    by (subst rev_append, subst rev.simps, subst append_assoc, subst dropWhile_append2) (use assms(2) in auto)
  with assms(1) show ?thesis by (simp add: file_stem_def)
qed

end
