(* ===== verification/Identity.thy ===== *)
theory Identity
  imports Files
begin

text \<open>
  Key storage, \<open>crates/ursa/src/ursa/identity.rs\<close>: the PEM form of an Ed25519 key pair, saving and
  loading it, and the identity manager that finds or creates the key of a name. The \<open>pem\<close> crate,
  the Ed25519 encoding of libp2p and the file system are parameters.

  The lemmas show that a saved key loads again from a file only its owner may read, that the
  manager returns the same identity on every later start, that names which differ after their
  last dot share one key file, and that a damaged key file is replaced by a new key.
\<close>

section \<open>Parameters\<close>

record pem =
  pem_tag :: string
  pem_contents :: bytes

record pem_lib =
  pem_encode :: "pem \<Rightarrow> string"
  pem_parse :: "string \<Rightarrow> (string, pem) outcome"
  ed_encode :: "nat \<Rightarrow> bytes"
  ed_decode :: "bytes \<Rightarrow> (string, nat) outcome"

text \<open>
  Documented behaviour: parsing inverts encoding, an Ed25519 key pair encodes to 64 bytes, and
  decoding gives the key pair back. A key pair is the number of its 32-byte secret.
\<close>

definition ed_key :: "nat \<Rightarrow> bool" where
  "ed_key k \<longleftrightarrow> k < 256 ^ 32"

definition pem_lib_ok :: "pem_lib \<Rightarrow> bool" where
  "pem_lib_ok pl \<longleftrightarrow>
     (\<forall>p. pem_parse pl (pem_encode pl p) = Ok p) \<and>
     (\<forall>k. ed_key k \<longrightarrow> length (ed_encode pl k) = 64 \<and> ed_decode pl (ed_encode pl k) = Ok k)"

section \<open>Keys as PEM files\<close>

definition asn1_header :: bytes where
  "asn1_header = [0x30, 0x53, 0x02, 0x01, 0x01, 0x30, 0x05, 0x06, 0x03, 0x2B, 0x65, 0x70,
     0x04, 0x22, 0x04, 0x20]"

definition encode_pem :: "pem_lib \<Rightarrow> keypair \<Rightarrow> (io_err, string) outcome" where
  "encode_pem pl kp =
     (case kp of
        Ed25519 k \<Rightarrow>
          (let key = ed_encode pl k;
               buf = asn1_header @ take 32 key @ [0xA1, 0x23, 0x03, 0x21, 0x00] @ drop 32 key
           in Ok (pem_encode pl \<lparr>pem_tag = ''PRIVATE KEY'', pem_contents = buf\<rparr>))
      | OtherKeypair k \<Rightarrow> Panic (Explicit ''Unsupported key type''))"

text \<open>The mode \<open>0o600\<close>.\<close>

definition OWNER_ONLY :: nat where
  "OWNER_ONLY = 6 * 8 * 8"

definition save ::
  "pem_lib \<Rightarrow> 'f fs_lib \<Rightarrow> keypair \<Rightarrow> path \<Rightarrow> 'f \<Rightarrow> (io_err, unit) outcome \<times> 'f" where
  "save pl fs kp path f =
     and_then (encode_pem pl kp, f) (\<lambda>pem f.
     and_then (if path = [] \<or> path = [''/''] then (Panic UnwrapNone, f) else fs_create_dir_all fs (butlast path) f) (\<lambda>_ f.
     and_then (fs_create fs path f) (\<lambda>_ f.
     and_then (fs_write_all fs path pem f) (\<lambda>_ f.
     and_then (fs_sync_all fs path f) (\<lambda>_ f.
     and_then (fs_mode fs path f, f) (\<lambda>perms f.
     fs_set_permissions fs path OWNER_ONLY f))))))"

definition load :: "pem_lib \<Rightarrow> 'f fs_lib \<Rightarrow> path \<Rightarrow> 'f \<Rightarrow> (io_err, keypair) outcome" where
  "load pl fs path f =
     obind (fs_open fs path f) (\<lambda>_.
     obind (fs_read_to_string fs path f) (\<lambda>contents.
     obind (unwrap (pem_parse pl contents)) (\<lambda>parsed.
       if pem_tag parsed = ''PRIVATE KEY'' then
         (if length (pem_contents parsed) \<noteq> 85 then Err InvalidData
          else
            (let buf = take 32 (drop 16 (pem_contents parsed)) @ drop 53 (pem_contents parsed) in
             obind (unwrap (ed_decode pl buf)) (\<lambda>k. Ok (Ed25519 k))))
       else Panic (Explicit ''Unsupported key type''))))"

section \<open>The identity manager\<close>

record identity_manager =
  im_name :: string
  im_identity :: keypair
  im_dir :: path

definition im_default :: "nat \<Rightarrow> identity_manager" where
  "im_default generated = \<lparr>im_name = ''random'', im_identity = Ed25519 generated, im_dir = []\<rparr>"

definition im_current :: "identity_manager \<Rightarrow> keypair" where
  "im_current im = im_identity im"

definition key_path :: "path \<Rightarrow> string \<Rightarrow> path" where
  "key_path dir name = set_extension ''pem'' (join dir name)"

text \<open>\<open>generated\<close> is the key pair drawn by \<open>Keypair::generate_ed25519\<close>.\<close>

definition im_new ::
  "pem_lib \<Rightarrow> 'f fs_lib \<Rightarrow> nat \<Rightarrow> string \<Rightarrow> path \<Rightarrow> 'f \<Rightarrow> (io_err, identity_manager) outcome \<times> 'f" where
  "im_new pl fs generated name dir f =
     (let im = \<lparr>im_name = name, im_identity = Ed25519 generated, im_dir = dir\<rparr> in
      case save pl fs (im_identity im) (key_path dir name) f of
        (r, f') \<Rightarrow> (obind (unwrap r) (\<lambda>_. Ok im), f'))"

definition im_load ::
  "pem_lib \<Rightarrow> 'f fs_lib \<Rightarrow> string \<Rightarrow> path \<Rightarrow> 'f \<Rightarrow> (io_err, identity_manager option) outcome" where
  "im_load pl fs name dir f =
     (case load pl fs (key_path dir name) f of
        Ok k \<Rightarrow> Ok (Some \<lparr>im_name = name, im_identity = k, im_dir = dir\<rparr>)
      | Err e \<Rightarrow> Ok None
      | Panic x \<Rightarrow> Panic x)"

definition im_load_or_new ::
  "pem_lib \<Rightarrow> 'f fs_lib \<Rightarrow> nat \<Rightarrow> string \<Rightarrow> path \<Rightarrow> 'f \<Rightarrow> (io_err, identity_manager) outcome \<times> 'f" where
  "im_load_or_new pl fs generated name dir f =
     (case im_load pl fs name dir f of
        Ok (Some im) \<Rightarrow> (Ok im, f)
      | Ok None \<Rightarrow> im_new pl fs generated name dir f
      | Err e \<Rightarrow> (Err e, f)
      | Panic x \<Rightarrow> (Panic x, f))"

section \<open>The trait Identity\<close>

text \<open>
  What the manager relies on: a key that was saved is the key loaded from that path, in a file
  with the mode \<open>0o600\<close>.
\<close>

locale identity_trait =
  fixes good :: bool
    and save_key :: "'k \<Rightarrow> path \<Rightarrow> 'f \<Rightarrow> (io_err, unit) outcome \<times> 'f"
    and load_key :: "path \<Rightarrow> 'f \<Rightarrow> (io_err, 'k) outcome"
    and valid :: "'k \<Rightarrow> bool"
    and mode_of :: "path \<Rightarrow> 'f \<Rightarrow> nat option"
  assumes load_after_save: "good \<Longrightarrow> valid k \<Longrightarrow> save_key k p f = (Ok (), f') \<Longrightarrow> load_key p f' = Ok k"
    and mode_after_save: "good \<Longrightarrow> save_key k p f = (Ok (), f') \<Longrightarrow> mode_of p f' = Some OWNER_ONLY"
begin

text \<open>Loading the key at a path, or saving a new one there.\<close>

definition obtain_key :: "'k \<Rightarrow> path \<Rightarrow> 'f \<Rightarrow> (io_err, 'k) outcome \<times> 'f" where
  "obtain_key new p f =
     (case load_key p f of
        Ok k \<Rightarrow> (Ok k, f)
      | Err e \<Rightarrow> (case save_key new p f of (r, f') \<Rightarrow> (obind (unwrap r) (\<lambda>_. Ok new), f'))
      | Panic x \<Rightarrow> (Panic x, f))"

text \<open>A key obtained once is obtained again, whatever key would be drawn then.\<close>

lemma obtain_stable:
  assumes "good" and "valid new" and "obtain_key new p f = (Ok k, f')"
  shows "load_key p f' = Ok k" and "obtain_key new' p f' = (Ok k, f')"
proof -
  show l: "load_key p f' = Ok k"
    using assms load_after_save [OF assms(1,2)]
    by (auto simp: obtain_key_def outcome_simps split: outcome.splits prod.splits)
  then show "obtain_key new' p f' = (Ok k, f')" by (simp add: obtain_key_def)
qed

end

lemma pem_lib_okD:
  assumes "pem_lib_ok pl"
  shows "pem_parse pl (pem_encode pl x) = Ok x" and "ed_key k \<Longrightarrow> length (ed_encode pl k) = 64"
    and "ed_key k \<Longrightarrow> ed_decode pl (ed_encode pl k) = Ok k"
  using assms by (simp_all add: pem_lib_ok_def)

lemma save_Ok:
  assumes "pem_lib_ok pl" and "fs_ok fs look" and "save pl fs kp path f = (Ok (), f')"
  shows "\<exists>k s. kp = Ed25519 k \<and> encode_pem pl kp = Ok s \<and> look f' path = Some (s, OWNER_ONLY)"
proof -
  from assms(3) obtain s f1 f2 f3 f4 where s: "encode_pem pl kp = Ok s"
    and c: "fs_create fs path f1 = (Ok (), f2)" and w: "fs_write_all fs path s f2 = (Ok (), f3)"
    and y: "fs_sync_all fs path f3 = (Ok (), f4)" and p: "fs_set_permissions fs path OWNER_ONLY f4 = (Ok (), f')"
    by (auto simp: save_def and_then_Ok)
  from fs_okD(1) [OF assms(2) c] obtain m where "look f2 path = Some ([], m)" by blast
  from fs_okD(2) [OF assms(2) this w] have "look f4 path = Some (s, m)"
    by (simp add: fs_okD(3) [OF assms(2) y])
  from fs_okD(4) [OF assms(2) this p] have "look f' path = Some (s, OWNER_ONLY)" .
  with s show ?thesis by (cases kp) (auto simp: encode_pem_def)
qed

fun valid_keypair :: "keypair \<Rightarrow> bool" where
  "valid_keypair (Ed25519 k) = ed_key k"
| "valid_keypair (OtherKeypair k) = False"

lemma load_encoded:
  assumes "pem_lib_ok pl" and "fs_ok fs look" and "ed_key k" and "encode_pem pl (Ed25519 k) = Ok s"
    and "look f path = Some (s, m)"
  shows "load pl fs path f = Ok (Ed25519 k)"
proof -
  let ?key = "ed_encode pl k"
  let ?buf = "asn1_header @ take 32 ?key @ [0xA1, 0x23, 0x03, 0x21, 0x00] @ drop 32 ?key"
  have len: "length asn1_header = 16" by (simp add: asn1_header_def)
  have "length ?buf = 85" using len pem_lib_okD(2) [OF assms(1,3)] by simp
  moreover have "take 32 (drop 16 ?buf) @ drop 53 ?buf = ?key"
    using len pem_lib_okD(2) [OF assms(1,3)] by simp
  moreover have "pem_parse pl s = Ok \<lparr>pem_tag = ''PRIVATE KEY'', pem_contents = ?buf\<rparr>"
    using assms(4) by (auto simp: encode_pem_def Let_def pem_lib_okD [OF assms(1)])
  moreover have "fs_open fs path f = Ok ()" "fs_read_to_string fs path f = Ok s"
    using fs_okD(6,7) [OF assms(2), of path f] assms(5) by simp_all
  ultimately show ?thesis by (simp add: load_def Let_def pem_lib_okD [OF assms(1)] assms(3))
qed

interpretation kp: identity_trait "pem_lib_ok pl \<and> fs_ok fs look" "save pl fs" "load pl fs" valid_keypair
  "\<lambda>p f. map_option snd (look f p)"
  for pl fs look
proof (unfold_locales, goal_cases)
  case (1 k p f f')
  then obtain n t where "k = Ed25519 n" "encode_pem pl k = Ok t" "look f' p = Some (t, OWNER_ONLY)"
    using save_Ok [of pl fs look k p f f'] by blast
  with 1 show ?case using load_encoded [of pl fs look n t f' p] by simp
next
  case (2 k p f f')
  then show ?case using save_Ok [of pl fs look k p f f'] by auto
qed

section \<open>Concrete parameters\<close>

primrec le_bytes :: "nat \<Rightarrow> nat \<Rightarrow> bytes" where
  "le_bytes 0 k = []"
| "le_bytes (Suc n) k = word_of_nat (k mod 256) # le_bytes n (k div 256)"

primrec le_val :: "bytes \<Rightarrow> nat" where
  "le_val [] = 0"
| "le_val (b # bs) = unat b + 256 * le_val bs"

lemma le_val_le_bytes: "k < 256 ^ n \<Longrightarrow> le_val (le_bytes n k) = k"
proof (induction n arbitrary: k)
  case (Suc n)
  then have "k div 256 < 256 ^ n" by (simp add: less_mult_imp_div_less)
  with Suc.IH show ?case by (simp add: unat_of_nat take_bit_eq_mod)
qed simp

lemma length_le_bytes [simp]: "length (le_bytes n k) = n"
  by (induction n arbitrary: k) simp_all

definition plain_pem_lib :: pem_lib where
  "plain_pem_lib =
     \<lparr>pem_encode = (\<lambda>p. replicate (length (pem_tag p)) CHR ''x'' @ ''y'' @ pem_tag p @ bytes_to_string (pem_contents p)),
      pem_parse = (\<lambda>s. let n = length (takeWhile (\<lambda>c. c = CHR ''x'') s); r = drop (Suc n) s in
        Ok \<lparr>pem_tag = take n r, pem_contents = as_bytes (drop n r)\<rparr>),
      ed_encode = (\<lambda>k. le_bytes 32 k @ replicate 32 0), ed_decode = (\<lambda>b. Ok (le_val (take 32 b)))\<rparr>"

lemma plain_pem_lib_ok [simp]: "pem_lib_ok plain_pem_lib"
proof -
  have "takeWhile (\<lambda>c. c = CHR ''x'') (replicate n CHR ''x'' @ CHR ''y'' # s) = replicate n CHR ''x''" for n s
    by (induction n) simp_all
  then show ?thesis
    by (simp add: pem_lib_ok_def plain_pem_lib_def Let_def le_val_le_bytes ed_key_def)
qed

text \<open>The key path of a name depends only on what precedes the last dot.\<close>

lemma key_path_dotted:
  assumes "base \<noteq> []" and "CHR ''/'' \<notin> set base" and "CHR ''/'' \<notin> set x" and "CHR ''.'' \<notin> set x" and "x \<noteq> []"
  shows "key_path dir (base @ CHR ''.'' # x) = dir @ [base @ ''.pem'']"
proof -
  let ?n = "base @ CHR ''.'' # x"
  from assms(2,3) have "components ?n = [?n]"
    using assms(1) by (auto simp: components_def split_path_single Cons_eq_append_conv append_eq_Cons_conv)
  moreover from assms(1,2) have "take 1 ?n \<noteq> ''/''" by (cases base) auto
  ultimately have j: "join dir ?n = dir @ [?n]" by (simp add: join_def)
  have "?n \<noteq> ''/''" using assms(1) by (cases base) auto
  moreover have "?n \<noteq> ''..''" using assms(1,4,5) by (auto simp: append_eq_Cons_conv)
  ultimately show ?thesis
    using file_stem_dotted [OF assms(1,4)] by (simp add: key_path_def set_extension_def j)
qed

section \<open>Properties\<close>

lemma im_load_or_new_obtain:
  "im_load_or_new pl fs g name dir f =
   (case kp.obtain_key pl fs (Ed25519 g) (key_path dir name) f of
      (r, f') \<Rightarrow> (obind r (\<lambda>k. Ok \<lparr>im_name = name, im_identity = k, im_dir = dir\<rparr>), f'))"
  by (cases "load pl fs (key_path dir name) f"; cases "save pl fs (Ed25519 g) (key_path dir name) f")
    (auto simp: im_load_or_new_def im_load_def im_new_def kp.obtain_key_def Let_def obind_assoc)

text \<open>
  A key pair that was saved successfully is the one loaded from that path, and its file may be
  read and written by the owner only.
\<close>

theorem saved_key_loads:
  assumes "pem_lib_ok pl" and "fs_ok fs look" and "ed_key k"
    and "save pl fs (Ed25519 k) path f = (Ok (), f')"
  shows "load pl fs path f' = Ok (Ed25519 k) \<and> map_option snd (look f' path) = Some 0x180"
  using kp.load_after_save [OF _ _ assms(4), of look] kp.mode_after_save [OF _ assms(4), of look] assms(1-3)
  by (simp add: OWNER_ONLY_def)

theorem saved_key_loads_witness:
  "\<exists>f'. save plain_pem_lib mem_fs (Ed25519 77) [''keys'', ''default.pem''] Map.empty = (Ok (), f') \<and>
     load plain_pem_lib mem_fs [''keys'', ''default.pem''] f' = Ok (Ed25519 77)"
proof -
  obtain f' where s: "save plain_pem_lib mem_fs (Ed25519 77) [''keys'', ''default.pem''] Map.empty = (Ok (), f')"
    by (simp add: save_def and_then_def encode_pem_def Let_def mem_fs_def)
  have "ed_key 77" by (simp add: ed_key_def)
  from s saved_key_loads [OF plain_pem_lib_ok mem_fs_ok this s] show ?thesis by blast
qed

lemma im_load_or_new_again:
  assumes "pem_lib_ok pl" and "fs_ok fs look" and "ed_key g"
    and "im_load_or_new pl fs g name dir f = (Ok im, f')"
  shows "im_load_or_new pl fs g' name dir f' = (Ok im, f') \<and> im_load pl fs name dir f' = Ok (Some im)"
proof -
  from assms(4) obtain k where k: "kp.obtain_key pl fs (Ed25519 g) (key_path dir name) f = (Ok k, f')"
    and im: "im = \<lparr>im_name = name, im_identity = k, im_dir = dir\<rparr>"
    by (auto simp: im_load_or_new_obtain outcome_simps split: prod.splits)
  have good: "pem_lib_ok pl \<and> fs_ok fs look" "valid_keypair (Ed25519 g)" using assms(1-3) by simp_all
  note stable = kp.obtain_stable [OF good k]
  show ?thesis
    using stable(1) stable(2) [of "Ed25519 g'"] by (simp add: im_load_or_new_obtain im_load_def im)
qed

text \<open>
  The identity of a name is stable: what \<open>load_or_new\<close> returns once it returns on every later
  start from the same files, whatever key pair would be generated then, and it changes no file.
\<close>

theorem load_or_new_stable:
  assumes "pem_lib_ok pl" and "fs_ok fs look" and "ed_key g"
    and "im_load_or_new pl fs g name dir f = (Ok im, f')"
  shows "im_load_or_new pl fs g' name dir f' = (Ok im, f') \<and> im_load pl fs name dir f' = Ok (Some im)"
  by (rule im_load_or_new_again [OF assms])

theorem load_or_new_stable_witness:
  "\<exists>im f'. im_load_or_new plain_pem_lib mem_fs 5 ''default'' [''keys''] Map.empty = (Ok im, f') \<and>
     im_identity im = Ed25519 5 \<and> im_load_or_new plain_pem_lib mem_fs 6 ''default'' [''keys''] f' = (Ok im, f')"
proof -
  let ?r = "im_load_or_new plain_pem_lib mem_fs 5 ''default'' [''keys''] Map.empty"
  obtain im f' where r: "?r = (Ok im, f')" and i: "im_identity im = Ed25519 5"
    by (simp add: im_load_or_new_def im_load_def im_new_def load_def key_path_def join_def components_def
        set_extension_def file_stem_def save_def and_then_def encode_pem_def Let_def mem_fs_def)
  have "ed_key 5" by (simp add: ed_key_def)
  from r i load_or_new_stable [OF plain_pem_lib_ok mem_fs_ok this r] show ?thesis by blast
qed

text \<open>
  Names that differ only after their last dot share one key file: once an identity was created
  for one of them, loading the other returns the same key pair.
\<close>

theorem dotted_names_share_key:
  assumes "pem_lib_ok pl" and "fs_ok fs look" and "ed_key g"
    and "base \<noteq> []" and "CHR ''/'' \<notin> set (base @ x @ y)" and "CHR ''.'' \<notin> set (x @ y)"
    and "x \<noteq> []" and "y \<noteq> []"
    and "im_new pl fs g (base @ ''.'' @ x) dir f = (Ok im, f')"
  shows "im_load pl fs (base @ ''.'' @ y) dir f' =
    Ok (Some \<lparr>im_name = base @ ''.'' @ y, im_identity = Ed25519 g, im_dir = dir\<rparr>)"
proof -
  have kx: "key_path dir (base @ CHR ''.'' # x) = dir @ [base @ ''.pem'']"
    and ky: "key_path dir (base @ CHR ''.'' # y) = dir @ [base @ ''.pem'']"
    using assms(4-8) by (simp_all add: key_path_dotted)
  from assms(9) have "save pl fs (Ed25519 g) (dir @ [base @ ''.pem'']) f = (Ok (), f')"
    by (auto simp: im_new_def kx outcome_simps split: prod.splits)
  with kp.load_after_save [of pl fs look "Ed25519 g"] assms(1-3)
  have "load pl fs (dir @ [base @ ''.pem'']) f' = Ok (Ed25519 g)" by simp
  then show ?thesis by (simp add: im_load_def ky)
qed

theorem dotted_names_share_key_witness:
  "\<exists>f'. (\<exists>im. im_new plain_pem_lib mem_fs 5 ''node.a'' [''keys''] Map.empty = (Ok im, f')) \<and>
     im_load plain_pem_lib mem_fs ''node.b'' [''keys''] f' =
       Ok (Some \<lparr>im_name = ''node.b'', im_identity = Ed25519 5, im_dir = [''keys'']\<rparr>)"
proof -
  let ?r = "im_new plain_pem_lib mem_fs 5 (''node'' @ ''.'' @ ''a'') [''keys''] Map.empty"
  obtain im f' where r: "?r = (Ok im, f')"
    by (simp add: im_new_def key_path_def join_def components_def
        set_extension_def file_stem_def save_def and_then_def encode_pem_def Let_def mem_fs_def)
  have "ed_key 5" by (simp add: ed_key_def)
  from dotted_names_share_key [OF plain_pem_lib_ok mem_fs_ok this _ _ _ _ _ r, of "''b''"] r
  show ?thesis by auto
qed

text \<open>
  A key file with the right tag and the wrong length is treated like a missing one: the manager
  writes a new key over it.
\<close>

theorem damaged_key_replaced:
  assumes "pem_lib_ok pl" and "fs_ok fs look" and "ed_key g"
    and "look f (key_path dir name) = Some (pem_encode pl \<lparr>pem_tag = ''PRIVATE KEY'', pem_contents = b\<rparr>, m)"
    and "length b \<noteq> 85" and "im_load_or_new pl fs g name dir f = (Ok im, f')"
  shows "im_identity im = Ed25519 g \<and> load pl fs (key_path dir name) f' = Ok (Ed25519 g)"
proof -
  from assms(4,5) have "load pl fs (key_path dir name) f = Err InvalidData"
    by (simp add: load_def fs_okD(6,7) [OF assms(2)] pem_lib_okD [OF assms(1)])
  with assms(6) have "save pl fs (Ed25519 g) (key_path dir name) f = (Ok (), f')" and "im_identity im = Ed25519 g"
    by (auto simp: im_load_or_new_def im_load_def im_new_def outcome_simps split: prod.splits)
  with kp.load_after_save [of pl fs look "Ed25519 g"] assms(1-3) show ?thesis by simp
qed

theorem damaged_key_replaced_witness:
  "let t = pem_encode plain_pem_lib \<lparr>pem_tag = ''PRIVATE KEY'', pem_contents = [1, 2]\<rparr>;
       r = im_load_or_new plain_pem_lib mem_fs 5 ''n'' [''keys''] [[''keys'', ''n.pem''] \<mapsto> (t, 0)]
   in load plain_pem_lib mem_fs [''keys'', ''n.pem''] (snd r) = Ok (Ed25519 5)"
proof -
  let ?p = "pem_encode plain_pem_lib \<lparr>pem_tag = ''PRIVATE KEY'', pem_contents = [1, 2]\<rparr>"
  let ?f = "[[''keys'', ''n.pem''] \<mapsto> (?p, 0)]"
  have kp: "key_path [''keys''] ''n'' = [''keys'', ''n.pem'']"
    by (simp add: key_path_def join_def components_def set_extension_def file_stem_def)
  have "load plain_pem_lib mem_fs [''keys'', ''n.pem''] ?f = Err InvalidData"
    by (simp add: load_def mem_fs_def pem_lib_okD [OF plain_pem_lib_ok])
  then obtain im f' where r: "im_load_or_new plain_pem_lib mem_fs 5 ''n'' [''keys''] ?f = (Ok im, f')"
    by (simp add: im_load_or_new_def im_load_def im_new_def kp save_def and_then_def encode_pem_def Let_def
        mem_fs_def)
  have "ed_key 5" by (simp add: ed_key_def)
  from damaged_key_replaced [OF plain_pem_lib_ok mem_fs_ok this _ _ r] r show ?thesis by (simp add: kp Let_def)
qed

end
