(* ===== verification/Addresses.thy ===== *)
theory Addresses
  imports Ursa_Prelude
begin

text \<open>
  Numbers and socket addresses in text, as Rust's standard library prints and parses them: the
  servers and the gateway format and parse their addresses with it (\<open>format!\<close>, \<open>u16::from_str\<close>,
  \<open>Ipv4Addr::from_str\<close>, \<open>SocketAddr::from_str\<close>). Parsing multiplies and adds with checks at the width of
  the result. The lemmas show that parsing accepts exactly the numbers that fit and that it
  inverts printing.
\<close>

section \<open>Numbers\<close>

definition digit :: "nat \<Rightarrow> char" where
  "digit n = ''0123456789'' ! n"

function decimal :: "nat \<Rightarrow> string" where
  "decimal n = (if n < 10 then [digit n] else decimal (n div 10) @ [digit (n mod 10)])"
  by pat_completeness auto
termination by (relation "measure (\<lambda>n. n)") auto

declare decimal.simps [simp del]

definition to_digit :: "char \<Rightarrow> nat option" where
  "to_digit c = (let n = of_char c :: nat in if 48 \<le> n \<and> n \<le> 57 then Some (n - 48) else None)"

definition checked_mul :: "'a::len word \<Rightarrow> 'a word \<Rightarrow> 'a word option" where
  "checked_mul a b = (if unat a * unat b < 2 ^ LENGTH('a) then Some (a * b) else None)"

definition checked_add :: "'a::len word \<Rightarrow> 'a word \<Rightarrow> 'a word option" where
  "checked_add a b = (if unat a + unat b < 2 ^ LENGTH('a) then Some (a + b) else None)"

fun read_digits :: "'a::len word \<Rightarrow> string \<Rightarrow> 'a word option" where
  "read_digits acc [] = Some acc"
| "read_digits acc (c # cs) =
     Option.bind (to_digit c) (\<lambda>d.
     Option.bind (checked_mul acc 10) (\<lambda>m.
     Option.bind (checked_add m (of_nat d)) (\<lambda>r. read_digits r cs)))"

text \<open>\<open>u16::from_str\<close>: a sign is allowed, a sign alone is not.\<close>

fun parse_u16 :: "string \<Rightarrow> 16 word option" where
  "parse_u16 [] = None"
| "parse_u16 (c # cs) = (if c = CHR ''+'' then (if cs = [] then None else read_digits 0 cs) else read_digits 0 (c # cs))"

text \<open>The parsers return a \<open>Result\<close>; nothing looks at the error.\<close>

fun parsed :: "'a option \<Rightarrow> (unit, 'a) outcome" where
  "parsed (Some a) = Ok a"
| "parsed None = Err ()"

section \<open>Addresses\<close>

text \<open>One number of an IPv4 address: at most three digits and no leading zero.\<close>

definition parse_octet :: "string \<Rightarrow> 8 word option" where
  "parse_octet s =
     (if s = [] \<or> 3 < length s \<or> (1 < length s \<and> s ! 0 = CHR ''0'') then None else read_digits 0 s)"

fun split_on :: "char \<Rightarrow> string \<Rightarrow> string list" where
  "split_on x [] = [[]]"
| "split_on x (c # cs) =
     (if c = x then [] # split_on x cs
      else (case split_on x cs of [] \<Rightarrow> [[c]] | s # ss \<Rightarrow> (c # s) # ss))"

fun collect :: "'a option list \<Rightarrow> 'a list option" where
  "collect [] = Some []"
| "collect (x # xs) = Option.bind x (\<lambda>a. Option.bind (collect xs) (\<lambda>as. Some (a # as)))"

definition parse_ipv4 :: "string \<Rightarrow> 8 word list option" where
  "parse_ipv4 s = (let ps = split_on (CHR ''.'') s in if length ps = 4 then collect (map parse_octet ps) else None)"

fun join_dots :: "string list \<Rightarrow> string" where
  "join_dots [] = []"
| "join_dots [s] = s"
| "join_dots (s # ss) = s @ ''.'' @ join_dots ss"

definition show_ipv4 :: "8 word list \<Rightarrow> string" where
  "show_ipv4 ip = join_dots (map (\<lambda>b. decimal (unat b)) ip)"

type_synonym socket_addr = "8 word list \<times> 16 word"

text \<open>The port of a socket address has no sign.\<close>

definition parse_socket_v4 :: "string \<Rightarrow> socket_addr option" where
  "parse_socket_v4 s =
     Option.bind (parse_ipv4 (takeWhile (\<lambda>c. c \<noteq> CHR '':'') s)) (\<lambda>ip.
     (case dropWhile (\<lambda>c. c \<noteq> CHR '':'') s of
        c # d # ds \<Rightarrow> Option.bind (read_digits 0 (d # ds)) (\<lambda>p. Some (ip, p))
      | _ \<Rightarrow> None))"

text \<open>\<open>SocketAddr::from_str\<close> tries the IPv6 form when the IPv4 form does not parse; \<open>v6\<close> stands for it.\<close>

definition parse_socket_addr :: "(string \<Rightarrow> 'b option) \<Rightarrow> string \<Rightarrow> (socket_addr + 'b) option" where
  "parse_socket_addr v6 s =
     (case parse_socket_v4 s of Some a \<Rightarrow> Some (Inl a) | None \<Rightarrow> map_option Inr (v6 s))"

section \<open>Lemmas on numbers\<close>

fun digits_value :: "nat \<Rightarrow> string \<Rightarrow> nat" where
  "digits_value acc [] = acc"
| "digits_value acc (c # cs) = digits_value (10 * acc + the (to_digit c)) cs"

lemma digits_value_append: "digits_value acc (s @ t) = digits_value (digits_value acc s) t"
  by (induction s arbitrary: acc) simp_all

lemma digits_value_ge: "acc \<le> digits_value acc s"
proof (induction s arbitrary: acc)
  case (Cons c s)
  have "acc \<le> 10 * acc + the (to_digit c)" by simp
  also have "\<dots> \<le> digits_value (10 * acc + the (to_digit c)) s" by (rule Cons.IH)
  finally show ?case by simp
qed simp

lemma to_digit_less: "to_digit c = Some d \<Longrightarrow> d < 10"
  by (auto simp: to_digit_def Let_def split: if_splits)

lemma checked_mul_Some:
  "checked_mul a b = Some (r :: 'a::len word) \<longleftrightarrow> unat a * unat b < 2 ^ LENGTH('a) \<and> unat r = unat a * unat b"
  by (auto simp: checked_mul_def unat_word_ariths word_unat_eq_iff)

lemma checked_add_Some:
  "checked_add a b = Some (r :: 'a::len word) \<longleftrightarrow> unat a + unat b < 2 ^ LENGTH('a) \<and> unat r = unat a + unat b"
  by (auto simp: checked_add_def unat_word_ariths word_unat_eq_iff)

lemma read_digits_Some:
  fixes acc :: "'a::len word"
  assumes "10 < (2 :: nat) ^ LENGTH('a)"
  shows "read_digits acc s = Some w \<longleftrightarrow>
    None \<notin> to_digit ` set s \<and> digits_value (unat acc) s < 2 ^ LENGTH('a) \<and> unat w = digits_value (unat acc) s"
proof (induction s arbitrary: acc)
  case Nil
  show ?case by (auto simp: unsigned_less word_unat_eq_iff)
next
  case (Cons c s)
  have ten: "unat (10 :: 'a word) = 10" using assms by (simp add: unat_numeral take_bit_nat_eq_self)
  show ?case
  proof (cases "to_digit c")
    case (Some d)
    then have d: "unat (of_nat d :: 'a word) = d"
      using to_digit_less [OF Some] assms by (simp add: unat_of_nat)
    have le: "10 * unat acc + d \<le> digits_value (10 * unat acc + d) s" by (rule digits_value_ge)
    show ?thesis
    proof (cases "10 * unat acc + d < 2 ^ LENGTH('a)")
      case True
      then have mul: "unat acc * unat (10 :: 'a word) < 2 ^ LENGTH('a)" unfolding ten by linarith
      then obtain m where m: "checked_mul acc 10 = Some m" by (simp add: checked_mul_def)
      then have mu: "unat m = 10 * unat acc" unfolding checked_mul_Some ten by linarith
      with True obtain r where r: "checked_add m (of_nat d) = Some r" by (simp add: checked_add_def d)
      then have ru: "unat r = 10 * unat acc + d" by (simp add: checked_add_Some d mu)
      show ?thesis using Cons.IH [of r] by (simp add: Some m r ru)
    next
      case False
      have "read_digits acc (c # s) = None"
      proof (cases "checked_mul acc 10")
        case (Some m)
        then have "unat m = 10 * unat acc" unfolding checked_mul_Some ten by linarith
        then have "checked_add m (of_nat d) = None" using False by (simp add: checked_add_def d)
        with Some show ?thesis using \<open>to_digit c = Some d\<close> by simp
      qed (simp add: Some)
      then show ?thesis using False le by (auto simp: Some)
    qed
  qed auto
qed

lemma to_digit_digit: "n < 10 \<Longrightarrow> to_digit (digit n) = Some n"
  by (auto simp: numeral_eq_Suc less_Suc_eq digit_def to_digit_def)

lemma decimal_value [simp]: "digits_value 0 (decimal n) = n"
proof (induction n rule: decimal.induct)
  case (1 n)
  show ?case by (cases "n < 10") (simp_all add: decimal.simps [of n] 1 digits_value_append to_digit_digit)
qed

lemma decimal_digits: "c \<in> set (decimal n) \<Longrightarrow> \<exists>d. to_digit c = Some d"
proof (induction n rule: decimal.induct)
  case (1 n)
  then show ?case by (cases "n < 10") (auto simp: decimal.simps [of n] to_digit_digit)
qed

lemma decimal_all_digits: "None \<notin> to_digit ` set (decimal n)"
  using decimal_digits by fastforce

lemma decimal_nonempty [simp]: "decimal n \<noteq> []"
  by (simp add: decimal.simps [of n])

lemma decimal_no: "to_digit x = None \<Longrightarrow> x \<notin> set (decimal n)"
  using decimal_digits by fastforce

lemma decimal_no_leading_zero: "0 < n \<Longrightarrow> decimal n ! 0 \<noteq> CHR ''0''"
proof (induction n rule: decimal.induct)
  case (1 n)
  show ?case
  proof (cases "n < 10")
    case True
    with to_digit_digit [OF True] 1(2) show ?thesis by (auto simp: decimal.simps [of n] to_digit_def)
  next
    case False
    then have "0 < n div 10" by (simp add: div_greater_zero_iff)
    with 1(1) False show ?thesis by (simp add: decimal.simps [of n] nth_append)
  qed
qed

lemma decimal_length_le:
  assumes "n < 10 ^ k" and "0 < k"
  shows "length (decimal n) \<le> k"
  using assms
proof (induction k arbitrary: n)
  case (Suc k)
  show ?case
  proof (cases "n < 10")
    case False
    with Suc.prems have "n div 10 < 10 ^ k" "0 < k"
      by (auto simp: less_mult_imp_div_less mult.commute intro: gr0I)
    with Suc.IH [of "n div 10"] False show ?thesis by (simp add: decimal.simps [of n])
  qed (simp add: decimal.simps [of n])
qed simp

section \<open>Lemmas on addresses\<close>

lemma parse_u16_Some:
  "parse_u16 s = Some w \<longleftrightarrow> (\<exists>ds. (s = ds \<or> s = CHR ''+'' # ds) \<and> ds \<noteq> [] \<and>
     None \<notin> to_digit ` set ds \<and> digits_value 0 ds < 2 ^ 16 \<and> unat w = digits_value 0 ds)"
  (is "?lhs \<longleftrightarrow> ?rhs")
proof -
  have plus: "to_digit (CHR ''+'') = None" by (simp add: to_digit_def)
  note rd = read_digits_Some [where 'a = 16, of 0]
  show ?thesis
  proof (cases s)
    case (Cons c cs)
    show ?thesis
    proof (cases "c = CHR ''+''")
      case True
      have "?rhs \<longleftrightarrow> cs \<noteq> [] \<and> None \<notin> to_digit ` set cs \<and> digits_value 0 cs < 2 ^ 16 \<and> unat w = digits_value 0 cs"
        (is "_ \<longleftrightarrow> ?r")
      proof
        assume ?rhs
        then obtain ds where "s = ds \<or> s = CHR ''+'' # ds" and ds: "ds \<noteq> []" "None \<notin> to_digit ` set ds"
          "digits_value 0 ds < 2 ^ 16" "unat w = digits_value 0 ds" by (elim exE conjE)
        then have "ds = cs" using Cons True plus by auto
        with ds show ?r by simp
      qed (use Cons True in blast)
      then show ?thesis using Cons True rd [of cs w] by simp
    next
      case False
      with Cons rd [of s w] show ?thesis by auto
    qed
  qed simp
qed

lemma parse_u16_decimal: "parse_u16 (decimal (unat (w :: 16 word))) = Some w"
  unfolding parse_u16_Some
  by (rule exI [of _ "decimal (unat w)"]) (use unsigned_less [of w] decimal_all_digits in simp)

lemma parse_octet_decimal: "parse_octet (decimal (unat (b :: 8 word))) = Some b"
proof -
  have b: "unat b < 256" using unsigned_less [of b] by simp
  have "length (decimal (unat b)) \<le> 3" using b by (intro decimal_length_le) simp_all
  moreover have "decimal (unat b) ! 0 = CHR ''0'' \<Longrightarrow> length (decimal (unat b)) \<le> 1"
    using decimal_no_leading_zero [of "unat b"] by (cases "unat b") (auto simp: decimal.simps [of 0])
  moreover have "read_digits 0 (decimal (unat b)) = Some b"
    using read_digits_Some [where 'a = 8, of 0 "decimal (unat b)" b] b decimal_all_digits by simp
  ultimately show ?thesis by (auto simp: parse_octet_def)
qed

lemma split_on_plain: "x \<notin> set s \<Longrightarrow> split_on x s = [s]"
  by (induction s) auto

lemma split_on_append: "x \<notin> set s \<Longrightarrow> split_on x (s @ x # t) = s # split_on x t"
  by (induction s) auto

lemma split_on_join:
  assumes "ss \<noteq> []" and "\<And>s. s \<in> set ss \<Longrightarrow> CHR ''.'' \<notin> set s"
  shows "split_on (CHR ''.'') (join_dots ss) = ss"
  using assms by (induction ss rule: join_dots.induct) (simp_all add: split_on_plain split_on_append)

lemma parse_show_ipv4:
  assumes "length ip = 4"
  shows "parse_ipv4 (show_ipv4 ip) = Some ip"
proof -
  have dot: "to_digit (CHR ''.'') = None" by (simp add: to_digit_def)
  have "split_on (CHR ''.'') (show_ipv4 ip) = map (\<lambda>b. decimal (unat b)) ip"
    unfolding show_ipv4_def using assms decimal_no [OF dot] by (intro split_on_join) auto
  moreover have "collect (map (parse_octet \<circ> (\<lambda>b. decimal (unat b))) xs) = Some xs" for xs
    by (induction xs) (simp_all add: parse_octet_decimal)
  ultimately show ?thesis using assms by (simp add: parse_ipv4_def)
qed

lemma show_ipv4_no:
  assumes "to_digit x = None" and "x \<noteq> CHR ''.''"
  shows "x \<notin> set (show_ipv4 ip)"
proof -
  have "\<forall>s\<in>set ss. x \<notin> set s \<Longrightarrow> x \<notin> set (join_dots ss)" for ss
    using assms(2) by (induction ss rule: join_dots.induct) auto
  then show ?thesis by (simp add: show_ipv4_def decimal_no [OF assms(1)])
qed

lemma show_ipv4_no_colon: "CHR '':'' \<notin> set (show_ipv4 ip)"
  by (rule show_ipv4_no) (simp_all add: to_digit_def)

lemma cut_at:
  assumes "x \<notin> set t"
  shows "takeWhile (\<lambda>c. c \<noteq> x) (t @ x # u) = t" and "dropWhile (\<lambda>c. c \<noteq> x) (t @ x # u) = x # u"
  using assms by (induction t) auto

lemma parse_socket_v4_show:
  assumes "length ip = 4"
  shows "parse_socket_v4 (show_ipv4 ip @ '':'' @ decimal (unat p)) = Some (ip, p)"
proof -
  have "read_digits 0 (decimal (unat p)) = Some p"
    using read_digits_Some [where 'a = 16, of 0 "decimal (unat p)" p] unsigned_less [of p] decimal_all_digits by simp
  moreover note cut = cut_at [OF show_ipv4_no_colon [of ip]]
  moreover obtain d ds where "decimal (unat p) = d # ds" by (cases "decimal (unat p)") auto
  ultimately show ?thesis
    by (simp add: parse_socket_v4_def parse_show_ipv4 [OF assms] cut del: read_digits.simps)
qed

section \<open>Exactness\<close>

text \<open>A number without a leading zero is what printing its value gives.\<close>

lemma to_digit_Some: "to_digit c = Some d \<longleftrightarrow> d < 10 \<and> c = digit d"
proof
  assume c: "to_digit c = Some d"
  then have n: "(of_char c :: nat) = d + 48" "d < 10" by (auto simp: to_digit_def Let_def split: if_splits)
  have "(of_char (digit d) :: nat) = d + 48"
    using to_digit_digit [OF n(2)] by (auto simp: to_digit_def Let_def split: if_splits)
  with n have "(of_char c :: nat) = of_char (digit d)" by simp
  then show "d < 10 \<and> c = digit d" using n(2) by (simp add: of_char_eq_iff)
qed (simp add: to_digit_digit)

lemma digits_value_pos:
  assumes "s \<noteq> []" and "s ! 0 \<noteq> CHR ''0''" and "None \<notin> to_digit ` set s"
  shows "0 < digits_value 0 s"
proof -
  obtain c cs where s: "s = c # cs" using assms(1) by (cases s) auto
  with assms(3) obtain d where d: "to_digit c = Some d" by (cases "to_digit c") auto
  have "digit 0 = CHR ''0''" by (simp add: digit_def)
  with d assms(2) have "0 < d" by (cases d) (auto simp: s to_digit_Some)
  also have "d \<le> digits_value d cs" by (rule digits_value_ge)
  finally show ?thesis by (simp add: s d)
qed

lemma decimal_digits_value:
  assumes "s \<noteq> []" and "1 < length s \<Longrightarrow> s ! 0 \<noteq> CHR ''0''" and "None \<notin> to_digit ` set s"
  shows "decimal (digits_value 0 s) = s"
  using assms
proof (induction s rule: rev_induct)
  case (snoc c s)
  then obtain d where d: "to_digit c = Some d" "d < 10" "c = digit d"
    by (cases "to_digit c") (auto simp: to_digit_Some)
  show ?case
  proof (cases "s = []")
    case True
    with d show ?thesis by (simp add: decimal.simps [of d])
  next
    case False
    with snoc.prems have h: "s ! 0 \<noteq> CHR ''0''" "None \<notin> to_digit ` set s" by (auto simp: nth_append)
    with digits_value_pos False have "0 < digits_value 0 s" by blast
    moreover have "decimal (digits_value 0 s) = s" using snoc.IH False h by blast
    ultimately show ?thesis
      using d by (simp add: digits_value_append decimal.simps [of "10 * digits_value 0 s + d"])
  qed
qed simp

lemma parse_octet_Some: "parse_octet s = Some b \<longleftrightarrow> s = decimal (unat b)"
proof
  assume p: "parse_octet s = Some b"
  then have "s \<noteq> []" "1 < length s \<Longrightarrow> s ! 0 \<noteq> CHR ''0''" "read_digits 0 s = Some b"
    by (auto simp: parse_octet_def split: if_splits)
  with read_digits_Some [where 'a = 8, of 0 s b] decimal_digits_value [of s] show "s = decimal (unat b)" by simp
qed (simp add: parse_octet_decimal)

lemma collect_Some: "collect (map f xs) = Some ys \<longleftrightarrow> list_all2 (\<lambda>x y. f x = Some y) xs ys"
  by (induction xs arbitrary: ys) (auto simp: bind_eq_Some_conv list_all2_Cons1)

lemma join_split_on: "join_dots (split_on (CHR ''.'') s) = s"
proof (induction s)
  case (Cons c s)
  then show ?case
    by (cases "split_on (CHR ''.'') s" rule: join_dots.cases) auto
qed simp

lemma parse_ipv4_Some: "parse_ipv4 s = Some ip \<longleftrightarrow> length ip = 4 \<and> s = show_ipv4 ip"
proof
  let ?ps = "split_on (CHR ''.'') s"
  assume "parse_ipv4 s = Some ip"
  then have n: "length ?ps = 4" and a: "list_all2 (\<lambda>x y. parse_octet x = Some y) ?ps ip"
    by (auto simp: parse_ipv4_def Let_def collect_Some split: if_splits)
  from a have "?ps = map (\<lambda>b. decimal (unat b)) ip"
    by (induction rule: list_all2_induct) (simp_all add: parse_octet_Some)
  with n list_all2_lengthD [OF a] join_split_on [of s] show "length ip = 4 \<and> s = show_ipv4 ip"
    by (simp add: show_ipv4_def)
qed (simp add: parse_show_ipv4)

lemma parse_socket_v4_parts:
  assumes "parse_socket_v4 s = Some (ip, q)"
  shows "\<exists>c d ds. parse_ipv4 (takeWhile (\<lambda>c. c \<noteq> CHR '':'') s) = Some ip \<and>
    dropWhile (\<lambda>c. c \<noteq> CHR '':'') s = c # d # ds \<and> read_digits 0 (d # ds) = Some q"
proof -
  obtain r where r: "dropWhile (\<lambda>c. c \<noteq> CHR '':'') s = r" by blast
  show ?thesis
  proof (cases r)
    case (Cons c t)
    with assms r show ?thesis
      by (cases t) (auto simp: parse_socket_v4_def bind_eq_Some_conv simp del: read_digits.simps)
  qed (use assms r in \<open>simp add: parse_socket_v4_def bind_eq_Some_conv\<close>)
qed

lemma parse_socket_v4_formatted:
  "parse_socket_v4 (a @ '':'' @ decimal (unat p)) = Some (ip, q) \<longleftrightarrow> length ip = 4 \<and> a = show_ipv4 ip \<and> q = p"
proof
  let ?P = "\<lambda>c. c \<noteq> CHR '':''"
  let ?s = "a @ '':'' @ decimal (unat p)"
  assume s: "parse_socket_v4 ?s = Some (ip, q)"
  then obtain c d ds where ip: "parse_ipv4 (takeWhile ?P ?s) = Some ip" and dw: "dropWhile ?P ?s = c # d # ds"
    and q: "read_digits 0 (d # ds) = Some q"
    using parse_socket_v4_parts by blast
  have colon: "to_digit (CHR '':'') = None" by (simp add: to_digit_def)
  have "CHR '':'' \<notin> set a"
  proof
    assume "CHR '':'' \<in> set a"
    then obtain t u where a: "a = t @ CHR '':'' # u" "CHR '':'' \<notin> set t" by (meson split_list_first)
    then have "dropWhile ?P ?s = CHR '':'' # u @ '':'' @ decimal (unat p)" by (simp add: cut_at)
    with dw have "CHR '':'' \<in> set (d # ds)" by (cases u) auto
    then have "None \<in> to_digit ` set (d # ds)" using colon by (metis imageI)
    with q read_digits_Some [where 'a = 16, of 0 "d # ds" q] show False by simp
  qed
  then have "takeWhile ?P ?s = a" by (simp add: cut_at)
  with ip have a: "length ip = 4" "a = show_ipv4 ip" by (simp_all add: parse_ipv4_Some)
  with s parse_socket_v4_show [of ip p] show "length ip = 4 \<and> a = show_ipv4 ip \<and> q = p" by simp
qed (use parse_socket_v4_show in blast)

end
