(* ===== verification/Servers.thy ===== *)
theory Servers
  imports Addresses Index_Provider
begin

text \<open>
  The HTTP servers besides the RPC server: the metrics server (\<open>ursa-metrics/src/metrics.rs\<close>,
  \<open>config.rs\<close>), the server of the index provider (\<open>Provider::start\<close> in
  \<open>ursa-index-provider/src/provider.rs\<close>) and the gateway (\<open>ursa-gateway/src\<close>). Each \<open>start\<close> is what it binds:
  the address and the route table; binding a socket and serving is left out. The axum router, the
  metrics recorder, TLS, the URI type and the HTTP client are parameters.

  The lemmas show which configurations bind an address, that an indexer reads the whole
  published chain over HTTP, and what the gateway forwards.
\<close>

section \<open>Metrics server\<close>

definition DEFAULT_METRICS_PORT :: string where
  "DEFAULT_METRICS_PORT = ''4070''"

definition DEFAULT_API_PATH :: string where
  "DEFAULT_API_PATH = ''/metrics''"

record metrics_service_config =
  met_port :: string
  met_api_path :: string

definition metrics_service_config_default :: metrics_service_config where
  "metrics_service_config_default = \<lparr>met_port = DEFAULT_METRICS_PORT, met_api_path = DEFAULT_API_PATH\<rparr>"

datatype metrics_route = PingRoute | RenderRoute

definition get_ping_handler :: "nat \<times> string" where
  "get_ping_handler = (200, ''pong'')"

definition get_metrics_handler :: "nat \<times> string" where
  "get_metrics_handler = (200, ''/metrics handler'')"

text \<open>\<open>install\<close> is the result of installing the Prometheus recorder, which fails when there is one already.\<close>

definition setup_metrics_handler :: "(string, unit) outcome \<Rightarrow> unit result" where
  "setup_metrics_handler install = unwrap install"

definition metrics_start ::
  "(string, unit) outcome \<Rightarrow> metrics_service_config \<Rightarrow> (socket_addr \<times> (string \<times> metrics_route) list) result" where
  "metrics_start install conf =
     obind (setup_metrics_handler install) (\<lambda>prometheus_handler.
     let router = [(''/ping'', PingRoute), (met_api_path conf, RenderRoute)] in
     obind (unwrap (parsed (parse_u16 (met_port conf)))) (\<lambda>port.
     Ok (([0, 0, 0, 0], port), router)))"

section \<open>Server of the index provider\<close>

datatype provider_route = HeadRoute | BlockRoute

definition provider_routes :: "(string \<times> provider_route) list" where
  "provider_routes = [(''/head'', HeadRoute), (''/:cid'', BlockRoute)]"

definition provider_start ::
  "(string \<Rightarrow> 'b option) \<Rightarrow> provider_config \<Rightarrow>
   ((socket_addr + 'b) \<times> (string \<times> provider_route) list) result" where
  "provider_start v6 config =
     obind (unwrap (parsed (parse_socket_addr v6 (local_address config @ '':'' @ decimal (unat (port config)))))) (\<lambda>address.
     Ok (address, provider_routes))"

datatype provider_response = HttpJson signed_head | HttpBytes bytes | HttpStatus nat | HttpAborted

fun respond :: "('a \<Rightarrow> provider_response) \<Rightarrow> (provider_error, 'a) outcome \<Rightarrow> provider_response" where
  "respond f (Ok a) = f a"
| "respond f (Err e) = HttpStatus (provider_error_status e)"
| "respond f (Panic x) = HttpAborted"

text \<open>
  \<open>route\<close> is the axum router: it finds the handler for the path of a GET request, with the value of
  the path parameter.
\<close>

definition provider_service ::
  "((string \<times> provider_route) list \<Rightarrow> string \<Rightarrow> (provider_route \<times> string) option) \<Rightarrow> cid_lib \<Rightarrow> key_lib \<Rightarrow>
   's obj_store \<Rightarrow> 's provider \<Rightarrow> string \<Rightarrow> provider_response" where
  "provider_service route cl kl os p path =
     (case route provider_routes path of
        Some (HeadRoute, _) \<Rightarrow> respond HttpJson (head_handler cl kl p)
      | Some (BlockRoute, cid) \<Rightarrow> respond HttpBytes (get_block_handler cl os p cid)
      | None \<Rightarrow> HttpStatus 404)"

text \<open>
  Documented behaviour of the router and the CID library: a static path wins over a parameter, a
  parameter is one non-empty segment; the text of a CID is such a segment and not \<open>head\<close>.
\<close>

definition segment :: "string \<Rightarrow> bool" where
  "segment s \<longleftrightarrow> s \<noteq> [] \<and> CHR ''/'' \<notin> set s"

definition router_ok ::
  "((string \<times> provider_route) list \<Rightarrow> string \<Rightarrow> (provider_route \<times> string) option) \<Rightarrow> bool" where
  "router_ok route \<longleftrightarrow>
     (\<exists>x. route provider_routes ''/head'' = Some (HeadRoute, x)) \<and>
     (\<forall>s. segment s \<and> s \<noteq> ''head'' \<longrightarrow> route provider_routes (''/'' @ s) = Some (BlockRoute, s))"

definition cid_segments :: "cid_lib \<Rightarrow> bool" where
  "cid_segments cl \<longleftrightarrow> (\<forall>c. segment (cid_to_string cl c) \<and> cid_to_string cl c \<noteq> ''head'')"

text \<open>\<open>get_obj\<close> decodes what \<open>get_bytes\<close> returns.\<close>

definition obj_codec_ok :: "'s obj_store \<Rightarrow> (bytes \<Rightarrow> obj option) \<Rightarrow> 's \<Rightarrow> bool" where
  "obj_codec_ok os dec s \<longleftrightarrow>
     (\<forall>c v. get_obj os s c = Some v \<longrightarrow> (\<exists>b. get_bytes os s c = Ok (Some b) \<and> dec b = Some v))"

text \<open>What an indexer finds under a CID: it requests the block and decodes the body.\<close>

definition http_look ::
  "((string \<times> provider_route) list \<Rightarrow> string \<Rightarrow> (provider_route \<times> string) option) \<Rightarrow> cid_lib \<Rightarrow> key_lib \<Rightarrow>
   's obj_store \<Rightarrow> (bytes \<Rightarrow> obj option) \<Rightarrow> 's provider \<Rightarrow> cid \<Rightarrow> obj option" where
  "http_look route cl kl os dec p c =
     (case provider_service route cl kl os p (''/'' @ cid_to_string cl c) of HttpBytes b \<Rightarrow> dec b | _ \<Rightarrow> None)"

section \<open>Gateway\<close>

record gw_server_config =
  gw_port :: "16 word"
  gw_addr :: string

record cert_config =
  cert_path :: string
  cert_key_path :: string

record gateway_config =
  gw_server :: gw_server_config
  reverse_proxy :: gw_server_config
  gw_cert_config :: cert_config

definition gateway_config_default :: gateway_config where
  "gateway_config_default =
     \<lparr>gw_server = \<lparr>gw_port = 3000, gw_addr = ''0.0.0.0''\<rparr>,
      reverse_proxy = \<lparr>gw_port = 4000, gw_addr = ''0.0.0.0''\<rparr>,
      gw_cert_config =
        \<lparr>cert_path = ''./crates/ursa-gateway/self_signed_certs/cert.pem'',
         cert_key_path = ''./crates/ursa-gateway/self_signed_certs/key.pem''\<rparr>\<rparr>"

definition gateway_address :: "gw_server_config \<Rightarrow> socket_addr result" where
  "gateway_address c = obind (unwrap (parsed (parse_ipv4 (gw_addr c)))) (\<lambda>ip. Ok (ip, gw_port c))"

text \<open>The task that answers every request with a greeting: its address and its one route.\<close>

definition gateway_server :: "gateway_config \<Rightarrow> (socket_addr \<times> (string \<times> string) list) result" where
  "gateway_server config =
     (let app = [(''/'', ''Hello, world!'')] in
      obind (gateway_address (gw_server config)) (\<lambda>addr. Ok (addr, app)))"

text \<open>The reverse proxy; \<open>from_pem_file\<close> reads the certificate and the key.\<close>

definition gateway_main :: "(string \<Rightarrow> string \<Rightarrow> (string, 't) outcome) \<Rightarrow> ('t \<times> socket_addr \<times> string list) result" where
  "gateway_main from_pem_file =
     (let config = gateway_config_default in
      obind (unwrap (from_pem_file (cert_path (gw_cert_config config)) (cert_key_path (gw_cert_config config)))) (\<lambda>rustls_config.
      let app = [''/''] in
      obind (gateway_address (reverse_proxy config)) (\<lambda>addr.
      Ok (rustls_config, addr, app))))"

record 'u uri_lib =
  uri_path :: "'u \<Rightarrow> string"
  uri_path_and_query :: "'u \<Rightarrow> string option"
  uri_try_from :: "string \<Rightarrow> (string, 'u) outcome"

text \<open>A request is its URI and the rest (method, headers, body), which the gateway does not look at.\<close>

record ('u, 'b) http_request =
  req_uri :: 'u
  req_rest :: 'b

definition gateway_handler ::
  "'u uri_lib \<Rightarrow> (('u, 'b) http_request \<Rightarrow> (string, 'r) outcome) \<Rightarrow> gateway_config \<Rightarrow> ('u, 'b) http_request \<Rightarrow>
   'r result" where
  "gateway_handler ul client config req =
     (let path = uri_path ul (req_uri req);
          path_query = (case uri_path_and_query ul (req_uri req) of Some v \<Rightarrow> v | None \<Rightarrow> path);
          uri = ''http://'' @ gw_addr (gw_server config) @ '':'' @ decimal (unat (gw_port (gw_server config))) @ path_query in
      obind (unwrap (uri_try_from ul uri)) (\<lambda>u.
      unwrap (client (req\<lparr>req_uri := u\<rparr>))))"

section \<open>Lemmas\<close>

lemma unwrap_parsed: "unwrap (parsed r) = (case r of Some a \<Rightarrow> Ok a | None \<Rightarrow> Panic UnwrapErr)"
  by (cases r) simp_all

lemma get_block_served:
  assumes "cid_lib_ok cl" and "router_ok route" and "cid_segments cl" and "obj_codec_ok os dec (blockstore p)"
    and "get_obj os (blockstore p) c = Some v"
  shows "http_look route cl kl os dec p c = Some v"
proof -
  obtain b where b: "get_bytes os (blockstore p) c = Ok (Some b)" "dec b = Some v"
    using assms(4,5) unfolding obj_codec_ok_def by blast
  have "route provider_routes (''/'' @ cid_to_string cl c) = Some (BlockRoute, cid_to_string cl c)"
    using assms(2,3) by (simp add: router_ok_def cid_segments_def)
  moreover have "cid_from_str cl (cid_to_string cl c) = Some c" using assms(1) unfolding cid_lib_ok_def by blast
  ultimately show ?thesis by (simp add: http_look_def provider_service_def get_block_handler_def b)
qed

lemma served_chain:
  assumes "cid_lib_ok cl" and "key_lib_ok kl" and "router_ok route" and "cid_segments cl"
    and "obj_codec_ok os dec (blockstore p)" and "published al os p adss"
    and "provider_service route cl kl os p ''/head'' = HttpJson sh"
  shows "\<exists>c. signed_head_open cl kl sh = Ok (key_public kl (prov_keypair p), c) \<and>
    ad_chain al (http_look route cl kl os dec p) (Some c) adss"
proof -
  from assms(3) obtain x where "route provider_routes ''/head'' = Some (HeadRoute, x)"
    unfolding router_ok_def by blast
  with assms(7) have "head_handler cl kl p = Ok sh"
    by (cases "head_handler cl kl p") (simp_all add: provider_service_def)
  then obtain c where c: "head p = Some c" "signed_head_new cl kl (prov_keypair p) c = Ok sh"
    by (auto simp: head_handler_def outcome_simps split: option.splits)
  have "ad_chain al (http_look route cl kl os dec p) (Some c) adss"
    using assms(6) get_block_served [OF assms(1,3,4,5)] unfolding published_def c(1)
    by (rule ad_chain_mono)
  with signed_head_new_open [OF assms(2) c(2)] show ?thesis by blast
qed

section \<open>Properties\<close>

text \<open>
  C9. An indexer reads the whole chain over HTTP: the signed head that \<open>/head\<close> serves opens with the
  provider's key to a CID from which, by requesting one block after the other, exactly the published
  advertisements with their entries are found.
\<close>

theorem indexer_reads_chain:
  assumes "cid_lib_ok cl" and "key_lib_ok kl" and "router_ok route" and "cid_segments cl"
    and "obj_codec_ok os dec (blockstore p)" and "published al os p adss"
    and "provider_service route cl kl os p ''/head'' = HttpJson sh"
  shows "\<exists>c. signed_head_open cl kl sh = Ok (key_public kl (prov_keypair p), c) \<and>
    ad_chain al (http_look route cl kl os dec p) (Some c) adss"
  using assms by (rule served_chain)

text \<open>A router and a decoder, for closed instances.\<close>

definition plain_router :: "(string \<times> provider_route) list \<Rightarrow> string \<Rightarrow> (provider_route \<times> string) option" where
  "plain_router t s =
     (if s = ''/head'' then Some (HeadRoute, []) else if s \<noteq> [] \<and> segment (List.tl s) then Some (BlockRoute, List.tl s) else None)"

lemma unary_cid_segments [simp]: "cid_segments unary_cid_lib"
  by (auto simp: cid_segments_def segment_def unary_cid_lib_def split: cid.splits)

lemma plain_router_ok [simp]: "router_ok plain_router"
  by (simp add: router_ok_def plain_router_def segment_def)

definition decode_in :: "obj list \<Rightarrow> bytes \<Rightarrow> obj option" where
  "decode_in s b = (case b of [w] \<Rightarrow> if unat w < length s then Some (s ! unat w) else None | _ \<Rightarrow> None)"

lemma list_obj_codec_ok:
  assumes "length s \<le> 256"
  shows "obj_codec_ok list_obj_store (decode_in s) s"
proof -
  have "unat (of_nat n :: byte) = n" if "n < length s" for n
    using that assms by (simp add: unat_of_nat)
  then show ?thesis
    by (auto simp: obj_codec_ok_def list_obj_store_def decode_in_def split: cid.splits if_splits)
qed

lemma list_publish:
  "\<exists>p. publish unary_cid_lib plain_ad_lib list_obj_store 1 loaded_provider = (Ok (), p) \<and> length (blockstore p) = 1 \<and>
     prov_keypair p = Ed25519 3 \<and> head p = Some (Cid 0)"
  by (simp add: publish_def loaded_provider_def create_def fresh_provider_def provider_new_def
      plain_ad_def sign_def sig_payload_def link_bytes_def plain_ad_lib_def list_obj_store_def)

theorem indexer_reads_chain_witness:
  "\<exists>p sh c. publish unary_cid_lib plain_ad_lib list_obj_store 1 loaded_provider = (Ok (), p) \<and>
     provider_service plain_router unary_cid_lib toy_key_lib list_obj_store p ''/head'' = HttpJson sh \<and>
     signed_head_open unary_cid_lib toy_key_lib sh = Ok (PublicKey 3, c) \<and>
     ad_chain plain_ad_lib (http_look plain_router unary_cid_lib toy_key_lib list_obj_store
       (decode_in (blockstore p)) p) (Some c) [[]]"
proof -
  obtain p where p: "publish unary_cid_lib plain_ad_lib list_obj_store 1 loaded_provider = (Ok (), p)"
    "length (blockstore p) = 1" "prov_keypair p = Ed25519 3" "head p = Some (Cid 0)"
    using list_publish by blast
  have pub: "published plain_ad_lib list_obj_store p [[]]"
  proof (rule prov.publish_publ [OF _ _ _ p(1)])
    show "pending list_obj_store loaded_provider 1 []" unfolding loaded_provider_def by (rule prov.create_pend)
    show "published plain_ad_lib list_obj_store loaded_provider []"
      unfolding loaded_provider_def by (rule prov.create_publ) simp
  qed simp
  obtain sh where sh: "provider_service plain_router unary_cid_lib toy_key_lib list_obj_store p ''/head'' = HttpJson sh"
    by (simp add: provider_service_def plain_router_def head_handler_def p signed_head_new_def toy_key_lib_def)
  have cod: "obj_codec_ok list_obj_store (decode_in (blockstore p)) (blockstore p)"
    by (rule list_obj_codec_ok) (simp add: p)
  from indexer_reads_chain [OF unary_cid_lib_ok toy_key_lib_ok plain_router_ok unary_cid_segments cod pub sh] p sh
  show ?thesis by (auto simp: toy_key_lib_def)
qed


text \<open>
  The index provider listens on the configured address and port exactly when the address is an
  IPv4 address in the form the standard library prints; a host name makes start-up panic.
\<close>

theorem provider_start_address:
  "provider_start v6 config = Ok (Inl (ip, q), routes) \<longleftrightarrow>
   length ip = 4 \<and> local_address config = show_ipv4 ip \<and> q = port config \<and> routes = provider_routes"
proof -
  have "parse_socket_v4 (local_address config @ '':'' @ decimal (unat (port config))) = Some (ip, q) \<longleftrightarrow>
      length ip = 4 \<and> local_address config = show_ipv4 ip \<and> q = port config"
    by (rule parse_socket_v4_formatted)
  then show ?thesis
    by (auto simp: provider_start_def parse_socket_addr_def unwrap_parsed split: option.splits)
qed

text \<open>Documented behaviour of the URI type: a path and query of a URI make a URI again behind an address.\<close>

definition uri_lib_ok :: "'u uri_lib \<Rightarrow> ('u \<Rightarrow> string) \<Rightarrow> bool" where
  "uri_lib_ok ul authority \<longleftrightarrow>
     (\<forall>v pq ip (p :: 16 word). uri_path_and_query ul v = Some pq \<and> take 1 pq = ''/'' \<and> length ip = 4 \<longrightarrow>
        (\<exists>u. uri_try_from ul (''http://'' @ show_ipv4 ip @ '':'' @ decimal (unat p) @ pq) = Ok u \<and>
           authority u = show_ipv4 ip @ '':'' @ decimal (unat p) \<and> uri_path_and_query ul u = Some pq))"

text \<open>
  C34. The gateway forwards a request unchanged to the address its own server listens on: whenever the
  server starts, the proxied request has that server's address and port as authority, the same path
  and query and the same remaining parts, its response is passed back, and a failure to reach the
  server panics in the handler.
\<close>

theorem gateway_forwards:
  assumes "uri_lib_ok ul authority" and "gateway_server config = Ok ((ip, p), app)"
    and "uri_path_and_query ul (req_uri req) = Some pq" and "take 1 pq = ''/''"
  shows "\<exists>u. authority u = show_ipv4 ip @ '':'' @ decimal (unat p) \<and> uri_path_and_query ul u = Some pq \<and>
    gateway_handler ul client config req =
      (case client (req\<lparr>req_uri := u\<rparr>) of Ok r \<Rightarrow> Ok r | Err e \<Rightarrow> Panic UnwrapErr | Panic x \<Rightarrow> Panic x)"
proof -
  from assms(2) have c: "gw_addr (gw_server config) = show_ipv4 ip" "length ip = 4" "gw_port (gw_server config) = p"
    by (auto simp: gateway_server_def gateway_address_def unwrap_parsed parse_ipv4_Some Let_def outcome_simps split: option.splits)
  from assms(1,3,4) c(2) obtain u where u: "uri_try_from ul (''http://'' @ show_ipv4 ip @ '':'' @ decimal (unat p) @ pq) = Ok u"
    "authority u = show_ipv4 ip @ '':'' @ decimal (unat p)" "uri_path_and_query ul u = Some pq"
    unfolding uri_lib_ok_def by blast
  have "gateway_handler ul client config req = unwrap (client (req\<lparr>req_uri := u\<rparr>))"
    using u(1) by (simp add: gateway_handler_def assms(3) c)
  then show ?thesis using u by (cases "client (req\<lparr>req_uri := u\<rparr>)") auto
qed

text \<open>URIs as an authority and a path with query, for closed instances.\<close>

definition pair_uri_lib :: "(string \<times> string) uri_lib" where
  "pair_uri_lib =
     \<lparr>uri_path = (\<lambda>u. takeWhile (\<lambda>c. c \<noteq> CHR ''?'') (snd u)), uri_path_and_query = (\<lambda>u. Some (snd u)),
      uri_try_from = (\<lambda>s. let r = drop 7 s in Ok (takeWhile (\<lambda>c. c \<noteq> CHR ''/'') r, dropWhile (\<lambda>c. c \<noteq> CHR ''/'') r))\<rparr>"

lemma pair_uri_lib_ok: "uri_lib_ok pair_uri_lib fst"
proof -
  have "CHR ''/'' \<notin> set (show_ipv4 ip @ '':'' @ decimal n)" for ip n
    using show_ipv4_no [of "CHR ''/''" ip] decimal_no [of "CHR ''/''" n] by (simp add: to_digit_def)
  from cut_at [OF this] have "takeWhile (\<lambda>c. c \<noteq> CHR ''/'') (show_ipv4 ip @ '':'' @ decimal n @ pq) = show_ipv4 ip @ '':'' @ decimal n \<and>
      dropWhile (\<lambda>c. c \<noteq> CHR ''/'') (show_ipv4 ip @ '':'' @ decimal n @ pq) = pq" if "take 1 pq = ''/''" for ip n pq
    using that by (cases pq) auto
  then show ?thesis by (simp add: uri_lib_ok_def pair_uri_lib_def)
qed

theorem gateway_forwards_witness:
  "gateway_handler pair_uri_lib (\<lambda>r. Ok (req_uri r)) gateway_config_default
     \<lparr>req_uri = (''gateway:4000'', ''/?q=1''), req_rest = ''GET''\<rparr> = Ok (''0.0.0.0:3000'', ''/?q=1'')"
proof -
  let ?req = "\<lparr>req_uri = (''gateway:4000'', ''/?q=1''), req_rest = ''GET''\<rparr>"
  have z: "''0.0.0.0'' = show_ipv4 [0, 0, 0, 0]"
    by (simp add: show_ipv4_def decimal.simps digit_def)
  have s: "gateway_server gateway_config_default = Ok (([0, 0, 0, 0], 3000), [(''/'', ''Hello, world!'')])"
    by (simp add: gateway_server_def gateway_address_def gateway_config_default_def z parse_show_ipv4)
  have d: "show_ipv4 [0, 0, 0, 0] @ '':'' @ decimal (unat (3000 :: 16 word)) = ''0.0.0.0:3000''"
    by (simp add: show_ipv4_def decimal.simps digit_def)
  from gateway_forwards [OF pair_uri_lib_ok s, of ?req "''/?q=1''" "\<lambda>r. Ok (req_uri r)"] show ?thesis
    unfolding d by (auto simp: pair_uri_lib_def)
qed

end
