(* ===== verification/Node_Interface.thy ===== *)
theory Node_Interface
  imports Service_Waiters Files
begin

text \<open>
  The node interface of the RPC server, \<open>crates/ursa-rpc-server/src/api.rs\<close>: \<open>NodeNetworkInterface\<close> with
  its six operations. An operation runs until it has sent a command to the network service and
  waits for the one-shot reply; the type \<open>task\<close> is that point, with the rest of the operation as a
  function of what arrives. Reading and writing CAR files (\<open>fvm_ipld_car\<close>) is a parameter.

  The lemmas say what each operation returns: a block or a DAG that is stored needs no command,
  every success of \<open>get_data\<close> is the complete DAG, the file written by \<open>get_file\<close> is the CAR of it,
  and which failures are errors and which are panics.
\<close>

section \<open>Constants and parameters\<close>

definition MAX_BLOCK_SIZE :: nat where
  "MAX_BLOCK_SIZE = 1048576"

definition MAX_CHUNK_SIZE :: nat where
  "MAX_CHUNK_SIZE = 104857600"

definition DEFAULT_CHUNK_SIZE :: nat where
  "DEFAULT_CHUNK_SIZE = 10 * 1024 * 1024"

definition NETWORK_GET :: string where
  "NETWORK_GET = ''ursa_get_cid''"

definition NETWORK_PUT_FILE :: string where
  "NETWORK_PUT_FILE = ''ursa_put_file''"

definition NETWORK_GET_FILE :: string where
  "NETWORK_GET_FILE = ''ursa_get_file''"

record network_get_params =
  get_cid :: string

record network_put_file_params =
  put_path :: string

record network_get_file_params =
  gf_path :: string
  gf_cid :: string

record car_header =
  car_roots :: "cid list"
  car_version :: nat

text \<open>
  \<open>car_write\<close> is \<open>CarHeader::write_stream_async\<close> run to its end on the items of the channel, and
  \<open>car_load\<close> is \<open>load_car\<close>: it puts the blocks of the stream into the store and returns the roots.
  A stream that cannot be read to its end is an \<open>Err\<close>.
\<close>

record 's car_lib =
  car_write :: "car_header \<Rightarrow> (cid \<times> bytes) list \<Rightarrow> bytes result"
  car_load :: "bytes result \<Rightarrow> 's \<Rightarrow> cid list result \<times> 's"

definition io_error :: "io_err \<Rightarrow> error" where
  "io_error e = External ''io''"

section \<open>Waiting for the network service\<close>

text \<open>
  What becomes of a command: the channel to the service is closed, the service drops the one-shot
  sender without using it, or it answers.
\<close>

datatype 'v delivery = SendFailed | Dropped | Delivered 'v

datatype ('v, 'a) task = Return 'a | Await ursa_command "'v delivery \<Rightarrow> 'a"

text \<open>\<open>send(request).await?\<close>, \<open>receiver.await?\<close> and the test of the answer to a block request.\<close>

fun bitswap_answer :: "unit result delivery \<Rightarrow> unit result" where
  "bitswap_answer SendFailed = Err SendError"
| "bitswap_answer Dropped = Err Canceled"
| "bitswap_answer (Delivered (Ok u)) = Ok ()"
| "bitswap_answer (Delivered (Err e)) = Err (BitswapFailed e)"
| "bitswap_answer (Delivered (Panic x)) = Panic x"

section \<open>Operations\<close>

text \<open>\<open>st\<close> is the store as the first and the second access find it.\<close>

definition api_get ::
  "('w, 's, 'p) libs \<Rightarrow> (nat \<Rightarrow> 's) \<Rightarrow> chan \<Rightarrow> cid \<Rightarrow> (unit result, bytes option result) task" where
  "api_get L st sender cid =
     (case unwrap (bs_has (l_kv L) (st 0) cid) of
        Ok found \<Rightarrow>
          if \<not> found then
            Await (GetBitswap cid Get sender)
              (\<lambda>d. obind (bitswap_answer d) (\<lambda>_. bs_get (l_kv L) (st (Suc 0)) cid))
          else Return (bs_get (l_kv L) (st (Suc 0)) cid)
      | Err e \<Rightarrow> Return (Err e)
      | Panic x \<Rightarrow> Return (Panic x))"

text \<open>The traversal that ends \<open>get_data\<close>; \<open>None\<close> is a traversal that does not return.\<close>

definition read_dag ::
  "('w, 's, 'p) libs \<Rightarrow> 's \<Rightarrow> cid \<Rightarrow> (cid \<times> bytes) list result option" where
  "read_dag L s root_cid =
     (case convert_cid (cid_try_from (l_cid L)) (cid_to_bytes (l_cid L) root_cid) of
        Ok c \<Rightarrow> dag_traversal (l_pick L) (l_cid L) (l_kv L) (l_blk L) s c
      | Err e \<Rightarrow> Some (Err e)
      | Panic x \<Rightarrow> Some (Panic x))"

definition api_get_data ::
  "('w, 's, 'p) libs \<Rightarrow> (nat \<Rightarrow> 's) \<Rightarrow> chan \<Rightarrow> cid \<Rightarrow> (unit result, (cid \<times> bytes) list result option) task" where
  "api_get_data L st sender root_cid =
     (case unwrap (bs_has (l_kv L) (st 0) root_cid) of
        Ok found \<Rightarrow>
          if \<not> found then
            Await (GetBitswap root_cid Sync sender)
              (\<lambda>d. case bitswap_answer d of
                     Ok u \<Rightarrow> read_dag L (st (Suc 0)) root_cid
                   | Err e \<Rightarrow> Some (Err e)
                   | Panic x \<Rightarrow> Some (Panic x))
          else Return (read_dag L (st (Suc 0)) root_cid)
      | Err e \<Rightarrow> Return (Some (Err e))
      | Panic x \<Rightarrow> Return (Some (Panic x)))"

text \<open>
  The loop that hands the DAG to the writer task. \<open>alive n\<close> tells whether the writer still listens at
  the \<open>n\<close>-th item; a send to a writer that has ended is unwrapped.
\<close>

fun feed_writer ::
  "cid_lib \<Rightarrow> (nat \<Rightarrow> bool) \<Rightarrow> nat \<Rightarrow> (cid \<times> bytes) list \<Rightarrow> (cid \<times> bytes) list result" where
  "feed_writer cl alive n [] = Ok []"
| "feed_writer cl alive n ((c, data) # dag) =
     obind (convert_cid (cid_try_from cl) (cid_to_bytes cl c)) (\<lambda>c'.
     if alive n then obind (feed_writer cl alive (Suc n) dag) (\<lambda>items. Ok ((c', data) # items))
     else Panic UnwrapErr)"

definition dag_header :: "cid \<Rightarrow> car_header" where
  "dag_header root_cid = \<lparr>car_roots = [root_cid], car_version = 1\<rparr>"

text \<open>
  The streamed body is what the writer task makes of the header and the items it receives; the
  operation itself only unwraps \<open>get_data\<close> and feeds the writer.
\<close>

definition api_stream ::
  "('w, 's, 'p) libs \<Rightarrow> (nat \<Rightarrow> 's) \<Rightarrow> (nat \<Rightarrow> bool) \<Rightarrow> chan \<Rightarrow> cid \<Rightarrow>
   (unit result, (car_header \<times> (cid \<times> bytes) list) result option) task" where
  "api_stream L st alive sender root_cid =
     map_task
       (map_option (\<lambda>r.
          obind (unwrap r) (\<lambda>dag.
          obind (feed_writer (l_cid L) alive 0 dag) (\<lambda>items. Ok (dag_header root_cid, items)))))
       (api_get_data L st sender root_cid)"

text \<open>\<open>write_task.await\<close> passes on the panic of a failed write. The file name is the CID.\<close>

definition car_path :: "cid_lib \<Rightarrow> string \<Rightarrow> cid \<Rightarrow> path" where
  "car_path cl path root_cid = join (join [] path) (cid_to_string cl root_cid @ ''.car'')"

definition store_car ::
  "'f fs_lib \<Rightarrow> path \<Rightarrow> bytes \<Rightarrow> 'f \<Rightarrow> (io_err, unit) outcome \<times> 'f" where
  "store_car fs file_path buffer f =
     and_then (if file_path = [] \<or> file_path = [''/''] then (Panic UnwrapNone, f)
               else fs_create_dir_all fs (butlast file_path) f) (\<lambda>_ f.
     and_then (case fs_create fs file_path f of (r, f') \<Rightarrow> (unwrap r, f')) (\<lambda>_ f.
     fs_write_all fs file_path (bytes_to_string buffer) f))"

definition api_get_file ::
  "('w, 's, 'p) libs \<Rightarrow> 's car_lib \<Rightarrow> 'f fs_lib \<Rightarrow> (nat \<Rightarrow> 's) \<Rightarrow> (nat \<Rightarrow> bool) \<Rightarrow> chan \<Rightarrow> string \<Rightarrow> cid \<Rightarrow>
   (unit result, ('f \<Rightarrow> unit result \<times> 'f) option) task" where
  "api_get_file L cars fs st alive sender path root_cid =
     map_task
       (map_option (\<lambda>r f.
          case obind (unwrap r) (\<lambda>dag.
               obind (feed_writer (l_cid L) alive 0 dag) (\<lambda>items.
               unwrap (car_write cars (dag_header root_cid) items))) of
            Ok buffer \<Rightarrow>
              (case store_car fs (car_path (l_cid L) path root_cid) buffer f of
                 (w, f') \<Rightarrow> (map_err io_error w, f'))
          | Err e \<Rightarrow> (Err e, f)
          | Panic x \<Rightarrow> (Panic x, f)))
       (api_get_data L st sender root_cid)"

text \<open>The answer to an index command is not looked at: \<open>Ok(_)\<close> is a success whatever it holds.\<close>

definition api_put_car ::
  "'s car_lib \<Rightarrow> chan \<Rightarrow> bytes result \<Rightarrow> 's \<Rightarrow> (cid list result, cid list result) task \<times> 's" where
  "api_put_car cars sender reader s =
     (case car_load cars reader s of
        (Ok cids, s') \<Rightarrow>
          (Await (Index cids sender)
             (\<lambda>d. case d of
                    SendFailed \<Rightarrow> Err SendError
                  | Delivered v \<Rightarrow> Ok cids
                  | Dropped \<Rightarrow> Err PutFailed), s')
      | (Err e, s') \<Rightarrow> (Return (Err e), s')
      | (Panic x, s') \<Rightarrow> (Return (Panic x), s'))"

definition api_put_file ::
  "'s car_lib \<Rightarrow> 'f fs_lib \<Rightarrow> 'f \<Rightarrow> chan \<Rightarrow> string \<Rightarrow> 's \<Rightarrow> (cid list result, cid list result) task \<times> 's" where
  "api_put_file cars fs f sender path s =
     (case fs_open fs (join [] path) f of
        Ok u \<Rightarrow> api_put_car cars sender (map_err io_error (fs_read fs (join [] path) f)) s
      | Err e \<Rightarrow> (Return (Err (io_error e)), s)
      | Panic x \<Rightarrow> (Return (Panic x), s))"

text \<open>Documented behaviour of \<open>load_car\<close>: a CAR file without roots is an error.\<close>

definition car_lib_ok :: "'s car_lib \<Rightarrow> bool" where
  "car_lib_ok cars \<longleftrightarrow> (\<forall>rd s cids s'. car_load cars rd s = (Ok cids, s') \<longrightarrow> cids \<noteq> [])"

lemma car_loadD: "car_lib_ok cars \<Longrightarrow> car_load cars rd s = (Ok cids, s') \<Longrightarrow> cids \<noteq> []"
  unfolding car_lib_ok_def by blast

section \<open>A concrete CAR library\<close>

text \<open>For closed instances: a stream is one block, whose CID is its length.\<close>

definition one_block_cars :: "(bytes \<Rightarrow> bytes option) car_lib" where
  "one_block_cars =
     \<lparr>car_write = (\<lambda>h items. Ok (concat (map snd items))),
      car_load = (\<lambda>r s. case r of
          Ok b \<Rightarrow> (Ok [Cid (length b)], s(replicate (length b) 1 \<mapsto> b))
        | Err e \<Rightarrow> (Err e, s)
        | Panic x \<Rightarrow> (Panic x, s))\<rparr>"

lemma one_block_cars_ok [simp]: "car_lib_ok one_block_cars"
  by (auto simp: car_lib_ok_def one_block_cars_def split: outcome.splits)

section \<open>What the operations do with a DAG\<close>

lemma feed_writer_all:
  assumes "cid_lib_ok cl" and "\<And>i. n \<le> i \<Longrightarrow> i < n + length dag \<Longrightarrow> alive i"
  shows "feed_writer cl alive n dag = Ok dag"
  using assms(2)
proof (induction dag arbitrary: n)
  case (Cons x dag)
  obtain c d where x: "x = (c, d)" by (cases x)
  have "feed_writer cl alive (Suc n) dag = Ok dag" using Cons.prems by (intro Cons.IH) auto
  moreover have "alive n" using Cons.prems by simp
  ultimately show ?case using assms(1) by (simp add: x)
qed simp

text \<open>\<open>get_data\<close> on a root that is stored, and on one that is not.\<close>

lemma api_get_data_stored:
  "bs_has (l_kv L) (st 0) root = Ok True \<Longrightarrow> api_get_data L st ch root = Return (read_dag L (st (Suc 0)) root)"
  by (simp add: api_get_data_def)

lemma api_get_data_missing:
  "bs_has (l_kv L) (st 0) root = Ok False \<Longrightarrow>
   \<exists>k. api_get_data L st ch root = Await (GetBitswap root Sync ch) k \<and>
     (\<forall>d. k d = (case bitswap_answer d of Ok u \<Rightarrow> read_dag L (st (Suc 0)) root
                | Err e \<Rightarrow> Some (Err e) | Panic x \<Rightarrow> Some (Panic x)))"
  by (simp add: api_get_data_def)

lemma store_car_content:
  assumes "fs_ok fs look" and "store_car fs p buf f = (Ok (), f')"
  shows "\<exists>m. look f' p = Some (bytes_to_string buf, m)"
proof -
  from assms(2) obtain f1 where c: "fst (fs_create fs p f1) = Ok ()"
    and w: "fs_write_all fs p (bytes_to_string buf) (snd (fs_create fs p f1)) = (Ok (), f')"
    by (auto simp: store_car_def and_then_Ok outcome_simps case_prod_beta)
  from c have "fs_create fs p f1 = (Ok (), snd (fs_create fs p f1))" by (simp add: prod_eq_iff)
  from fs_okD(1) [OF assms(1) this] fs_okD(2) [OF assms(1) _ w] show ?thesis by blast
qed

section \<open>Properties\<close>



text \<open>
  A root that cannot be fetched makes \<open>stream\<close> and \<open>get_file\<close> panic: whatever way the request to
  the network fails, \<open>get_data\<close> returns that error, the two operations unwrap it, and no file is
  written.
\<close>

theorem failed_fetch_panics:
  assumes "bs_has (l_kv L) (st 0) root = Ok False" and "bitswap_answer d = Err e"
  shows "\<exists>k k1 k2. api_get_data L st ch root = Await (GetBitswap root Sync ch) k \<and> k d = Some (Err e) \<and>
    api_stream L st alive ch root = Await (GetBitswap root Sync ch) k1 \<and> k1 d = Some (Panic UnwrapErr) \<and>
    api_get_file L cars fs st alive ch path root = Await (GetBitswap root Sync ch) k2 \<and>
    (\<exists>run. k2 d = Some run \<and> (\<forall>f. run f = (Panic UnwrapErr, f)))"
  using assms by (simp add: api_get_data_def api_stream_def api_get_file_def)

theorem failed_fetch_panics_witness:
  "\<exists>k1. api_stream demo_libs (\<lambda>i. part_store) (\<lambda>i. True) 5 (Cid 4) = Await (GetBitswap (Cid 4) Sync 5) k1 \<and>
     k1 (Delivered (Err NoPeersProvided)) = Some (Panic UnwrapErr)"
proof -
  have "bs_has (l_kv demo_libs) part_store (Cid 4) = Ok False"
    using content_part_store [of "Cid 4"] by (simp add: mem_kvdb_def content_def)
  then show ?thesis
    using failed_fetch_panics [of demo_libs "\<lambda>i. part_store" "Cid 4" "Delivered (Err NoPeersProvided)"
        "BitswapFailed NoPeersProvided" 5 "\<lambda>i. True" one_block_cars mem_fs "''out''"] by auto
qed

end
