(* ===== verification/Node_System.thy ===== *)
theory Node_System
  imports Node_Interface
begin

text \<open>
  The running node: the operations of the node interface
  (\<open>crates/ursa-rpc-server/src/api.rs\<close>) and the network service
  (\<open>crates/ursa-network/src/service.rs\<close>) composed over the command channel, the one-shot reply channels and
  the shared block store, as \<open>main.rs\<close> composes them. A step is a call by a client, a command or an
  event handled by the service, a block written by bitswap, or the return of a waiting call.

  The invariant kept by every step says whose call a channel belongs to, wherever it travels, and
  that a block reported as found is stored.
\<close>

section \<open>State\<close>

datatype call = CallGet cid | CallData cid | CallPut "bytes result"

datatype answer =
    AnsGet "bytes option result" | AnsData "(cid \<times> bytes) list result" | AnsPut "cid list result"

text \<open>A pending call keeps the store it was started on.\<close>

record ('w, 's, 'p) node =
  node_service :: "('w, 'p) service"
  node_running :: bool
  node_store :: 's
  command_queue :: "ursa_command list"
  pending_calls :: "chan \<Rightarrow> (call \<times> 's) option"
  used_chans :: "chan set"
  call_results :: "(chan \<times> call \<times> answer) list"

section \<open>Calls\<close>

datatype opened = Answered answer | Diverges | Asks ursa_command

fun open_call ::
  "('w, 's, 'p) libs \<Rightarrow> 's car_lib \<Rightarrow> chan \<Rightarrow> call \<Rightarrow> 's \<Rightarrow> opened \<times> 's" where
  "open_call L cars ch (CallGet c) s =
     (case api_get L (\<lambda>_. s) ch c of Return r \<Rightarrow> Answered (AnsGet r) | Await cmd k \<Rightarrow> Asks cmd, s)"
| "open_call L cars ch (CallData c) s =
     (case api_get_data L (\<lambda>_. s) ch c of
        Return None \<Rightarrow> Diverges | Return (Some r) \<Rightarrow> Answered (AnsData r) | Await cmd k \<Rightarrow> Asks cmd, s)"
| "open_call L cars ch (CallPut reader) s =
     (case api_put_car cars ch reader s of
        (Return r, s') \<Rightarrow> (Answered (AnsPut r), s') | (Await cmd k, s') \<Rightarrow> (Asks cmd, s'))"

text \<open>What a one-shot receiver gets: the answer that was sent, or a drop once the service has ended.\<close>

definition heard :: "bool \<Rightarrow> (chan \<times> 'v) list \<Rightarrow> chan \<Rightarrow> 'v delivery option" where
  "heard running log ch =
     (case map_of log ch of Some v \<Rightarrow> Some (Delivered v) | None \<Rightarrow> if running then None else Some Dropped)"

fun close_call ::
  "('w, 's, 'p) libs \<Rightarrow> 's car_lib \<Rightarrow> chan \<Rightarrow> call \<Rightarrow> 's \<Rightarrow> unit result delivery option \<Rightarrow>
   cid list result delivery option \<Rightarrow> 's \<Rightarrow> answer option" where
  "close_call L cars ch (CallGet c) s0 blk idx s =
     (case (api_get L (\<lambda>i. if i = 0 then s0 else s) ch c, blk) of
        (Await cmd k, Some d) \<Rightarrow> Some (AnsGet (k d)) | _ \<Rightarrow> None)"
| "close_call L cars ch (CallData c) s0 blk idx s =
     (case (api_get_data L (\<lambda>i. if i = 0 then s0 else s) ch c, blk) of
        (Await cmd k, Some d) \<Rightarrow> map_option AnsData (k d) | _ \<Rightarrow> None)"
| "close_call L cars ch (CallPut reader) s0 blk idx s =
     (case (api_put_car cars ch reader s0, idx) of
        ((Await cmd k, s'), Some d) \<Rightarrow> Some (AnsPut (k d)) | _ \<Rightarrow> None)"

section \<open>Steps\<close>

datatype ('w, 's) node_op =
    NCall chan call
  | NCommand
  | NService "('w, 's) svc_op" 's
  | NInsert block
  | NReturn chan

definition add_result :: "chan \<Rightarrow> call \<Rightarrow> answer \<Rightarrow> ('w, 's, 'p) node \<Rightarrow> ('w, 's, 'p) node" where
  "add_result ch call a n = n\<lparr>call_results := call_results n @ [(ch, call, a)]\<rparr>"

fun is_command :: "('w, 's) svc_op \<Rightarrow> bool" where
  "is_command (OpCommand c) = True"
| "is_command _ = False"

text \<open>
  The service ends when a handler returns an error or panics, also when the storage panics under
  bitswap; commands and calls are then no longer answered. In \<open>NService\<close> the second argument is the
  store after the handler.
\<close>

fun node_do ::
  "('w, 's, 'p) libs \<Rightarrow> 's car_lib \<Rightarrow> ('w, 's) node_op \<Rightarrow> ('w, 's, 'p) node \<Rightarrow> ('w, 's, 'p) node option" where
  "node_do L cars (NCall ch call) n =
     (if ch \<in> used_chans n then None
      else
        (let n1 = n\<lparr>used_chans := insert ch (used_chans n)\<rparr> in
         case open_call L cars ch call (node_store n) of
           (Answered a, s) \<Rightarrow> Some (add_result ch call a (n1\<lparr>node_store := s\<rparr>))
         | (Diverges, s) \<Rightarrow> Some (n1\<lparr>node_store := s\<rparr>)
         | (Asks cmd, s) \<Rightarrow>
             (if node_running n then
                Some (n1\<lparr>node_store := s, command_queue := command_queue n @ [cmd],
                        pending_calls := (pending_calls n)(ch \<mapsto> (call, node_store n))\<rparr>)
              else
                (case close_call L cars ch call (node_store n) (Some SendFailed) (Some SendFailed) s of
                   Some a \<Rightarrow> Some (add_result ch call a (n1\<lparr>node_store := s\<rparr>))
                 | None \<Rightarrow> Some (n1\<lparr>node_store := s\<rparr>)))))"
| "node_do L cars NCommand n =
     (case command_queue n of
        [] \<Rightarrow> None
      | cmd # q \<Rightarrow>
          if node_running n then
            (case handle_command L cmd (node_service n) of
               (r, s) \<Rightarrow> Some (n\<lparr>node_service := s, node_running := is_ok r, command_queue := q\<rparr>))
          else None)"
| "node_do L cars (NService op s') n =
     (if node_running n \<and> \<not> is_command op then
        (case svc_do L op (node_service n) of
           None \<Rightarrow> None
         | Some (r, s) \<Rightarrow> Some (n\<lparr>node_service := s, node_running := is_ok r, node_store := s'\<rparr>))
      else None)"
| "node_do L cars (NInsert b) n =
     (case insert_block (l_cid L) (l_kv L) (node_store n) b of
        Ok s \<Rightarrow> Some (n\<lparr>node_store := s\<rparr>)
      | Err e \<Rightarrow> Some n
      | Panic x \<Rightarrow> Some (n\<lparr>node_running := False\<rparr>))"
| "node_do L cars (NReturn ch) n =
     (case pending_calls n ch of
        None \<Rightarrow> None
      | Some (call, s0) \<Rightarrow>
          (case close_call L cars ch call s0
                  (heard (node_running n) (block_replies (node_service n)) ch)
                  (heard (node_running n) (index_replies (node_service n)) ch) (node_store n) of
             None \<Rightarrow> None
           | Some a \<Rightarrow> Some (add_result ch call a (n\<lparr>pending_calls := (pending_calls n)(ch := None)\<rparr>))))"

text \<open>
  Blocks are addressed by their hash, so a write never changes a stored block: the content of the
  store only grows. A handler finds stores between the one before and the one after it.
\<close>

definition grows :: "(cid \<Rightarrow> bytes option) \<Rightarrow> (cid \<Rightarrow> bytes option) \<Rightarrow> bool" where
  "grows m m' \<longleftrightarrow> m \<subseteq>\<^sub>m m'"

fun event_stores :: "('w, 's) svc_op \<Rightarrow> 's set" where
  "event_stores (OpEvent st aid rng e) = range st"
| "event_stores _ = {}"

fun handler_stores :: "('w, 's) node_op \<Rightarrow> 's set" where
  "handler_stores (NService op s') = event_stores op"
| "handler_stores _ = {}"

definition stores_grow ::
  "('s \<Rightarrow> cid \<Rightarrow> bytes option) \<Rightarrow> ('w, 's) node_op \<Rightarrow> ('w, 's, 'p) node \<Rightarrow> ('w, 's, 'p) node \<Rightarrow> bool" where
  "stores_grow look op n n' \<longleftrightarrow>
     grows (look (node_store n)) (look (node_store n')) \<and>
     (\<forall>s\<in>handler_stores op. grows (look s) (look (node_store n')))"

inductive node_reach ::
  "('w, 's, 'p) libs \<Rightarrow> 's car_lib \<Rightarrow> ('s \<Rightarrow> cid \<Rightarrow> bytes option) \<Rightarrow> ('w, 's, 'p) node \<Rightarrow> ('w, 's, 'p) node \<Rightarrow> bool"
  for L cars look n0 where
  node_init: "node_reach L cars look n0 n0"
| node_op: "node_reach L cars look n0 n \<Longrightarrow> node_do L cars op n = Some n' \<Longrightarrow> stores_grow look op n n' \<Longrightarrow>
    node_reach L cars look n0 n'"

text \<open>The node as \<open>main\<close> starts it: no calls, nothing sent.\<close>

definition node_start :: "('w, 'p) service \<Rightarrow> 's \<Rightarrow> ('w, 's, 'p) node" where
  "node_start s store =
     \<lparr>node_service = s, node_running = True, node_store = store, command_queue = [],
      pending_calls = Map.empty, used_chans = {}, call_results = []\<rparr>"

section \<open>What the service does to channels\<close>

lemma answer_channels_replies:
  "answer_channels cl kv st bc c n chans s = (r, s') \<Longrightarrow>
   response_channels s' = response_channels s \<and> index_replies s' = index_replies s \<and>
   (\<forall>ch v. (ch, v) \<in> set (block_replies s') \<longrightarrow> (ch, v) \<in> set (block_replies s) \<or>
      ch \<in> set chans \<and> (v = Ok () \<longrightarrow> (\<exists>i. contains cl kv (st i) bc = Ok True)))"
proof (induction chans arbitrary: n s)
  case (Cons ch chans)
  show ?case
  proof (cases "contains cl kv (st n) bc")
    case (Ok found)
    with Cons.prems Cons.IH [of "Suc n"
        "s\<lparr>block_replies := block_replies s @ [(ch, if found then Ok () else Err (BlockNotFoundWithPeers c))]\<rparr>"]
    show ?thesis by (auto split: if_splits)
  qed (use Cons.prems in auto)
qed simp

lemma on_bitswap_index_log:
  "on_bitswap L st info s = Some (r, s') \<Longrightarrow> index_replies s' = index_replies s"
  by (auto simp: on_bitswap_def Let_def track_svc_def dest!: answer_channels_replies
      split: outcome.splits option.splits if_splits)

lemma on_bitswap_replies:
  assumes "on_bitswap L st info s = Some (r, s')" and "cid_lib_ok (l_cid L)"
  shows "set (svc_waiting s' c) \<subseteq> set (svc_waiting s c) \<and> index_replies s' = index_replies s \<and>
    (\<forall>ch v. (ch, v) \<in> set (block_replies s') \<longrightarrow> (ch, v) \<in> set (block_replies s) \<or>
       ch \<in> set (svc_waiting s (info_cid info)) \<and>
       (v = Ok () \<longrightarrow> (\<exists>i. contains (l_cid L) (l_kv L) (st i) (info_cid info) = Ok True)))"
proof (cases "response_channels s (info_cid info)")
  case None
  with assms show ?thesis by (auto simp: on_bitswap_def Let_def svc_waiting_def track_svc_def)
next
  case (Some chans)
  let ?s2 = "track_svc EvBitswap
      (Some [(''cid'', cid_to_string (l_cid L) (info_cid info)), (''query_id'', fmt_query L (info_query_id info)),
             (''block_found'', fmt_bool (block_found info))])
      (s\<lparr>swarm := cancel (l_net L) (info_query_id info) (swarm s)\<rparr>)
      \<lparr>response_channels := (response_channels s)(info_cid info := None)\<rparr>"
  have s2: "response_channels ?s2 = (response_channels s)(info_cid info := None)"
    "index_replies ?s2 = index_replies s" "block_replies ?s2 = block_replies s"
    by (simp_all add: track_svc_def)
  have "s' = ?s2 \<or>
      (\<exists>n. answer_channels (l_cid L) (l_kv L) st (info_cid info) (info_cid info) n chans ?s2 = (r, s'))"
    using assms Some
    by (auto simp: on_bitswap_def Let_def track_svc_def split: outcome.splits option.splits if_splits)
  then show ?thesis
  proof (elim disjE exE)
    fix n assume "answer_channels (l_cid L) (l_kv L) st (info_cid info) (info_cid info) n chans ?s2 = (r, s')"
    from answer_channels_replies [OF this] Some s2 show ?thesis by (auto simp: svc_waiting_def)
  next
    assume "s' = ?s2"
    with s2 show ?thesis by (auto simp: svc_waiting_def)
  qed
qed

text \<open>One step of the service that is not a command.\<close>

lemma svc_do_replies:
  assumes "svc_do L op s = Some (r, s')" and "\<not> is_command op" and "cid_lib_ok (l_cid L)"
  shows "set (svc_waiting s' c) \<subseteq> set (svc_waiting s c) \<and> index_replies s' = index_replies s \<and>
    (\<forall>ch v. (ch, v) \<in> set (block_replies s') \<longrightarrow> (ch, v) \<in> set (block_replies s) \<or>
       (\<exists>d. ch \<in> set (svc_waiting s d) \<and>
         (v = Ok () \<longrightarrow> (\<exists>t\<in>event_stores op. contains (l_cid L) (l_kv L) t d = Ok True))))"
proof (cases op)
  case (OpEvent st aid rng e)
  then obtain b where h: "handle_event L st aid rng e (s\<lparr>swarm := b\<rparr>) = Some (r, s')"
    using assms(1) by (auto split: option.splits prod.splits if_splits)
  show ?thesis
  proof (cases "\<exists>info. e = Bitswap info")
    case True
    then obtain info where "on_bitswap L st info (s\<lparr>swarm := b\<rparr>) = Some (r, s')"
      using h by (auto simp: handle_event_def)
    from on_bitswap_replies [OF this assms(3), of c] OpEvent show ?thesis
      by (simp add: svc_waiting_def) blast
  next
    case False
    with handle_event_other [OF h] show ?thesis by (simp add: svc_waiting_def)
  qed
next
  case (OpCommand cmd)
  with assms(2) show ?thesis by simp
qed (use assms(1) in \<open>auto simp: svc_waiting_def split: prod.splits\<close>)

lemma handle_command_replies:
  assumes "handle_command L cmd s = (r, s')"
  shows "ch \<in> set (svc_waiting s' c) \<Longrightarrow> ch \<in> set (svc_waiting s c) \<or> (\<exists>q. cmd = GetBitswap c q ch)"
    and "(ch, v) \<in> set (block_replies s') \<Longrightarrow> (ch, v) \<in> set (block_replies s) \<or>
       (\<exists>c q. cmd = GetBitswap c q ch) \<and> v \<noteq> Ok ()"
    and "(ch, w) \<in> set (index_replies s') \<Longrightarrow> (ch, w) \<in> set (index_replies s) \<or>
       (\<exists>cids. cmd = Index cids ch \<and> w = Ok cids)"
proof -
  have "(\<forall>c ch. ch \<in> set (svc_waiting s' c) \<longrightarrow> ch \<in> set (svc_waiting s c) \<or> (\<exists>q. cmd = GetBitswap c q ch)) \<and>
      (\<forall>ch v. (ch, v) \<in> set (block_replies s') \<longrightarrow> (ch, v) \<in> set (block_replies s) \<or>
         (\<exists>c q. cmd = GetBitswap c q ch) \<and> v \<noteq> Ok ()) \<and>
      (\<forall>ch v. (ch, v) \<in> set (index_replies s') \<longrightarrow> (ch, v) \<in> set (index_replies s) \<or>
         (\<exists>cids. cmd = Index cids ch \<and> v = Ok cids))"
  proof (cases cmd)
    case (GetBitswap c q ch)
    then show ?thesis
      using assms
      by (auto simp: handle_command_def on_get_bitswap_def svc_waiting_def Let_def
          split: if_splits option.splits prod.splits)
  next
    case (Index cids ch)
    then show ?thesis
      using assms
      by (auto simp: handle_command_def on_index_def set_roots_def svc_waiting_def Let_def
          split: list.splits option.splits)
  qed (use assms in \<open>auto simp: handle_command_def on_get_peers_def svc_waiting_def
      split: outcome.splits prod.splits\<close>)
  then show "ch \<in> set (svc_waiting s' c) \<Longrightarrow> ch \<in> set (svc_waiting s c) \<or> (\<exists>q. cmd = GetBitswap c q ch)"
    and "(ch, v) \<in> set (block_replies s') \<Longrightarrow> (ch, v) \<in> set (block_replies s) \<or>
       (\<exists>c q. cmd = GetBitswap c q ch) \<and> v \<noteq> Ok ()"
    and "(ch, w) \<in> set (index_replies s') \<Longrightarrow> (ch, w) \<in> set (index_replies s) \<or>
       (\<exists>cids. cmd = Index cids ch \<and> w = Ok cids)"
    by blast+
qed

lemma handle_command_index_log:
  "set (index_replies s) \<subseteq> set (index_replies (snd (handle_command L cmd s)))"
  by (cases cmd) (auto simp: handle_command_def on_get_bitswap_def on_get_peers_def on_index_def set_roots_def
      Let_def case_prod_beta split: outcome.splits prod.splits option.splits list.splits)

lemma svc_do_index_log:
  assumes "svc_do L op s = Some (r, s')" and "\<not> is_command op"
  shows "index_replies s' = index_replies s"
proof (cases op)
  case (OpEvent st aid rng e)
  then obtain b where h: "handle_event L st aid rng e (s\<lparr>swarm := b\<rparr>) = Some (r, s')"
    using assms(1) by (auto split: option.splits prod.splits if_splits)
  show ?thesis
  proof (cases "\<exists>info. e = Bitswap info")
    case True
    then obtain info where "on_bitswap L st info (s\<lparr>swarm := b\<rparr>) = Some (r, s')"
      using h by (auto simp: handle_event_def)
    then show ?thesis using on_bitswap_index_log by fastforce
  next
    case False
    with handle_event_other [OF h] show ?thesis by simp
  qed
qed (use assms in \<open>auto split: prod.splits\<close>)

section \<open>Who owns a channel\<close>

text \<open>
  A channel that travels with a block request for \<open>c\<close> belongs to a call for \<open>c\<close> as long as that call
  waits; a channel that travels with an index command belongs to the put that loaded those roots.
\<close>

definition block_owner :: "('w, 's, 'p) node \<Rightarrow> chan \<Rightarrow> cid \<Rightarrow> bool" where
  "block_owner n ch c \<longleftrightarrow> ch \<in> used_chans n \<and>
     (\<forall>call s0. pending_calls n ch = Some (call, s0) \<longrightarrow> call = CallGet c \<or> call = CallData c)"

definition put_owner :: "'s car_lib \<Rightarrow> ('w, 's, 'p) node \<Rightarrow> chan \<Rightarrow> cid list \<Rightarrow> bool" where
  "put_owner cars n ch cids \<longleftrightarrow> ch \<in> used_chans n \<and> cids \<noteq> [] \<and>
     (\<forall>call s0. pending_calls n ch = Some (call, s0) \<longrightarrow>
        (\<exists>rd s1. call = CallPut rd \<and> car_load cars rd s0 = (Ok cids, s1)))"

definition node_inv :: "'s car_lib \<Rightarrow> ('s \<Rightarrow> cid \<Rightarrow> bytes option) \<Rightarrow> ('w, 's, 'p) node \<Rightarrow> bool" where
  "node_inv cars look n \<longleftrightarrow>
     (\<forall>c q ch. GetBitswap c q ch \<in> set (command_queue n) \<longrightarrow> block_owner n ch c) \<and>
     (\<forall>c ch. ch \<in> set (svc_waiting (node_service n) c) \<longrightarrow> block_owner n ch c) \<and>
     (\<forall>ch v. (ch, v) \<in> set (block_replies (node_service n)) \<longrightarrow>
        (\<exists>c. block_owner n ch c \<and> (v = Ok () \<longrightarrow> look (node_store n) c \<noteq> None))) \<and>
     (\<forall>cids ch. Index cids ch \<in> set (command_queue n) \<longrightarrow> put_owner cars n ch cids) \<and>
     (\<forall>ch v. (ch, v) \<in> set (index_replies (node_service n)) \<longrightarrow>
        (\<exists>cids. v = Ok cids \<and> put_owner cars n ch cids)) \<and>
     dom (pending_calls n) \<subseteq> used_chans n"

lemma node_invD:
  assumes "node_inv cars look n"
  shows "GetBitswap c q ch \<in> set (command_queue n) \<Longrightarrow> block_owner n ch c"
    and "ch \<in> set (svc_waiting (node_service n) c) \<Longrightarrow> block_owner n ch c"
    and "(ch, v) \<in> set (block_replies (node_service n)) \<Longrightarrow>
        \<exists>c. block_owner n ch c \<and> (v = Ok () \<longrightarrow> look (node_store n) c \<noteq> None)"
    and "Index cids ch \<in> set (command_queue n) \<Longrightarrow> put_owner cars n ch cids"
    and "(ch, w) \<in> set (index_replies (node_service n)) \<Longrightarrow> \<exists>cids. w = Ok cids \<and> put_owner cars n ch cids"
    and "pending_calls n ch = Some x \<Longrightarrow> ch \<in> used_chans n"
  using assms unfolding node_inv_def by blast+

text \<open>Later states: channels stay in use, and a call on a used channel only disappears.\<close>

definition later :: "('w, 's, 'p) node \<Rightarrow> ('w, 's, 'p) node \<Rightarrow> bool" where
  "later n n' \<longleftrightarrow> used_chans n \<subseteq> used_chans n' \<and>
     (\<forall>ch\<in>used_chans n. pending_calls n' ch = None \<or> pending_calls n' ch = pending_calls n ch)"

lemma later_owner:
  assumes "later n n'"
  shows "block_owner n ch c \<Longrightarrow> block_owner n' ch c" and "put_owner cars n ch cids \<Longrightarrow> put_owner cars n' ch cids"
  using assms unfolding later_def block_owner_def put_owner_def by (metis option.distinct(1) subsetD)+

lemma grows_stored: "grows m m' \<Longrightarrow> m c \<noteq> None \<Longrightarrow> m' c \<noteq> None"
  unfolding grows_def map_le_def by (metis domIff)

text \<open>A step keeps the invariant if it accounts for what is new in the queue and in the logs.\<close>

lemma node_inv_step:
  assumes "node_inv cars look n" and "later n n'" and "grows (look (node_store n)) (look (node_store n'))"
    and "\<And>c q ch. GetBitswap c q ch \<in> set (command_queue n') \<Longrightarrow>
          GetBitswap c q ch \<in> set (command_queue n) \<or> block_owner n' ch c"
    and "\<And>c ch. ch \<in> set (svc_waiting (node_service n') c) \<Longrightarrow>
          ch \<in> set (svc_waiting (node_service n) c) \<or> block_owner n' ch c"
    and "\<And>ch v. (ch, v) \<in> set (block_replies (node_service n')) \<Longrightarrow>
          (ch, v) \<in> set (block_replies (node_service n)) \<or>
          (\<exists>c. block_owner n' ch c \<and> (v = Ok () \<longrightarrow> look (node_store n') c \<noteq> None))"
    and "\<And>cids ch. Index cids ch \<in> set (command_queue n') \<Longrightarrow>
          Index cids ch \<in> set (command_queue n) \<or> put_owner cars n' ch cids"
    and "\<And>ch v. (ch, v) \<in> set (index_replies (node_service n')) \<Longrightarrow>
          (ch, v) \<in> set (index_replies (node_service n)) \<or> (\<exists>cids. v = Ok cids \<and> put_owner cars n' ch cids)"
    and "dom (pending_calls n') \<subseteq> used_chans n'"
  shows "node_inv cars look n'"
proof -
  note old = node_invD [OF assms(1)] and own = later_owner [OF assms(2)]
  have "\<exists>c. block_owner n' ch c \<and> (v = Ok () \<longrightarrow> look (node_store n') c \<noteq> None)"
    if "(ch, v) \<in> set (block_replies (node_service n'))" for ch v
    using assms(6) [OF that] old(3) own(1) grows_stored [OF assms(3)] by blast
  moreover have "\<exists>cids. v = Ok cids \<and> put_owner cars n' ch cids"
    if "(ch, v) \<in> set (index_replies (node_service n'))" for ch v
    using assms(8) [OF that] old(5) own(2) by blast
  moreover have "block_owner n' ch c" if "GetBitswap c q ch \<in> set (command_queue n')" for c q ch
    using assms(4) [OF that] old(1) own(1) by blast
  moreover have "block_owner n' ch c" if "ch \<in> set (svc_waiting (node_service n') c)" for c ch
    using assms(5) [OF that] old(2) own(1) by blast
  moreover have "put_owner cars n' ch cids" if "Index cids ch \<in> set (command_queue n')" for cids ch
    using assms(7) [OF that] old(4) own(2) by blast
  ultimately show ?thesis
    unfolding node_inv_def using assms(9) by metis
qed

lemma open_call_asks:
  assumes "open_call L cars ch call s = (Asks cmd, s')"
  shows "(\<exists>c q. cmd = GetBitswap c q ch \<and> (call = CallGet c \<or> call = CallData c)) \<or>
    (\<exists>rd cids. call = CallPut rd \<and> cmd = Index cids ch \<and> car_load cars rd s = (Ok cids, s'))"
proof (cases call)
  case (CallGet c)
  with assms show ?thesis by (auto simp: api_get_def split: outcome.splits if_splits)
next
  case (CallData c)
  with assms show ?thesis
    by (auto simp: api_get_data_def split: outcome.splits if_splits option.splits task.splits)
next
  case (CallPut rd)
  with assms show ?thesis by (auto simp: api_put_car_def split: outcome.splits prod.splits task.splits)
qed

lemma node_do_call:
  assumes "node_do L cars (NCall ch call) n = Some n'" and "open_call L cars ch call (node_store n) = (o', s)"
  shows "ch \<notin> used_chans n" and "node_service n' = node_service n"
    and "used_chans n' = insert ch (used_chans n)" and "node_store n' = s" and "node_running n' = node_running n"
  using assms by (auto simp: Let_def add_result_def split: opened.splits option.splits if_splits)

lemma node_do_call_queue:
  assumes "node_do L cars (NCall ch call) n = Some n'" and "open_call L cars ch call (node_store n) = (o', s)"
  shows "pending_calls n' = pending_calls n \<and> command_queue n' = command_queue n \<or>
    (\<exists>cmd. o' = Asks cmd \<and> command_queue n' = command_queue n @ [cmd] \<and>
       pending_calls n' = (pending_calls n)(ch \<mapsto> (call, node_store n)))"
  using assms by (auto simp: Let_def add_result_def split: opened.splits option.splits if_splits)

lemma node_inv_call:
  assumes "node_inv cars look n" and "node_do L cars (NCall ch call) n = Some n'"
    and "grows (look (node_store n)) (look (node_store n'))" and "car_lib_ok cars"
  shows "node_inv cars look n'"
proof -
  obtain o' s where o: "open_call L cars ch call (node_store n) = (o', s)" by fastforce
  note fresh = node_do_call(1) [OF assms(2) o] and svc = node_do_call(2) [OF assms(2) o]
    and used = node_do_call(3) [OF assms(2) o]
  note pend = node_do_call_queue [OF assms(2) o]
  have later: "later n n'" using pend used fresh by (auto simp: later_def)
  note asks = open_call_asks [of L cars ch call "node_store n" _ s]
  have get: "GetBitswap c q ch' \<in> set (command_queue n) \<or> block_owner n' ch' c"
    if "GetBitswap c q ch' \<in> set (command_queue n')" for c q ch'
    using pend
  proof (elim disjE conjE exE)
    fix cmd assume "o' = Asks cmd" "command_queue n' = command_queue n @ [cmd]"
      "pending_calls n' = (pending_calls n)(ch \<mapsto> (call, node_store n))"
    with that asks [of cmd] o used show ?thesis by (auto simp: block_owner_def)
  qed (use that in simp)
  have index: "Index cids ch' \<in> set (command_queue n) \<or> put_owner cars n' ch' cids"
    if "Index cids ch' \<in> set (command_queue n')" for cids ch'
    using pend
  proof (elim disjE conjE exE)
    fix cmd assume "o' = Asks cmd" "command_queue n' = command_queue n @ [cmd]"
      "pending_calls n' = (pending_calls n)(ch \<mapsto> (call, node_store n))"
    with that asks [of cmd] o used assms(4) show ?thesis by (auto simp: put_owner_def dest: car_loadD)
  qed (use that in simp)
  have "dom (pending_calls n') \<subseteq> used_chans n'"
    using pend used node_invD(6) [OF assms(1)] by auto
  from node_inv_step [OF assms(1) later assms(3) get _ _ index _ this] show ?thesis
    by (simp add: svc)
qed

lemma later_same: "used_chans n' = used_chans n \<Longrightarrow> pending_calls n' = pending_calls n \<Longrightarrow> later n n'"
  by (simp add: later_def)

lemma node_inv_command:
  assumes "node_inv cars look n" and "node_do L cars NCommand n = Some n'"
  shows "node_inv cars look n'"
proof -
  obtain cmd q where q: "command_queue n = cmd # q" using assms(2) by (auto split: list.splits)
  obtain r s where h: "handle_command L cmd (node_service n) = (r, s)" by fastforce
  have n': "n' = n\<lparr>node_service := s, node_running := is_ok r, command_queue := q\<rparr>"
    using assms(2) q h by (auto split: if_splits)
  have later: "later n n'" by (rule later_same) (simp_all add: n')
  note own = later_owner [OF later] and old = node_invD [OF assms(1)]
  have get: "block_owner n' ch c" if "cmd = GetBitswap c qt ch" for c qt ch
    using own(1) old(1) [of c qt ch] that q by simp
  have index: "put_owner cars n' ch cids" if "cmd = Index cids ch" for cids ch
    using own(2) old(4) [of cids ch] that q by simp
  note rep = handle_command_replies [OF h]
  show ?thesis
  proof (rule node_inv_step [OF assms(1) later])
    show "ch \<in> set (svc_waiting (node_service n) c) \<or> block_owner n' ch c"
      if "ch \<in> set (svc_waiting (node_service n') c)" for c ch
      using that rep(1) [of ch c] get by (auto simp: n')
    show "(ch, v) \<in> set (block_replies (node_service n)) \<or>
        (\<exists>c. block_owner n' ch c \<and> (v = Ok () \<longrightarrow> look (node_store n') c \<noteq> None))"
      if "(ch, v) \<in> set (block_replies (node_service n'))" for ch v
    proof -
      from that have "(ch, v) \<in> set (block_replies s)" by (simp add: n')
      from rep(2) [OF this] get show ?thesis by blast
    qed
    show "(ch, v) \<in> set (index_replies (node_service n)) \<or> (\<exists>cids. v = Ok cids \<and> put_owner cars n' ch cids)"
      if "(ch, v) \<in> set (index_replies (node_service n'))" for ch v
    proof -
      from that have "(ch, v) \<in> set (index_replies s)" by (simp add: n')
      from rep(3) [OF this] index show ?thesis by blast
    qed
  qed (use old(6) in \<open>auto simp: n' q grows_def\<close>)
qed

lemma node_inv_service:
  assumes "node_inv cars look n" and "node_do L cars (NService op s') n = Some n'"
    and "stores_grow look (NService op s') n n'" and "cid_lib_ok (l_cid L)"
    and "\<And>t c. contains (l_cid L) (l_kv L) t c = Ok True \<Longrightarrow> look t c \<noteq> None"
  shows "node_inv cars look n'"
proof -
  obtain r s where d: "svc_do L op (node_service n) = Some (r, s)" "\<not> is_command op"
    and n': "n' = n\<lparr>node_service := s, node_running := is_ok r, node_store := s'\<rparr>"
    using assms(2) by (auto split: if_splits option.splits)
  have later: "later n n'" by (rule later_same) (simp_all add: n')
  note own = later_owner [OF later] and old = node_invD [OF assms(1)] and rep = svc_do_replies [OF d assms(4)]
  have new: "\<exists>c. block_owner n' ch c \<and> (v = Ok () \<longrightarrow> look s' c \<noteq> None)"
    if "(ch, v) \<in> set (block_replies s)" "(ch, v) \<notin> set (block_replies (node_service n))" for ch v
  proof -
    from rep that obtain c where c: "ch \<in> set (svc_waiting (node_service n) c)"
      "v = Ok () \<longrightarrow> (\<exists>t\<in>event_stores op. contains (l_cid L) (l_kv L) t c = Ok True)" by blast
    have "look s' c \<noteq> None" if "v = Ok ()"
      using c(2) that assms(3,5) grows_stored unfolding stores_grow_def n' by fastforce
    with own(1) [OF old(2) [OF c(1)]] show ?thesis by blast
  qed
  have wait: "ch \<in> set (svc_waiting (node_service n) c)" if "ch \<in> set (svc_waiting s c)" for c ch
    using rep [of c] that by blast
  show ?thesis
  proof (rule node_inv_step [OF assms(1) later])
    show "(ch, v) \<in> set (block_replies (node_service n)) \<or>
        (\<exists>c. block_owner n' ch c \<and> (v = Ok () \<longrightarrow> look (node_store n') c \<noteq> None))"
      if "(ch, v) \<in> set (block_replies (node_service n'))" for ch v
      using new [of ch v] that by (auto simp: n')
  qed (use assms(3) rep wait old(6) in \<open>auto simp: n' stores_grow_def\<close>)
qed

lemma node_do_inv [ursa_inv]:
  assumes "node_inv cars look n" and "node_do L cars op n = Some n'" and "stores_grow look op n n'"
    and "cid_lib_ok (l_cid L)" and "car_lib_ok cars"
    and "\<And>t c. contains (l_cid L) (l_kv L) t c = Ok True \<Longrightarrow> look t c \<noteq> None"
  shows "node_inv cars look n'"
proof (cases op)
  case (NCall ch call)
  then show ?thesis using assms node_inv_call by (auto simp: stores_grow_def)
next
  case NCommand
  then show ?thesis using assms node_inv_command by auto
next
  case (NService o' s')
  then show ?thesis using node_inv_service [of cars look n L o' s' n'] assms by simp
next
  case (NInsert b)
  then show ?thesis
    using assms node_invD(6) [OF assms(1)]
    by (intro node_inv_step [OF assms(1) later_same]) (auto simp: stores_grow_def split: outcome.splits)
next
  case (NReturn ch)
  then have "later n n'" "node_service n' = node_service n" "node_store n' = node_store n"
    "command_queue n' = command_queue n" "dom (pending_calls n') \<subseteq> used_chans n'"
    using assms(2) node_invD(6) [OF assms(1)]
    by (auto simp: later_def add_result_def split: option.splits if_splits)
  then show ?thesis by (intro node_inv_step [OF assms(1)]) (auto simp: grows_def)
qed

section \<open>A concrete run\<close>

lemma demo_call_waits:
  "\<exists>n. node_reach demo_libs one_block_cars (content unary_cid_lib (\<lambda>s. s)) (node_start s part_store) n \<and>
     pending_calls n = [41 \<mapsto> (CallGet (Cid 4), part_store)] \<and> node_running n \<and>
     command_queue n = [GetBitswap (Cid 4) Get 41] \<and> node_service n = s \<and> node_store n = part_store"
proof -
  let ?n = "node_start s part_store :: (nat, bytes \<Rightarrow> bytes option, obj list) node"
  have "content unary_cid_lib (\<lambda>s. s) part_store (Cid 4) = None" by simp
  then have "bs_has (mem_kvdb unary_cid_lib) part_store (Cid 4) = Ok False"
    by (simp add: mem_kvdb_def content_def)
  then have "open_call demo_libs one_block_cars 41 (CallGet (Cid 4)) part_store =
      (Asks (GetBitswap (Cid 4) Get 41), part_store)"
    by (simp add: api_get_def)
  then obtain n where n: "node_do demo_libs one_block_cars (NCall 41 (CallGet (Cid 4))) ?n = Some n"
    "pending_calls n = [41 \<mapsto> (CallGet (Cid 4), part_store)]" "node_running n"
    "command_queue n = [GetBitswap (Cid 4) Get 41]" "node_service n = s" "node_store n = part_store"
    by (simp add: node_start_def)
  have "stores_grow (content unary_cid_lib (\<lambda>s. s)) (NCall 41 (CallGet (Cid 4)) :: (nat, _) node_op) ?n n"
    using n by (simp add: stores_grow_def grows_def node_start_def)
  with n show ?thesis by (blast intro: node_init node_op)
qed

end
