(* ===== verification/Simulation.thy ===== *)
theory Simulation
  imports Main
begin

text \<open>
  Refinement by simulation, the interface shared by the two refinements of this development: the
  node and its clients (\<open>Node_Refinement\<close>), and the locks of the index provider (\<open>Provider_Locks\<close>).
  A concrete step from a state that satisfies the invariant is matched by abstract steps, possibly none.
\<close>

locale simulation =
  fixes conc :: "'c \<Rightarrow> 'c \<Rightarrow> bool"
    and abst :: "'a \<Rightarrow> 'a \<Rightarrow> bool"
    and view :: "'c \<Rightarrow> 'a"
    and inv :: "'c \<Rightarrow> bool"
  assumes inv_step: "inv c \<Longrightarrow> conc c d \<Longrightarrow> inv d"
    and sim_step: "inv c \<Longrightarrow> conc c d \<Longrightarrow> abst\<^sup>*\<^sup>* (view c) (view d)"
begin

lemma steps_inv: "conc\<^sup>*\<^sup>* c d \<Longrightarrow> inv c \<Longrightarrow> inv d"
  by (induction rule: rtranclp_induct) (auto intro: inv_step)

lemma steps_sim: "conc\<^sup>*\<^sup>* c d \<Longrightarrow> inv c \<Longrightarrow> abst\<^sup>*\<^sup>* (view c) (view d)"
proof (induction rule: rtranclp_induct)
  case (step d e)
  from sim_step [OF steps_inv [OF step(1,4)] step(2)] step(3,4) show ?case by (auto intro: rtranclp_trans)
qed simp

text \<open>What the abstract system keeps holds of the view of every concrete state.\<close>

lemma transfer_inv:
  assumes "conc\<^sup>*\<^sup>* c d" and "inv c" and "\<And>a b. abst a b \<Longrightarrow> P a \<Longrightarrow> P b" and "P (view c)"
  shows "P (view d)"
  using steps_sim [OF assms(1,2)] assms(4)
  by (induction rule: rtranclp_induct) (auto intro: assms(3))

end

end
