(* ===== verification/Node_Refinement.thy ===== *)
theory Node_Refinement
  imports Node_System Simulation
begin

text \<open>
  The node as its clients see it. The composition of node interface and network service
  (\<open>Node_System\<close>) refines an abstract content store: every call gets at most one answer, a block that
  is returned is the stored one, a returned DAG is complete, and the root of a successful put was
  handed to the index provider.
\<close>

section \<open>The abstract content store\<close>

text \<open>
  What clients may rely on. The state is the table of stored blocks, the roots handed to the index
  provider, the open calls and the answers given. Blocks and roots only accumulate; an open call is
  answered once, truthfully or with an error. A traversal of an infinite graph may hang.
\<close>

record spec =
  spec_blocks :: "cid \<Rightarrow> bytes option"
  spec_indexed :: "cid set"
  spec_open :: "chan \<Rightarrow> call option"
  spec_used :: "chan set"
  spec_results :: "(chan \<times> call \<times> answer) list"

fun answer_ok ::
  "block_lib \<Rightarrow> (cid \<Rightarrow> bytes option) \<Rightarrow> cid set \<Rightarrow> call \<Rightarrow> answer \<Rightarrow> bool" where
  "answer_ok bl m I (CallGet c) (AnsGet r) = (case r of Ok v \<Rightarrow> v \<noteq> None \<and> v = m c | _ \<Rightarrow> True)"
| "answer_ok bl m I (CallData c) (AnsData r) =
     (case r of
        Ok dag \<Rightarrow> distinct (map fst dag) \<and> set (map fst dag) = reach bl m c \<and> (\<forall>(d, b)\<in>set dag. m d = Some b)
      | _ \<Rightarrow> True)"
| "answer_ok bl m I (CallPut rd) (AnsPut r) = (case r of Ok cids \<Rightarrow> cids \<noteq> [] \<and> hd cids \<in> I | _ \<Rightarrow> True)"
| "answer_ok bl m I _ _ = False"

inductive spec_step :: "block_lib \<Rightarrow> spec \<Rightarrow> spec \<Rightarrow> bool" for bl where
  spec_grow: "grows (spec_blocks a) m \<Longrightarrow> spec_indexed a \<subseteq> I \<Longrightarrow>
     spec_step bl a (a\<lparr>spec_blocks := m, spec_indexed := I\<rparr>)"
| spec_call: "ch \<notin> spec_used a \<Longrightarrow>
     spec_step bl a (a\<lparr>spec_used := insert ch (spec_used a), spec_open := (spec_open a)(ch \<mapsto> call)\<rparr>)"
| spec_answer: "spec_open a ch = Some call \<Longrightarrow> answer_ok bl (spec_blocks a) (spec_indexed a) call ans \<Longrightarrow>
     spec_step bl a (a\<lparr>spec_open := (spec_open a)(ch := None), spec_results := spec_results a @ [(ch, call, ans)]\<rparr>)"
| spec_hang: "spec_open a ch = Some (CallData c) \<Longrightarrow>
     spec_step bl a (a\<lparr>spec_open := (spec_open a)(ch := None)\<rparr>)"

definition node_indexed :: "('w, 's, 'p) node \<Rightarrow> cid set" where
  "node_indexed n = {hd cids | ch cids. (ch, Ok cids) \<in> set (index_replies (node_service n))}"

definition node_abs :: "('s \<Rightarrow> cid \<Rightarrow> bytes option) \<Rightarrow> ('w, 's, 'p) node \<Rightarrow> spec" where
  "node_abs look n =
     \<lparr>spec_blocks = look (node_store n), spec_indexed = node_indexed n,
      spec_open = (\<lambda>ch. map_option fst (pending_calls n ch)), spec_used = used_chans n,
      spec_results = call_results n\<rparr>"

section \<open>Every answer is truthful\<close>

text \<open>What the laws of the parameters give about the store.\<close>

definition node_libs_ok :: "('w, 's, 'p) libs \<Rightarrow> ('s \<Rightarrow> bytes \<Rightarrow> bytes option) \<Rightarrow> 's car_lib \<Rightarrow> bool" where
  "node_libs_ok L tbl cars \<longleftrightarrow>
     cid_lib_ok (l_cid L) \<and> kvdb_ok (l_cid L) (l_kv L) tbl \<and> picks_member (l_pick L) \<and> car_lib_ok cars"

abbreviation look_of :: "('w, 's, 'p) libs \<Rightarrow> ('s \<Rightarrow> bytes \<Rightarrow> bytes option) \<Rightarrow> 's \<Rightarrow> cid \<Rightarrow> bytes option" where
  "look_of L tbl \<equiv> content (l_cid L) tbl"

lemma has_get_content:
  assumes "kvdb_ok cl kv tbl"
  shows "bs_has kv s c = Ok b \<Longrightarrow> b \<longleftrightarrow> content cl tbl s c \<noteq> None"
    and "bs_get kv s c = Ok v \<Longrightarrow> v = content cl tbl s c"
  using assms unfolding kvdb_ok_def content_def by blast+

lemma read_dag_sound:
  assumes "node_libs_ok L tbl cars" and "read_dag L s c = Some (Ok dag)"
  shows "answer_ok (l_blk L) (look_of L tbl s) I (CallData c) (AnsData (Ok dag))"
proof -
  have "dag_traversal (l_pick L) (l_cid L) (l_kv L) (l_blk L) s c = Some (Ok dag)"
    using assms by (simp add: node_libs_ok_def read_dag_def)
  with dag_traversal_sound [of "l_cid L" "l_kv L" tbl "l_pick L" "l_blk L" s c dag] assms(1)
  show ?thesis by (simp add: node_libs_ok_def)
qed

lemma answer_data_ok:
  assumes "node_libs_ok L tbl cars" and "read_dag L s c = Some r"
  shows "answer_ok (l_blk L) (look_of L tbl s) I (CallData c) (AnsData r)"
  using read_dag_sound [OF assms(1), of s c] assms(2) by (cases r) simp_all

lemma open_call_answered:
  assumes "node_libs_ok L tbl cars" and "open_call L cars ch call s = (Answered a, s')"
  shows "answer_ok (l_blk L) (look_of L tbl s') I call a"
proof (cases call)
  case (CallGet c)
  note kv = has_get_content [of "l_cid L" "l_kv L" tbl s c]
  from assms CallGet kv show ?thesis
    by (auto simp: api_get_def node_libs_ok_def outcome_simps split: outcome.splits if_splits)
next
  case (CallData c)
  with assms(2) have "s' = s" "(\<exists>r. read_dag L s c = Some r \<and> a = AnsData r) \<or> (\<exists>e. a = AnsData (Err e)) \<or> (\<exists>x. a = AnsData (Panic x))"
    by (auto simp: api_get_data_def split: outcome.splits if_splits option.splits)
  with answer_data_ok [OF assms(1)] CallData show ?thesis by fastforce
next
  case (CallPut rd)
  with assms(2) show ?thesis by (auto simp: api_put_car_def split: outcome.splits prod.splits)
qed

text \<open>A call that could not send its command fails with an error.\<close>

lemma send_failed:
  assumes "open_call L cars ch call s = (Asks cmd, s')"
  shows "close_call L cars ch call s (Some SendFailed) (Some SendFailed) t =
    Some (case call of CallGet c \<Rightarrow> AnsGet (Err SendError) | CallData c \<Rightarrow> AnsData (Err SendError)
          | CallPut rd \<Rightarrow> AnsPut (Err SendError))"
proof (cases call)
  case (CallGet c)
  with assms show ?thesis by (auto simp: api_get_def split: outcome.splits if_splits)
next
  case (CallData c)
  with assms show ?thesis by (auto simp: api_get_data_def split: outcome.splits if_splits option.splits)
next
  case (CallPut rd)
  with assms show ?thesis by (auto simp: api_put_car_def split: outcome.splits prod.splits task.splits)
qed

lemma heard_Delivered: "heard running log ch = Some (Delivered v) \<Longrightarrow> (ch, v) \<in> set log"
  by (auto simp: heard_def split: option.splits if_splits dest: map_of_SomeD)

lemma bitswap_answer_Ok: "bitswap_answer d = Ok u \<longleftrightarrow> d = Delivered (Ok ())"
  by (cases d rule: bitswap_answer.cases) auto

text \<open>A waiting call that returns.\<close>

lemma close_call_ok:
  assumes "node_libs_ok L tbl cars" and "node_inv cars (look_of L tbl) n"
    and "pending_calls n ch = Some (call, s0)"
    and "close_call L cars ch call s0
      (heard (node_running n) (block_replies (node_service n)) ch)
      (heard (node_running n) (index_replies (node_service n)) ch) (node_store n) = Some a"
  shows "answer_ok (l_blk L) (look_of L tbl (node_store n)) (node_indexed n) call a"
proof (cases call)
  case (CallGet c)
  with assms(4) obtain d where d: "heard (node_running n) (block_replies (node_service n)) ch = Some d"
    "a = AnsGet (obind (bitswap_answer d) (\<lambda>_. bs_get (l_kv L) (node_store n) c))"
    by (auto simp: api_get_def split: outcome.splits if_splits option.splits task.splits)
  show ?thesis
  proof (cases "obind (bitswap_answer d) (\<lambda>_. bs_get (l_kv L) (node_store n) c)")
    case (Ok v)
    then have v: "d = Delivered (Ok ())" "bs_get (l_kv L) (node_store n) c = Ok v"
      by (auto simp: outcome_simps bitswap_answer_Ok)
    with d have "(ch, Ok ()) \<in> set (block_replies (node_service n))" by (auto dest: heard_Delivered)
    from node_invD(3) [OF assms(2) this] assms(3) CallGet have "look_of L tbl (node_store n) c \<noteq> None"
      by (auto simp: block_owner_def)
    with v(2) has_get_content(2) assms(1) d Ok CallGet show ?thesis
      by (fastforce simp: node_libs_ok_def)
  qed (use d CallGet in simp_all)
next
  case (CallData c)
  with assms(4) consider r where "read_dag L (node_store n) c = Some r" "a = AnsData r"
    | e where "a = AnsData (Err e)" | x where "a = AnsData (Panic x)"
    by (auto simp: api_get_data_def split: outcome.splits if_splits option.splits task.splits)
  then show ?thesis using answer_data_ok [OF assms(1)] CallData by cases simp_all
next
  case (CallPut rd)
  with assms(4) obtain cids s1 d where l: "car_load cars rd s0 = (Ok cids, s1)"
    and d: "heard (node_running n) (index_replies (node_service n)) ch = Some d"
    and a: "a = AnsPut (case d of SendFailed \<Rightarrow> Err SendError | Delivered v \<Rightarrow> Ok cids | Dropped \<Rightarrow> Err PutFailed)"
    by (auto simp: api_put_car_def split: outcome.splits prod.splits option.splits)
  show ?thesis
  proof (cases d)
    case (Delivered v)
    with d have "(ch, v) \<in> set (index_replies (node_service n))" by (auto dest: heard_Delivered)
    moreover from node_invD(5) [OF assms(2) this] assms(3) CallPut l have "v = Ok cids" "cids \<noteq> []"
      by (auto simp: put_owner_def)
    ultimately show ?thesis using a Delivered CallPut by (auto simp: node_indexed_def)
  qed (use a CallPut in simp_all)
qed

section \<open>Simulation\<close>

lemma node_indexed_mono:
  "set (index_replies (node_service n)) \<subseteq> set (index_replies (node_service n')) \<Longrightarrow>
   node_indexed n \<subseteq> node_indexed n'"
  by (auto simp: node_indexed_def)

text \<open>A step that neither starts nor ends a call.\<close>

lemma sim_grow:
  assumes "grows (look (node_store n)) (look (node_store n'))" and "node_indexed n \<subseteq> node_indexed n'"
    and "pending_calls n' = pending_calls n" and "used_chans n' = used_chans n" and "call_results n' = call_results n"
  shows "(spec_step bl)\<^sup>*\<^sup>* (node_abs look n) (node_abs look n')"
proof -
  have "node_abs look n' = (node_abs look n)\<lparr>spec_blocks := look (node_store n'), spec_indexed := node_indexed n'\<rparr>"
    by (simp add: node_abs_def assms(3-5))
  moreover have "spec_step bl (node_abs look n) \<dots>"
    using assms(1,2) by (intro spec_grow) (simp_all add: node_abs_def)
  ultimately show ?thesis by auto
qed

lemma spec_open_grow:
  assumes "ch \<notin> spec_used a" and "grows (spec_blocks a) m"
  shows "(spec_step bl)\<^sup>*\<^sup>* a (a\<lparr>spec_used := insert ch (spec_used a),
    spec_open := (spec_open a)(ch \<mapsto> call), spec_blocks := m\<rparr>)"
proof -
  let ?b = "a\<lparr>spec_used := insert ch (spec_used a), spec_open := (spec_open a)(ch \<mapsto> call)\<rparr>"
  have "spec_step bl a ?b" using assms(1) by (rule spec_call)
  moreover have "spec_step bl ?b (?b\<lparr>spec_blocks := m, spec_indexed := spec_indexed ?b\<rparr>)"
    using assms(2) by (intro spec_grow) simp_all
  ultimately have "(spec_step bl)\<^sup>*\<^sup>* a (?b\<lparr>spec_blocks := m, spec_indexed := spec_indexed ?b\<rparr>)" by auto
  then show ?thesis by simp
qed

lemma sim_call:
  assumes "node_libs_ok L tbl cars" and "node_inv cars (look_of L tbl) n"
    and "node_do L cars (NCall ch call) n = Some n'"
    and "grows (look_of L tbl (node_store n)) (look_of L tbl (node_store n'))"
  shows "(spec_step (l_blk L))\<^sup>*\<^sup>* (node_abs (look_of L tbl) n) (node_abs (look_of L tbl) n')"
proof -
  let ?a = "node_abs (look_of L tbl) n" and ?step = "(spec_step (l_blk L))\<^sup>*\<^sup>*"
  obtain o' s where o: "open_call L cars ch call (node_store n) = (o', s)" by fastforce
  note fresh = node_do_call(1) [OF assms(3) o] and s = node_do_call(4) [OF assms(3) o]
  have idx: "node_indexed n' = node_indexed n" by (simp add: node_indexed_def node_do_call(2) [OF assms(3) o])
  have "pending_calls n ch = None"
    using fresh node_invD(6) [OF assms(2), of ch] by (cases "pending_calls n ch") auto
  then have free: "(\<lambda>c. map_option fst (pending_calls n c))(ch := None) = (\<lambda>c. map_option fst (pending_calls n c))"
    by (simp add: fun_upd_idem)
  let ?b = "?a\<lparr>spec_used := insert ch (used_chans n),
      spec_open := (spec_open ?a)(ch \<mapsto> call), spec_blocks := look_of L tbl s\<rparr>"
  have opn: "?step ?a ?b"
    using spec_open_grow [of ch ?a "look_of L tbl s" "l_blk L" call] fresh assms(4) s by (simp add: node_abs_def)
  have answered: "?step ?b (node_abs (look_of L tbl) n')"
    if "answer_ok (l_blk L) (look_of L tbl s) (node_indexed n) call a"
      "n' = add_result ch call a (n\<lparr>used_chans := insert ch (used_chans n), node_store := s\<rparr>)" for a
  proof -
    have "spec_step (l_blk L) ?b
        (?b\<lparr>spec_open := (spec_open ?b)(ch := None), spec_results := spec_results ?b @ [(ch, call, a)]\<rparr>)"
      using that(1) by (intro spec_answer) (simp_all add: node_abs_def)
    moreover have "\<dots> = node_abs (look_of L tbl) n'"
      using free idx by (simp add: that(2) node_abs_def add_result_def)
    ultimately show ?thesis by auto
  qed
  show ?thesis
  proof (cases o')
    case (Answered a)
    with open_call_answered [OF assms(1)] o answered [of a] opn assms(3) fresh show ?thesis
      by (auto simp: Let_def)
  next
    case Diverges
    with o obtain c where "call = CallData c"
      by (cases call) (auto split: task.splits prod.splits option.splits)
    then have "spec_step (l_blk L) ?b (?b\<lparr>spec_open := (spec_open ?b)(ch := None)\<rparr>)"
      by (intro spec_hang) (simp add: node_abs_def)
    moreover have "\<dots> = node_abs (look_of L tbl) n'"
      using free idx assms(3) o Diverges fresh by (auto simp: Let_def node_abs_def)
    ultimately show ?thesis using opn by auto
  next
    case (Asks cmd)
    show ?thesis
    proof (cases "node_running n")
      case True
      with assms(3) o Asks fresh idx have "?b = node_abs (look_of L tbl) n'"
        by (auto simp: Let_def node_abs_def)
      with opn show ?thesis by simp
    next
      case False
      let ?e = "case call of CallGet c \<Rightarrow> AnsGet (Err SendError) | CallData c \<Rightarrow> AnsData (Err SendError)
          | CallPut rd \<Rightarrow> AnsPut (Err SendError)"
      have "answer_ok (l_blk L) (look_of L tbl s) (node_indexed n) call ?e" by (cases call) simp_all
      moreover have "close_call L cars ch call (node_store n) (Some SendFailed) (Some SendFailed) s = Some ?e"
        by (rule send_failed [OF o [unfolded Asks]])
      with assms(3) o Asks fresh False
      have "n' = add_result ch call ?e (n\<lparr>used_chans := insert ch (used_chans n), node_store := s\<rparr>)"
        by (simp add: Let_def)
      ultimately have "?step ?b (node_abs (look_of L tbl) n')" by (rule answered)
      with opn show ?thesis by auto
    qed
  qed
qed

lemma node_do_sim:
  assumes "node_libs_ok L tbl cars" and "node_inv cars (look_of L tbl) n" and "node_do L cars op n = Some n'"
    and "stores_grow (look_of L tbl) op n n'"
  shows "(spec_step (l_blk L))\<^sup>*\<^sup>* (node_abs (look_of L tbl) n) (node_abs (look_of L tbl) n')"
proof (cases op)
  case (NCall ch call)
  then show ?thesis using sim_call [OF assms(1,2)] assms(3,4) by (simp add: stores_grow_def)
next
  case NCommand
  then obtain cmd q where "command_queue n = cmd # q" and run: "node_running n"
    using assms(3) by (auto split: list.splits if_splits)
  then have n': "n' = n\<lparr>node_service := snd (handle_command L cmd (node_service n)),
      node_running := is_ok (fst (handle_command L cmd (node_service n))), command_queue := q\<rparr>"
    using assms(3) NCommand by (simp add: case_prod_beta)
  have "node_indexed n \<subseteq> node_indexed n'"
    by (rule node_indexed_mono) (simp add: n' handle_command_index_log)
  then show ?thesis by (rule sim_grow [rotated]) (simp_all add: n' grows_def)
next
  case (NService o' s')
  then obtain r s where d: "svc_do L o' (node_service n) = Some (r, s)" "\<not> is_command o'"
    and n': "n' = n\<lparr>node_service := s, node_running := is_ok r, node_store := s'\<rparr>"
    using assms(3) by (auto split: if_splits option.splits)
  have "index_replies s = index_replies (node_service n)" by (rule svc_do_index_log [OF d])
  then have "node_indexed n \<subseteq> node_indexed n'" by (simp add: node_indexed_def n')
  then show ?thesis using assms(4) by (intro sim_grow) (simp_all add: n' stores_grow_def)
next
  case (NInsert b)
  then show ?thesis
    using assms(3,4) by (intro sim_grow node_indexed_mono) (auto simp: stores_grow_def split: outcome.splits)
next
  case (NReturn ch)
  then obtain call s0 a where p: "pending_calls n ch = Some (call, s0)"
    and c: "close_call L cars ch call s0
        (heard (node_running n) (block_replies (node_service n)) ch)
        (heard (node_running n) (index_replies (node_service n)) ch) (node_store n) = Some a"
    and n': "n' = add_result ch call a (n\<lparr>pending_calls := (pending_calls n)(ch := None)\<rparr>)"
    using assms(3) by (auto split: option.splits)
  let ?a = "node_abs (look_of L tbl) n"
  have "spec_step (l_blk L) ?a
      (?a\<lparr>spec_open := (spec_open ?a)(ch := None), spec_results := spec_results ?a @ [(ch, call, a)]\<rparr>)"
    using close_call_ok [OF assms(1,2) p c] p by (intro spec_answer) (simp_all add: node_abs_def)
  moreover have "\<dots> = node_abs (look_of L tbl) n'"
    by (auto simp: node_abs_def n' add_result_def node_indexed_def fun_eq_iff)
  ultimately show ?thesis by auto
qed

lemma contains_content:
  assumes "node_libs_ok L tbl cars" and "contains (l_cid L) (l_kv L) t c = Ok True"
  shows "look_of L tbl t c \<noteq> None"
  using assms by (auto simp: node_libs_ok_def kvdb_ok_def contains_def content_def outcome_simps)

lemma node_start_inv:
  "response_channels s = Map.empty \<Longrightarrow> block_replies s = [] \<Longrightarrow> index_replies s = [] \<Longrightarrow>
   node_inv cars look (node_start s store)"
  by (simp add: node_inv_def node_start_def svc_waiting_def)

text \<open>The composition as a step relation, and the simulation it is an instance of.\<close>

definition node_step ::
  "('w, 's, 'p) libs \<Rightarrow> 's car_lib \<Rightarrow> ('s \<Rightarrow> cid \<Rightarrow> bytes option) \<Rightarrow> ('w, 's, 'p) node \<Rightarrow> ('w, 's, 'p) node \<Rightarrow> bool"
  where "node_step L cars look n n' \<longleftrightarrow> (\<exists>op. node_do L cars op n = Some n' \<and> stores_grow look op n n')"

lemma node_reach_steps: "node_reach L cars look n0 n \<Longrightarrow> (node_step L cars look)\<^sup>*\<^sup>* n0 n"
  by (induction rule: node_reach.induct) (auto simp: node_step_def intro: rtranclp.rtrancl_into_rtrancl)

interpretation nodes: simulation "node_step L cars (look_of L tbl)" "spec_step (l_blk L)"
    "node_abs (look_of L tbl)" "\<lambda>n. node_libs_ok L tbl cars \<and> node_inv cars (look_of L tbl) n"
  for L tbl cars
proof (unfold_locales, goal_cases)
  case (1 n n')
  with node_do_inv [of cars "look_of L tbl" n L] contains_content [of L tbl cars] show ?case
    by (auto simp: node_step_def node_libs_ok_def)
next
  case (2 n n')
  with node_do_sim show ?case by (auto simp: node_step_def)
qed

lemma node_reach_sim:
  assumes "node_libs_ok L tbl cars" and "node_reach L cars (look_of L tbl) n0 n"
    and "node_inv cars (look_of L tbl) n0"
  shows "(spec_step (l_blk L))\<^sup>*\<^sup>* (node_abs (look_of L tbl) n0) (node_abs (look_of L tbl) n)"
  using nodes.steps_sim [OF node_reach_steps [OF assms(2)]] assms(1,3) by simp

section \<open>What the abstract store guarantees\<close>

definition spec_inv :: "spec \<Rightarrow> bool" where
  "spec_inv a \<longleftrightarrow>
     distinct (map fst (spec_results a)) \<and> fst ` set (spec_results a) \<subseteq> spec_used a \<and>
     dom (spec_open a) \<subseteq> spec_used a \<and> dom (spec_open a) \<inter> fst ` set (spec_results a) = {} \<and>
     (\<forall>ch c v. (ch, CallGet c, AnsGet (Ok v)) \<in> set (spec_results a) \<longrightarrow> v \<noteq> None \<and> v = spec_blocks a c) \<and>
     (\<forall>ch rd cids. (ch, CallPut rd, AnsPut (Ok cids)) \<in> set (spec_results a) \<longrightarrow>
        cids \<noteq> [] \<and> hd cids \<in> spec_indexed a)"

lemma spec_step_inv [ursa_inv]: "spec_step bl a b \<Longrightarrow> spec_inv a \<Longrightarrow> spec_inv b"
proof (induction rule: spec_step.induct)
  case (spec_grow a m I)
  have "v = m c" if "v \<noteq> None" "v = spec_blocks a c" for v c
    using that spec_grow(1) unfolding grows_def map_le_def by (metis domIff)
  moreover have "hd cids \<in> I" if "hd cids \<in> spec_indexed a" for cids using that spec_grow(2) by blast
  ultimately show ?case using spec_grow(3) unfolding spec_inv_def by simp
next
  case (spec_call ch a call)
  then show ?case by (auto simp: spec_inv_def)
next
  case (spec_answer a ch call ans)
  have "ch \<in> dom (spec_open a)" using spec_answer(1) by auto
  with spec_answer(3) have "ch \<in> spec_used a" "ch \<notin> fst ` set (spec_results a)"
    by (auto simp: spec_inv_def)
  with spec_answer show ?case by (auto simp: spec_inv_def split: if_splits)
next
  case (spec_hang a ch c)
  then show ?case by (auto simp: spec_inv_def)
qed

lemma spec_invD:
  assumes "spec_inv a"
  shows "distinct (map fst (spec_results a))"
    and "(ch, CallGet c, AnsGet (Ok v)) \<in> set (spec_results a) \<Longrightarrow> v \<noteq> None \<and> v = spec_blocks a c"
    and "(ch, CallPut rd, AnsPut (Ok cids)) \<in> set (spec_results a) \<Longrightarrow> cids \<noteq> [] \<and> hd cids \<in> spec_indexed a"
  using assms unfolding spec_inv_def by blast+

lemma node_start_new_inv:
  assumes "service_new pl gl mk lp peer_of kp config provider = Ok s"
  shows "node_inv cars look (node_start s store)"
  by (rule node_start_inv [OF service_new_Ok(3,5,6) [OF assms]])

lemma node_results_inv:
  assumes "node_libs_ok L tbl cars" and "service_new pl gl mk (l_net L) peer_of kp config provider = Ok s"
    and "node_reach L cars (content (l_cid L) tbl) (node_start s store) n"
  shows "spec_inv (node_abs (content (l_cid L) tbl) n)"
proof (rule nodes.transfer_inv [OF node_reach_steps [OF assms(3)], where P = spec_inv])
  show "node_libs_ok L tbl cars \<and> node_inv cars (look_of L tbl) (node_start s store)"
    using assms(1) node_start_new_inv [OF assms(2)] by simp
  show "spec_inv (node_abs (content (l_cid L) tbl) (node_start s store))"
    by (simp add: spec_inv_def node_abs_def node_start_def dom_def)
qed (rule spec_step_inv)

lemma demo_get_answered:
  "\<exists>n. node_do demo_libs one_block_cars (NCall 7 (CallGet (Cid 3))) (node_start s part_store) = Some n \<and>
     node_reach demo_libs one_block_cars (content unary_cid_lib (\<lambda>s. s)) (node_start s part_store) n \<and>
     call_results n = [(7, CallGet (Cid 3), AnsGet (Ok (Some [4])))]"
proof -
  let ?n = "node_start s part_store :: (nat, bytes \<Rightarrow> bytes option, obj list) node"
  let ?op = "NCall 7 (CallGet (Cid 3)) :: (nat, bytes \<Rightarrow> bytes option) node_op"
  have "bs_has (mem_kvdb unary_cid_lib) part_store (Cid 3) = Ok True"
    "bs_get (mem_kvdb unary_cid_lib) part_store (Cid 3) = Ok (content unary_cid_lib (\<lambda>s. s) part_store (Cid 3))"
    using content_part_store [of "Cid 3"] by (simp_all add: mem_kvdb_def content_def)
  then have "open_call demo_libs one_block_cars 7 (CallGet (Cid 3)) part_store = (Answered (AnsGet (Ok (Some [4]))), part_store)"
    by (simp add: api_get_def)
  then obtain n where n: "node_do demo_libs one_block_cars ?op ?n = Some n" "node_store n = part_store"
    "call_results n = [(7, CallGet (Cid 3), AnsGet (Ok (Some [4])))]"
    by (simp add: node_start_def add_result_def)
  have "stores_grow (content (l_cid demo_libs) (\<lambda>s. s)) ?op ?n n"
    using n by (simp add: stores_grow_def grows_def node_start_def)
  with n(1) have r: "node_reach demo_libs one_block_cars (content (l_cid demo_libs) (\<lambda>s. s)) ?n n"
    by (blast intro: node_init node_op)
  with n show ?thesis by auto
qed

section \<open>Properties\<close>

text \<open>
  C1. The node implements an abstract content store: whatever clients, peers and the database do,
  every state the node reaches from a freshly constructed service is, through \<open>node_abs\<close>, a state
  the abstract store reaches, in which calls are answered at most once and truthfully.
\<close>

theorem node_refines_content_store:
  assumes "node_libs_ok L tbl cars" and "service_new pl gl mk (l_net L) peer_of kp config provider = Ok s"
    and "node_reach L cars (content (l_cid L) tbl) (node_start s store) n"
  shows "(spec_step (l_blk L))\<^sup>*\<^sup>*
    (node_abs (content (l_cid L) tbl) (node_start s store)) (node_abs (content (l_cid L) tbl) n)"
  by (rule node_reach_sim [OF assms(1,3) node_start_new_inv [OF assms(2)]])

theorem node_refines_content_store_witness:
  "\<exists>s n. service_new plain_peer_lib checking_gossip_lib (\<lambda>g. g) counter_libp2p (\<lambda>k. PeerId 0) (Ed25519 3)
       demo_config fresh_provider = Ok s \<and>
     node_reach demo_libs one_block_cars (content unary_cid_lib (\<lambda>s. s)) (node_start s part_store) n \<and>
     spec_open (node_abs (content unary_cid_lib (\<lambda>s. s)) n) 41 = Some (CallGet (Cid 4)) \<and>
     (spec_step link_blocks)\<^sup>*\<^sup>* (node_abs (content unary_cid_lib (\<lambda>s. s)) (node_start s part_store))
       (node_abs (content unary_cid_lib (\<lambda>s. s)) n)"
proof -
  obtain s where s: "service_new plain_peer_lib checking_gossip_lib (\<lambda>g. g) (l_net demo_libs) (\<lambda>k. PeerId 0)
      (Ed25519 3) demo_config fresh_provider = Ok s"
    using demo_service_new by auto
  obtain n where n: "node_reach demo_libs one_block_cars (content (l_cid demo_libs) (\<lambda>s. s)) (node_start s part_store) n"
    and p: "pending_calls n 41 = Some (CallGet (Cid 4), part_store)"
    using demo_call_waits [of s] by auto
  have "node_libs_ok demo_libs (\<lambda>s. s) one_block_cars" by (simp add: node_libs_ok_def)
  note sim = node_refines_content_store [OF this s n]
  have "spec_open (node_abs (content unary_cid_lib (\<lambda>s. s)) n) 41 = Some (CallGet (Cid 4))"
    using p by (simp add: node_abs_def)
  with s n sim show ?thesis by auto
qed

text \<open>
  A block returned by the node is the stored one: in every state the node reaches, no channel
  was answered twice, and a successful get has returned a block, never \<open>None\<close>, equal to what the
  store holds under that CID now.
\<close>

theorem node_get_returns_stored_block:
  assumes "node_libs_ok L tbl cars" and "service_new pl gl mk (l_net L) peer_of kp config provider = Ok s"
    and "node_reach L cars (content (l_cid L) tbl) (node_start s store) n"
    and "(ch, CallGet c, AnsGet (Ok v)) \<in> set (call_results n)"
  shows "distinct (map fst (call_results n)) \<and> v \<noteq> None \<and> v = content (l_cid L) tbl (node_store n) c"
proof -
  note inv = node_results_inv [OF assms(1-3)]
  show ?thesis
    using spec_invD(1) [OF inv] spec_invD(2) [OF inv, of ch c v] assms(4) by (auto simp: node_abs_def)
qed

theorem node_get_returns_stored_block_witness:
  "\<exists>s n. service_new plain_peer_lib checking_gossip_lib (\<lambda>g. g) counter_libp2p (\<lambda>k. PeerId 0) (Ed25519 3)
       demo_config fresh_provider = Ok s \<and>
     node_do demo_libs one_block_cars (NCall 7 (CallGet (Cid 3))) (node_start s part_store) = Some n \<and>
     call_results n = [(7, CallGet (Cid 3), AnsGet (Ok (Some [4])))]"
proof -
  obtain s where s: "service_new plain_peer_lib checking_gossip_lib (\<lambda>g. g) (l_net demo_libs) (\<lambda>k. PeerId 0)
      (Ed25519 3) demo_config fresh_provider = Ok s"
    using demo_service_new by auto
  obtain n where n: "node_do demo_libs one_block_cars (NCall 7 (CallGet (Cid 3))) (node_start s part_store) = Some n"
    and r: "node_reach demo_libs one_block_cars (content (l_cid demo_libs) (\<lambda>s. s)) (node_start s part_store) n"
    and c: "call_results n = [(7, CallGet (Cid 3), AnsGet (Ok (Some [4])))]"
    using demo_get_answered [of s] by auto
  have "node_libs_ok demo_libs (\<lambda>s. s) one_block_cars" by (simp add: node_libs_ok_def)
  from node_get_returns_stored_block [OF this s r, of 7 "Cid 3"] s n c show ?thesis by auto
qed

end
