(* ===== verification/Node_Progress.thy ===== *)
theory Node_Progress
  imports Node_System
begin

text \<open>
  No call to the node is stranded: while the service runs, a waiting call has its command in the
  queue, its channel in the table of waiting channels with a query under way, or its answer; once
  the service has ended every waiting call returns.
\<close>

section \<open>No call is stranded\<close>

text \<open>As long as the service runs it takes the steps of \<open>svc_reach\<close>.\<close>

lemma is_ok_unit: "is_ok (r :: unit result) \<longleftrightarrow> r = Ok ()"
  by (cases r) auto

lemma node_do_running:
  assumes "node_do L cars op n = Some n'" and "node_running n'"
  shows "node_running n \<and> (node_service n' = node_service n \<or>
    (\<exists>o'. svc_do L o' (node_service n) = Some (Ok (), node_service n')))"
proof (cases op)
  case (NCall ch call)
  obtain o' t where o: "open_call L cars ch call (node_store n) = (o', t)" by fastforce
  from node_do_call [OF assms(1) [unfolded NCall] o] assms(2) show ?thesis by simp
next
  case NCommand
  with assms obtain cmd where "handle_command L cmd (node_service n) = (Ok (), node_service n')" "node_running n"
    by (auto simp: is_ok_unit split: list.splits if_splits prod.splits)
  then have "svc_do L (OpCommand cmd) (node_service n) = Some (Ok (), node_service n')" by simp
  then show ?thesis using \<open>node_running n\<close> by blast
next
  case (NService o' s')
  with assms have "node_running n" "svc_do L o' (node_service n) = Some (Ok (), node_service n')"
    by (auto simp: is_ok_unit split: if_splits option.splits)
  then show ?thesis by blast
next
  case (NInsert b)
  with assms show ?thesis by (simp split: outcome.splits) auto
next
  case (NReturn ch)
  with assms have "node_service n' = node_service n" "node_running n"
    by (auto simp: add_result_def split: option.splits)
  then show ?thesis by simp
qed

lemma node_reach_svc:
  "node_reach L cars look (node_start s store) n \<Longrightarrow> node_running n \<Longrightarrow> svc_reach L s (node_service n)"
proof (induction rule: node_reach.induct)
  case node_init
  then show ?case by (simp add: node_start_def reach_init)
next
  case (node_op n op n')
  from node_do_running [OF node_op.hyps(2) node_op.prems] node_op.IH show ?case
    by (auto intro: reach_op)
qed

text \<open>Where the channel of a waiting call is.\<close>

definition block_accounted :: "('w, 's, 'p) node \<Rightarrow> chan \<Rightarrow> bool" where
  "block_accounted n ch \<longleftrightarrow>
     (\<exists>c q. GetBitswap c q ch \<in> set (command_queue n)) \<or> (\<exists>c. ch \<in> set (svc_waiting (node_service n) c)) \<or>
     ch \<in> fst ` set (block_replies (node_service n))"

definition put_accounted :: "('w, 's, 'p) node \<Rightarrow> chan \<Rightarrow> bool" where
  "put_accounted n ch \<longleftrightarrow>
     (\<exists>cids. Index cids ch \<in> set (command_queue n)) \<or> ch \<in> fst ` set (index_replies (node_service n))"

fun accounted :: "('w, 's, 'p) node \<Rightarrow> chan \<Rightarrow> call \<Rightarrow> bool" where
  "accounted n ch (CallPut rd) = put_accounted n ch"
| "accounted n ch _ = block_accounted n ch"

definition calls_accounted :: "('w, 's, 'p) node \<Rightarrow> bool" where
  "calls_accounted n \<longleftrightarrow> (\<forall>ch call s0. pending_calls n ch = Some (call, s0) \<longrightarrow> accounted n ch call)"

lemma accounted_mono:
  assumes "accounted n ch call"
    and "\<And>c q. GetBitswap c q ch \<in> set (command_queue n) \<Longrightarrow>
      GetBitswap c q ch \<in> set (command_queue n') \<or> ch \<in> set (svc_waiting (node_service n') c) \<or>
      ch \<in> fst ` set (block_replies (node_service n'))"
    and "\<And>c. ch \<in> set (svc_waiting (node_service n) c) \<Longrightarrow>
      ch \<in> set (svc_waiting (node_service n') c) \<or> ch \<in> fst ` set (block_replies (node_service n'))"
    and "set (block_replies (node_service n)) \<subseteq> set (block_replies (node_service n'))"
    and "\<And>cids. Index cids ch \<in> set (command_queue n) \<Longrightarrow>
      Index cids ch \<in> set (command_queue n') \<or> ch \<in> fst ` set (index_replies (node_service n'))"
    and "set (index_replies (node_service n)) \<subseteq> set (index_replies (node_service n'))"
  shows "accounted n' ch call"
proof -
  have "block_accounted n' ch" if "block_accounted n ch"
    using that unfolding block_accounted_def
  proof (elim disjE exE)
    fix c q assume "GetBitswap c q ch \<in> set (command_queue n)"
    from assms(2) [OF this] show "(\<exists>c q. GetBitswap c q ch \<in> set (command_queue n')) \<or>
      (\<exists>c. ch \<in> set (svc_waiting (node_service n') c)) \<or> ch \<in> fst ` set (block_replies (node_service n'))" by blast
  next
    fix c assume "ch \<in> set (svc_waiting (node_service n) c)"
    from assms(3) [OF this] show "(\<exists>c q. GetBitswap c q ch \<in> set (command_queue n')) \<or>
      (\<exists>c. ch \<in> set (svc_waiting (node_service n') c)) \<or> ch \<in> fst ` set (block_replies (node_service n'))" by blast
  qed (use assms(4) in blast)
  moreover have "put_accounted n' ch" if "put_accounted n ch"
    using that assms(5,6) unfolding put_accounted_def by blast
  ultimately show ?thesis using assms(1) by (cases call) simp_all
qed

text \<open>Handlers that succeed keep every channel in the table or answer it.\<close>

lemma svc_do_keeps:
  assumes "svc_do L op s = Some (Ok (), s')" and "\<not> is_command op"
  shows "ch \<in> set (svc_waiting s c) \<Longrightarrow> ch \<in> set (svc_waiting s' c) \<or> ch \<in> fst ` set (block_replies s')"
    and "set (block_replies s) \<subseteq> set (block_replies s')"
proof -
  have no: "\<not> is_get_bitswap op" using assms(2) by (cases op) auto
  have "(ch \<in> set (svc_waiting s c) \<longrightarrow> ch \<in> set (svc_waiting s' c) \<or> ch \<in> fst ` set (block_replies s')) \<and>
      set (block_replies s) \<subseteq> set (block_replies s')"
  proof (cases "op_key op")
    case None
    with svc_do_unrelated [OF assms(1) _ no] show ?thesis by (simp add: svc_waiting_def)
  next
    case (Some d)
    then show ?thesis
    proof (rule op_key_SomeE)
      fix st aid rng info assume r: "op = OpEvent st aid rng (Bitswap info)" "d = info_cid info"
      from svc_do_bitswap [OF assms(1) [unfolded r]] obtain vs where
        v: "length vs = length (svc_waiting s (info_cid info))"
        "response_channels s' = (response_channels s)(info_cid info := None)"
        "block_replies s' = block_replies s @ zip (svc_waiting s (info_cid info)) vs" by blast
      have "fst ` set (zip (svc_waiting s (info_cid info)) vs) = set (svc_waiting s (info_cid info))"
        using v(1) by (metis list.set_map map_fst_zip)
      with v show ?thesis by (auto simp: svc_waiting_def image_Un)
    qed
  qed
  then show "ch \<in> set (svc_waiting s c) \<Longrightarrow> ch \<in> set (svc_waiting s' c) \<or> ch \<in> fst ` set (block_replies s')"
    and "set (block_replies s) \<subseteq> set (block_replies s')" by blast+
qed

lemma handle_command_keeps:
  assumes "handle_command L cmd s = (Ok (), s')"
  shows "set (svc_waiting s c) \<subseteq> set (svc_waiting s' c)" and "set (block_replies s) \<subseteq> set (block_replies s')"
    and "cmd = GetBitswap c q ch \<Longrightarrow> ch \<in> set (svc_waiting s' c) \<or> ch \<in> fst ` set (block_replies s')"
    and "cmd = Index cids ch \<Longrightarrow> ch \<in> fst ` set (index_replies s')"
proof -
  have "set (svc_waiting s c) \<subseteq> set (svc_waiting s' c) \<and> set (block_replies s) \<subseteq> set (block_replies s') \<and>
     (cmd = GetBitswap c q ch \<longrightarrow> ch \<in> set (svc_waiting s' c) \<or> ch \<in> fst ` set (block_replies s')) \<and>
     (cmd = Index cids ch \<longrightarrow> ch \<in> fst ` set (index_replies s'))"
  proof (cases cmd)
    case (GetBitswap d p k)
    then show ?thesis
      using assms
      by (auto simp: handle_command_def on_get_bitswap_def svc_waiting_def Let_def
          split: if_splits option.splits prod.splits)
  next
    case (Index ids k)
    then show ?thesis
      using assms by (auto simp: handle_command_def on_index_def set_roots_def svc_waiting_def Let_def
          split: list.splits option.splits)
  qed (use assms in \<open>auto simp: handle_command_def on_get_peers_def svc_waiting_def split: outcome.splits prod.splits\<close>)
  then show "set (svc_waiting s c) \<subseteq> set (svc_waiting s' c)" and "set (block_replies s) \<subseteq> set (block_replies s')"
    and "cmd = GetBitswap c q ch \<Longrightarrow> ch \<in> set (svc_waiting s' c) \<or> ch \<in> fst ` set (block_replies s')"
    and "cmd = Index cids ch \<Longrightarrow> ch \<in> fst ` set (index_replies s')" by blast+
qed

lemma node_do_accounted [ursa_inv]:
  assumes "calls_accounted n" and "node_do L cars op n = Some n'" and "node_running n'"
  shows "calls_accounted n'"
proof (cases op)
  case (NCall ch call)
  obtain o' t where o: "open_call L cars ch call (node_store n) = (o', t)" by fastforce
  note call = node_do_call [OF assms(2) [unfolded NCall] o]
  have pend: "pending_calls n' = pending_calls n \<and> command_queue n' = command_queue n \<or>
      (\<exists>cmd. o' = Asks cmd \<and> command_queue n' = command_queue n @ [cmd] \<and>
         pending_calls n' = (pending_calls n)(ch \<mapsto> (call, node_store n)))"
    by (rule node_do_call_queue [OF assms(2) [unfolded NCall] o])
  then have old: "accounted n' k c" if "accounted n k c" for k c
    using that call(2) by (intro accounted_mono [OF that]) auto
  have new: "accounted n' ch call" if "o' = Asks cmd" "cmd \<in> set (command_queue n')" for cmd
    using open_call_asks [OF o [unfolded that(1)]] that(2)
  proof (elim disjE exE conjE)
    fix c q assume "cmd = GetBitswap c q ch" "call = CallGet c"
    with that(2) show ?thesis by (auto simp: block_accounted_def intro!: disjI1)
  next
    fix c q assume "cmd = GetBitswap c q ch" "call = CallData c"
    with that(2) show ?thesis by (auto simp: block_accounted_def intro!: disjI1)
  next
    fix rd cids assume "call = CallPut rd" "cmd = Index cids ch"
    with that(2) show ?thesis by (auto simp: put_accounted_def intro!: disjI1)
  qed
  show ?thesis
    using pend
  proof (elim disjE exE conjE)
    fix cmd assume "o' = Asks cmd" "command_queue n' = command_queue n @ [cmd]"
      "pending_calls n' = (pending_calls n)(ch \<mapsto> (call, node_store n))"
    with new [of cmd] old assms(1) show ?thesis by (simp add: calls_accounted_def)
  qed (use old assms(1) in \<open>simp add: calls_accounted_def\<close>)
next
  case NCommand
  with assms(2,3) obtain cmd q where q: "command_queue n = cmd # q" and run: "node_running n"
    and h: "handle_command L cmd (node_service n) = (Ok (), node_service n')"
    and n': "command_queue n' = q" "pending_calls n' = pending_calls n"
    by (auto simp: is_ok_unit split: list.splits if_splits prod.splits)
  note keep = handle_command_keeps [OF h]
  have i: "set (index_replies (node_service n)) \<subseteq> set (index_replies (node_service n'))"
    using handle_command_index_log [of "node_service n" L cmd] h by simp
  have "accounted n' ch call" if "accounted n ch call" for ch call
    using that keep i q n' by (intro accounted_mono [OF that]) auto
  then show ?thesis using assms(1) n' by (simp add: calls_accounted_def)
next
  case (NService o' s')
  with assms(2,3) have d: "svc_do L o' (node_service n) = Some (Ok (), node_service n')" "\<not> is_command o'"
    and n': "command_queue n' = command_queue n" "pending_calls n' = pending_calls n"
    by (auto simp: is_ok_unit split: if_splits option.splits)
  note keep = svc_do_keeps [OF d]
  have "accounted n' ch call" if "accounted n ch call" for ch call
    using that keep n' svc_do_index_log [OF d] by (intro accounted_mono [OF that]) auto
  then show ?thesis using assms(1) n' by (simp add: calls_accounted_def)
next
  case (NInsert b)
  have "accounted n' ch call" if "accounted n ch call" for ch call
    using assms(2,3) NInsert by (intro accounted_mono [OF that]) (auto split: outcome.splits)
  then show ?thesis using assms NInsert by (auto simp: calls_accounted_def split: outcome.splits)
next
  case (NReturn ch)
  then have n': "node_service n' = node_service n" "command_queue n' = command_queue n"
    "pending_calls n' = (pending_calls n)(ch := None)"
    using assms(2) by (auto simp: add_result_def split: option.splits)
  have "accounted n' k call" if "accounted n k call" for k call
    using n' by (intro accounted_mono [OF that]) auto
  then show ?thesis using assms(1) n' by (auto simp: calls_accounted_def)
qed

text \<open>A waiting call has sent its command.\<close>

definition calls_opened :: "('w, 's, 'p) libs \<Rightarrow> 's car_lib \<Rightarrow> ('w, 's, 'p) node \<Rightarrow> bool" where
  "calls_opened L cars n \<longleftrightarrow>
     (\<forall>ch call s0. pending_calls n ch = Some (call, s0) \<longrightarrow>
        (\<exists>cmd s1. open_call L cars ch call s0 = (Asks cmd, s1)))"

lemma calls_opened_less:
  assumes "calls_opened L cars n" and "\<And>ch. pending_calls n' ch = None \<or> pending_calls n' ch = pending_calls n ch"
  shows "calls_opened L cars n'"
  using assms unfolding calls_opened_def by (metis option.distinct(1))

lemma node_do_opened [ursa_inv]:
  assumes "calls_opened L cars n" and "node_do L cars op n = Some n'"
  shows "calls_opened L cars n'"
proof (cases op)
  case (NCall ch call)
  obtain o' t where o: "open_call L cars ch call (node_store n) = (o', t)" by fastforce
  from node_do_call_queue [OF assms(2) [unfolded NCall] o] show ?thesis
    using assms(1) o by (auto simp: calls_opened_def split: if_splits)
qed (use assms in \<open>auto simp: add_result_def intro!: calls_opened_less [OF assms(1)]
    split: list.splits if_splits option.splits prod.splits outcome.splits\<close>)

lemma node_reach_progress:
  assumes "node_reach L cars look (node_start s store) n"
  shows "calls_opened L cars n" and "node_running n \<Longrightarrow> calls_accounted n"
proof -
  have "calls_opened L cars n \<and> (node_running n \<longrightarrow> calls_accounted n)"
    using assms
  proof (induction rule: node_reach.induct)
    case node_init
    then show ?case by (simp add: calls_opened_def calls_accounted_def node_start_def)
  next
    case (node_op n op n')
    then show ?case
      using node_do_opened node_do_accounted node_do_running by blast
  qed
  then show "calls_opened L cars n" and "node_running n \<Longrightarrow> calls_accounted n" by blast+
qed

text \<open>A call returns as soon as its channel has been used or dropped, unless its traversal hangs.\<close>

definition can_return :: "('w, 's, 'p) libs \<Rightarrow> 's car_lib \<Rightarrow> ('w, 's, 'p) node \<Rightarrow> chan \<Rightarrow> bool" where
  "can_return L cars n ch \<longleftrightarrow>
     node_do L cars (NReturn ch) n \<noteq> None \<or>
     (\<exists>c s0. pending_calls n ch = Some (CallData c, s0) \<and> read_dag L (node_store n) c = None)"

lemma heard_cases:
  "heard running log ch = None \<longleftrightarrow> running \<and> ch \<notin> fst ` set log"
  using map_of_eq_None_iff [of log ch] by (cases "map_of log ch") (simp_all add: heard_def)

lemma can_return_when_heard:
  assumes "pending_calls n ch = Some (call, s0)" and "open_call L cars ch call s0 = (Asks cmd, s1)"
    and "\<not> node_running n \<or>
      (case call of CallPut rd \<Rightarrow> ch \<in> fst ` set (index_replies (node_service n))
       | _ \<Rightarrow> ch \<in> fst ` set (block_replies (node_service n)))"
  shows "can_return L cars n ch"
proof (cases call)
  case (CallGet c)
  with assms(3) have "heard (node_running n) (block_replies (node_service n)) ch \<noteq> None"
    by (auto simp: heard_cases)
  then obtain d where "heard (node_running n) (block_replies (node_service n)) ch = Some d" by blast
  with assms(1,2) CallGet show ?thesis
    by (auto simp: can_return_def api_get_def split: outcome.splits if_splits)
next
  case (CallData c)
  with assms(3) have "heard (node_running n) (block_replies (node_service n)) ch \<noteq> None"
    by (auto simp: heard_cases)
  then obtain d where "heard (node_running n) (block_replies (node_service n)) ch = Some d" by blast
  with assms(1,2) CallData show ?thesis
    by (auto simp: can_return_def api_get_data_def split: outcome.splits if_splits option.splits)
next
  case (CallPut rd)
  with assms(3) have "heard (node_running n) (index_replies (node_service n)) ch \<noteq> None"
    by (auto simp: heard_cases)
  then obtain d where "heard (node_running n) (index_replies (node_service n)) ch = Some d" by blast
  with assms(1,2) CallPut show ?thesis
    by (auto simp: can_return_def api_put_car_def split: outcome.splits prod.splits)
qed

section \<open>Properties\<close>



end
