(* ===== verification/Service_Safety.thy ===== *)
theory Service_Safety
  imports Service_Publish Service_Waiters
begin

text \<open>
  What a step of the network service (\<open>crates/ursa-network/src/service.rs\<close>) can return. The handlers
  unwrap and expect in many places; the lemmas go through all of them. Under named conditions on
  the third-party crates (\<open>libs_answer\<close>: encoders and stores accept what they are given) and on the block store
  (\<open>store_sound\<close>: the database answers, and what it holds passes the hash check and decodes), a step succeeds, or it
  is one of two: publishing met a missing block, or listening on a relay failed.

  The last part follows the set-up of the service, transport and relay client, through every
  reachable state.
\<close>

section \<open>Walks over a sound store\<close>

text \<open>The database answers, and every stored block passes the hash check and decodes.\<close>

definition store_sound :: "('w, 's, 'p) libs \<Rightarrow> 's \<Rightarrow> bool" where
  "store_sound L store \<longleftrightarrow>
     (\<forall>c. is_ok (kv_exists (l_kv L) store (cid_to_bytes (l_cid L) c)) \<and> is_ok (bs_get (l_kv L) store c) \<and>
        (\<forall>data. bs_get (l_kv L) store c = Ok (Some data) \<longrightarrow>
           blk_check (l_blk L) c data \<and> is_ok (blk_refs (l_blk L) c data)))"

text \<open>
  Serialising, signing and storing succeed, the provider reads the entries that were written, and
  parsing a multiaddress, gossiping and listening return (a value or an error).
\<close>

definition libs_answer :: "('w, 's, 'p) libs \<Rightarrow> bool" where
  "libs_answer L \<longleftrightarrow>
     is_ok (bincode_metadata (l_ad L) \<lparr>ProtocolID = 0x0900, Data = []\<rparr>) \<and>
     (\<forall>k d t b. is_ok (envelope_new (l_ad L) k d t b)) \<and> (\<forall>ad. is_ok (ad_to_ipld (l_ad L) ad)) \<and>
     (\<forall>bs v. is_ok (put_obj (l_obj L) bs v)) \<and>
     (\<forall>es. \<exists>b. ipld_to_vec L es = Ok b \<and> is_ok (entries_from_slice (l_ann L) b)) \<and>
     (\<forall>as. is_ok (addrs_to_vec (l_ann L) as)) \<and> (\<forall>str x. multiaddr_from_str (l_ann L) str \<noteq> Panic x) \<and>
     (\<forall>t d w x. fst (gossip_publish (l_net L) t d w) \<noteq> Panic x) \<and>
     (\<forall>a w x. fst (swarm_listen_on (l_net L) a w) \<noteq> Panic x)"

lemma libs_answerD:
  assumes "libs_answer L"
  shows "\<exists>m. bincode_metadata (l_ad L) \<lparr>ProtocolID = 0x0900, Data = []\<rparr> = Ok m"
    and "\<exists>n. envelope_new (l_ad L) k d t b = Ok n" and "\<exists>i. ad_to_ipld (l_ad L) ad = Ok i"
    and "\<exists>c bs'. put_obj (l_obj L) bs v = Ok (c, bs')"
    and "\<exists>b es'. ipld_to_vec L es = Ok b \<and> entries_from_slice (l_ann L) b = Ok es'"
    and "\<exists>b. addrs_to_vec (l_ann L) as = Ok b" and "multiaddr_from_str (l_ann L) str \<noteq> Panic x"
    and "fst (gossip_publish (l_net L) topic dt w) \<noteq> Panic x"
    and "fst (swarm_listen_on (l_net L) a w) \<noteq> Panic x"
  using assms unfolding libs_answer_def is_ok_iff
  by (blast, blast, blast, metis surj_pair, blast, blast, blast, blast, blast)

lemma dag_loop_outcome:
  fixes kv :: "'s kvdb" and s :: 's
  assumes cl: "cid_lib_ok cl" and kv: "kvdb_ok cl kv tbl" and pick: "picks_member pick"
    and db: "\<And>c. \<exists>d. bs_get kv s c = Ok d"
    and dec: "\<And>c data. bs_get kv s c = Ok (Some data) \<Longrightarrow> blk_check bl c data \<and> is_ok (blk_refs bl c data)"
    and ret: "dag_loop pick cl kv bl s root n current refs res = Some r"
    and inv: "dag_inv bl (content cl tbl s) root current refs res" and fin: "finite current"
  shows "is_ok r \<or> r = Err (MissingDag root) \<and> (\<exists>d\<in>reach bl (content cl tbl s) root. content cl tbl s d = None)"
proof -
  let ?look = "content cl tbl s"
  let ?Q = "\<lambda>r. is_ok r \<or> r = Err (MissingDag root) \<and> (\<exists>d\<in>reach bl ?look root. ?look d = None)"
  let ?P = "\<lambda>pick' cl' kv' bl' s' root' (n::nat) current refs res r.
    (pick', cl', kv', bl', s', root') = (pick, cl, kv, bl, s, root) \<longrightarrow> finite current \<longrightarrow>
    dag_inv bl ?look root current refs res \<longrightarrow> ?Q r"
  have "?P pick cl kv bl s root n current refs res r"
  proof (rule dag_loop.raw_induct [where P = ?P, OF _ ret], intro impI, goal_cases)
    case (1 f pick' cl' kv' bl' s' root' n current refs res r)
    then have eqs: "pick' = pick" "cl' = cl" "kv' = kv" "bl' = bl" "s' = s" "root' = root" by auto
    note IH = "1"(1) [of pick cl kv bl s root]
    let ?c = "pick n current"
    show ?case
    proof (cases "current = {}")
      case True
      with 1 eqs show ?thesis by auto
    next
      case False
      with pick 1(4) have c: "?c \<in> current" by (simp add: picks_member_def)
      obtain d where get: "bs_get kv s ?c = Ok d" using db by blast
      have look: "?look ?c = d" using bs_get_eq_content [OF kv, of s ?c] get by simp
      consider (seen) "?c \<in> refs" | (missing) "?c \<notin> refs" "d = None" | (stored) data where "?c \<notin> refs" "d = Some data"
        by fastforce
      then show ?thesis
      proof cases
        case seen
        with "1"(2) eqs False have "f pick cl kv bl s root (Suc n) (current - {?c}) refs res = Some r"
          by (simp add: Let_def)
        from IH [OF this] dag_inv_skip [OF "1"(5) seen] "1"(4) show ?thesis by simp
      next
        case missing
        have "?c \<in> reach bl ?look root" using c "1"(5) by (auto simp: dag_inv_def)
        with missing look "1"(2) eqs False get cl show ?thesis by (auto simp: Let_def)
      next
        case stored
        with dec [of ?c data] get obtain rs where rs: "blk_check bl ?c data" "blk_refs bl ?c data = Ok rs"
          by (auto simp: is_ok_iff)
        with "1"(2) eqs False stored get cl
        have "f pick cl kv bl s root (Suc n) (current - {?c} \<union> set rs) (insert ?c refs) (res @ [(?c, data)]) = Some r"
          by (simp add: Let_def)
        from IH [OF this] dag_inv_visit [OF "1"(5) c stored(1) _ rs(2)] look stored(2) "1"(4) show ?thesis by simp
      qed
    qed
  qed
  then show ?thesis using inv fin by simp
qed

lemma dag_traversal_outcome:
  assumes "cid_lib_ok (l_cid L)" and "kvdb_ok (l_cid L) (l_kv L) tbl" and "picks_member (l_pick L)"
    and "store_sound L store"
    and "dag_traversal (l_pick L) (l_cid L) (l_kv L) (l_blk L) store root = Some r"
  shows "is_ok r \<or> r = Err (MissingDag root) \<and> \<not> dag_stored L tbl store root"
proof -
  have "dag_loop (l_pick L) (l_cid L) (l_kv L) (l_blk L) store root 0 {root} {} [] = Some r"
    using assms(1,5) by (simp add: dag_traversal_def)
  from dag_loop_outcome [OF assms(1-3) _ _ this dag_inv_init] assms(4) show ?thesis
    by (auto simp: store_sound_def is_ok_iff dag_stored_def Let_def)
qed

section \<open>Advertisements under construction\<close>

lemma publish_root_cid_typed:
  assumes "publish_root_cid L store aid address root s = Some (r, s')" and "ads_typed (index_provider s)"
  shows "ads_typed (index_provider s')"
  using assms by (rule publish_root_cid_invariant) (auto intro: create_typed add_chunk_typed publish_typed)

lemma publish_loop_typed:
  assumes "publish_loop L st aid address n s = Some r" and "ads_typed (index_provider s)"
  shows "ads_typed (index_provider (snd r))"
  using assms by (rule publish_loop_invariant) (auto simp: set_roots_def intro: publish_root_cid_typed)

section \<open>Outcomes of publishing\<close>

lemma add_chunk_safe:
  assumes "libs_answer L" and "cid_lib_ok (l_cid L)" and "is_ok (entries_from_slice (l_ann L) b)"
    and "temp_ads p aid \<noteq> None"
  shows "\<exists>p'. add_chunk (l_cid L) (l_obj L) (l_ann L) b aid p = (Ok (), p') \<and> temp_ads p' aid \<noteq> None"
proof -
  from assms(3,4) obtain es ad where es: "entries_from_slice (l_ann L) b = Ok es" and ad: "temp_ads p aid = Some ad"
    by (auto simp: is_ok_iff)
  obtain c bs where "put_obj (l_obj L) (blockstore p) (ObjChunk (entry_chunk_new es (Entries ad))) = Ok (c, bs)"
    using libs_answerD(4) [OF assms(1)] by blast
  then show ?thesis using assms(2) by (simp add: add_chunk_def es ad)
qed

lemma add_entry_chunks_safe:
  assumes "libs_answer L" and "cid_lib_ok (l_cid L)" and "temp_ads p aid \<noteq> None"
  shows "\<exists>p'. add_entry_chunks L aid cks p = (Ok (), p') \<and> temp_ads p' aid \<noteq> None"
  using assms(3)
proof (induction cks arbitrary: p)
  case (Cons ck cks)
  obtain b where b: "ipld_to_vec L ck = Ok b" "is_ok (entries_from_slice (l_ann L) b)"
    using libs_answerD(5) [OF assms(1)] by (metis is_ok_iff)
  from add_chunk_safe [OF assms(1,2) b(2) Cons.prems] obtain p1 where
    "add_chunk (l_cid L) (l_obj L) (l_ann L) b aid p = (Ok (), p1)" "temp_ads p1 aid \<noteq> None" by blast
  with Cons.IH [of p1] b(1) show ?case by simp
qed simp

lemma sign_safe: "libs_answer L \<Longrightarrow> ad_signable ad \<Longrightarrow> \<exists>n. sign cl (l_ad L) kp ad = Ok n"
  using sig_payload_ok_iff [of cl "l_ad L" ad] libs_answerD(2) [of L]
  by (fastforce simp: sign_def is_ok_iff outcome_simps)

lemma publish_safe:
  assumes "libs_answer L" and "cid_lib_ok (l_cid L)" and "ads_typed p" and "temp_ads p aid \<noteq> None"
  shows "\<exists>p'. publish (l_cid L) (l_ad L) (l_obj L) aid p = (Ok (), p') \<and> head p' \<noteq> None"
proof -
  from assms(4) obtain ad where ad: "temp_ads p aid = Some ad" by blast
  let ?ad = "ad\<lparr>PreviousID := map_option IpldLink (head p)\<rparr>"
  have "ad_signable ?ad" using assms(3) ad by (auto simp: ads_typed_def ad_signable_def)
  then obtain sig where sig: "sign (l_cid L) (l_ad L) (prov_keypair p) ?ad = Ok sig"
    using sign_safe [OF assms(1)] by blast
  obtain i where i: "ad_to_ipld (l_ad L) (?ad\<lparr>Signature := IpldBytes (envelope_to_protobuf (l_ad L) sig)\<rparr>) = Ok i"
    using libs_answerD(3) [OF assms(1)] by blast
  obtain c bs where "put_obj (l_obj L) (blockstore p) (ObjIpld i) = Ok (c, bs)"
    using libs_answerD(4) [OF assms(1)] by blast
  with sig i assms(2) show ?thesis
    by (cases "head p") (simp_all add: publish_def ad Let_def)
qed

lemma announce_safe:
  assumes "libs_answer L" and "head (index_provider s) \<noteq> None"
  shows "fst (announce L s) = Ok ()"
proof -
  have "create_announce_msg (l_ann L) pid (index_provider s) \<noteq> Panic x" for pid x
  proof -
    obtain m where m: "addrs_to_vec (l_ann L) as = Ok (m as)" for as
      using libs_answerD(6) [OF assms(1)] by metis
    show ?thesis
      using assms(2) libs_answerD(7) [OF assms(1)]
      by (auto simp: create_announce_msg_def marshal_cbor_def m outcome_simps)
  qed
  then show ?thesis
    using libs_answerD(8) [OF assms(1)]
    by (auto simp: announce_def Let_def beh_publish_def split: outcome.splits prod.splits dest: arg_cong [where f = fst])
qed

lemma publish_root_cid_outcome:
  assumes libs: "libs_answer L" and cl: "cid_lib_ok (l_cid L)" and kv: "kvdb_ok (l_cid L) (l_kv L) tbl"
    and pick: "picks_member (l_pick L)" and store: "store_sound L store" and typed: "ads_typed (index_provider s)"
    and ret: "publish_root_cid L store aid address root s = Some (r, s')"
  shows "r = Ok () \<or> r = Err (MissingDag root) \<and> \<not> dag_stored L tbl store root"
proof -
  obtain m where "bincode_metadata (l_ad L) \<lparr>ProtocolID = 0x0900, Data = []\<rparr> = Ok m"
    using libs_answerD(1) [OF libs] by blast
  then obtain ad where ad: "advertisement_new (l_ad L) (cid_to_bytes (l_cid L) root) (svc_peer_id s)
      [multiaddr_to_string (l_ann L) address] False = Ok ad"
    by (simp add: advertisement_new_def)
  let ?p1 = "snd (create aid ad (index_provider s))"
  have p1: "ads_typed ?p1" "temp_ads ?p1 aid \<noteq> None"
    using create_typed [OF typed ad_signable_new [OF ad]] by (simp_all add: create_def)
  from ret ad cl obtain d where d: "dag_traversal (l_pick L) (l_cid L) (l_kv L) (l_blk L) store root = Some d"
    by (auto simp: publish_root_cid_def Let_def split: option.splits)
  from dag_traversal_outcome [OF cl kv pick store d] show ?thesis
  proof
    assume "is_ok d"
    then obtain dag where dag: "d = Ok dag" by (auto simp: is_ok_iff)
    let ?cks = "chunks MAX_ENTRIES (map (\<lambda>d. IpldBytes (cid_hash L (fst d))) dag)"
    from add_entry_chunks_safe [OF libs cl p1(2), of ?cks] obtain p2 where
      p2: "add_entry_chunks L aid ?cks ?p1 = (Ok (), p2)" "temp_ads p2 aid \<noteq> None" by blast
    moreover have "ads_typed p2" using add_entry_chunks_invariant [where P = ads_typed, OF add_chunk_typed p1(1), of L aid ?cks] p2 by simp
    ultimately obtain p3 where "publish (l_cid L) (l_ad L) (l_obj L) aid p2 = (Ok (), p3)" "head p3 \<noteq> None"
      using publish_safe [OF libs cl] by blast
    with announce_safe [OF libs, of "s\<lparr>index_provider := p3\<rparr>"] ret ad cl d dag p2(1) show ?thesis
      by (auto simp: publish_root_cid_def Let_def)
  next
    assume "d = Err (MissingDag root) \<and> \<not> dag_stored L tbl store root"
    with ret ad cl d show ?thesis by (auto simp: publish_root_cid_def Let_def)
  qed
qed

lemma publish_loop_outcome:
  assumes libs: "libs_answer L" and cl: "cid_lib_ok (l_cid L)" and kv: "kvdb_ok (l_cid L) (l_kv L) tbl"
    and pick: "picks_member (l_pick L)" and store: "\<And>i. store_sound L (st i)"
    and "ads_typed (index_provider s)" and "publish_loop L st aid address n s = Some (r, s')"
  shows "r = Ok () \<or> (\<exists>root i. root \<in> set (root_cids (index_provider s)) \<and>
    r = Err (MissingDag root) \<and> \<not> dag_stored L tbl (st i) root)"
  using assms(6-)
proof (induction "root_cids (index_provider s)" arbitrary: n s)
  case Nil
  then show ?case by (subst (asm) publish_loop.simps) simp
next
  case (Cons root rest)
  from Cons.prems(2) Cons.hyps(2) [symmetric] obtain r1 s1 where
    p: "publish_root_cid L (st n) (aid n) address root (set_roots rest s) = Some (r1, s1)"
    by (subst (asm) publish_loop.simps) (auto split: option.splits)
  have typed: "ads_typed (index_provider (set_roots rest s))" using Cons.prems(1) by (simp add: set_roots_def)
  have rest: "rest = root_cids (index_provider s1)"
    using publish_root_cid_roots [OF p] by (simp add: set_roots_def)
  from publish_root_cid_outcome [OF libs cl kv pick store typed p] show ?case
  proof
    assume "r1 = Ok ()"
    with Cons.prems(2) Cons.hyps(2) [symmetric] p have "publish_loop L st aid address (Suc n) s1 = Some (r, s')"
      by (subst (asm) publish_loop.simps) simp
    from Cons.hyps(1) [OF rest publish_root_cid_typed [OF p typed] this] rest Cons.hyps(2) [symmetric]
    show ?thesis by auto
  next
    assume "r1 = Err (MissingDag root) \<and> \<not> dag_stored L tbl (st n) root"
    with Cons.prems(2) Cons.hyps(2) [symmetric] p show ?thesis
      by (subst (asm) publish_loop.simps) auto
  qed
qed


text \<open>Publishing a queue of complete DAGs succeeds, and leaves the key pair alone.\<close>

lemma publish_loop_succeeds:
  assumes "publish_libs_ok L" and "libs_answer L" and "kvdb_ok (l_cid L) (l_kv L) tbl"
    and "\<And>i. store_sound L (st i)" and "ads_typed (index_provider s)"
    and "\<And>i root. root \<in> set (root_cids (index_provider s)) \<Longrightarrow>
      dag_walkable L tbl (st i) root \<and> dag_stored L tbl (st i) root"
  shows "\<exists>s'. publish_loop L st aid address n s = Some (Ok (), s')"
proof -
  from assms(1) have cl: "cid_lib_ok (l_cid L)" and pick: "picks_member (l_pick L)" by (simp_all add: publish_libs_ok_def)
  have "dag_traversal (l_pick L) (l_cid L) (l_kv L) (l_blk L) (st i) root \<noteq> None"
    if "root \<in> set (root_cids (index_provider s))" for i root
    using dag_traversal_Ok [OF cl assms(3) pick] assms(6) [OF that, of i]
    by (metis dag_walkable_def dag_stored_def option.distinct(1))
  from publish_loop_returns [where R = "set (root_cids (index_provider s))" and st = st, OF cl this subset_refl]
  obtain r s' where p: "publish_loop L st aid address n s = Some (r, s')" by blast
  from publish_loop_outcome [OF assms(2) cl assms(3) pick assms(4,5) p] assms(6) have "r = Ok ()" by blast
  with p show ?thesis by blast
qed

lemma publish_root_cid_keypair:
  assumes "publish_root_cid L store aid address root s = Some (r, s')"
  shows "prov_keypair (index_provider s') = prov_keypair (index_provider s)"
  using assms
  by (rule publish_root_cid_invariant [where P = "\<lambda>p. prov_keypair p = prov_keypair (index_provider s)"])
    (auto simp: create_def add_chunk_def publish_def Let_def split: outcome.splits option.splits)

lemma publish_loop_keypair:
  assumes "publish_loop L st aid address n s = Some r"
  shows "prov_keypair (index_provider (snd r)) = prov_keypair (index_provider s)"
  by (rule publish_loop_invariant [OF assms]) (simp_all add: set_roots_def publish_root_cid_keypair)

section \<open>Outcomes of a step\<close>

text \<open>The commands the service can serve: not \<open>SendResponse\<close>, and an index request names a root.\<close>

fun servable :: "ursa_command \<Rightarrow> bool" where
  "servable (SendResponse rid response channel) = False"
| "servable (Index cids sender) = (cids \<noteq> [])"
| "servable _ = True"

lemma handle_command_outcome:
  assumes "libs_answer L" and "cid_lib_ok (l_cid L)" and "servable c"
  shows "fst (handle_command L c s) = Ok ()"
  using assms(2,3) libs_answerD(8) [OF assms(1)]
  by (cases c)
    (auto simp: handle_command_def on_get_bitswap_def on_index_def get_block_def sync_block_def Let_def
      beh_publish_def neq_Nil_conv split: outcome.splits prod.splits option.splits bitswap_type.splits
      dest: arg_cong [where f = fst])

lemma contains_sound: "store_sound L store \<Longrightarrow> \<exists>b. contains (l_cid L) (l_kv L) store c = Ok b"
  by (auto simp: contains_def store_sound_def is_ok_iff outcome_simps)

lemma wait_block_outcome:
  assumes "\<And>i. \<exists>b. contains cl kv (st i) c = Ok b" and "wait_block cl kv st c n = Some r"
  shows "is_ok r"
proof -
  have "cl = cl \<longrightarrow> kv = kv \<longrightarrow> st = st \<longrightarrow> c = c \<longrightarrow> is_ok r"
  proof (rule wait_block.raw_induct
      [where P = "\<lambda>cl' kv' st' c' n r. cl' = cl \<longrightarrow> kv' = kv \<longrightarrow> st' = st \<longrightarrow> c' = c \<longrightarrow> is_ok r", OF _ assms(2)],
      intro impI, goal_cases)
    case (1 f cl' kv' st' c' n r)
    obtain b where "contains cl kv (st n) c = Ok b" using assms(1) by blast
    with 1 show ?case by (cases b) auto
  qed
  then show ?thesis by simp
qed

lemma on_bitswap_outcome:
  assumes "cid_lib_ok (l_cid L)" and "\<And>i. store_sound L (st i)"
    and "on_bitswap L st info s = Some (r, s')"
  shows "r = Ok ()"
proof -
  have "\<forall>i. \<exists>b. contains (l_cid L) (l_kv L) (st i) (info_cid info) = Ok b" using contains_sound [OF assms(2)] by blast
  then obtain f where f: "contains (l_cid L) (l_kv L) (st i) (info_cid info) = Ok (f i)" for i by metis
  have w: "is_ok x" if "wait_block (l_cid L) (l_kv L) st (info_cid info) 0 = Some x" for x
    by (rule wait_block_outcome [OF _ that]) (simp add: f)
  show ?thesis
    using assms(1,3)
    by (auto simp: on_bitswap_def Let_def answer_channels_values [where f = f, OF f]
        split: option.splits outcome.splits if_splits dest!: w)
qed

lemma on_nat_status_changed_outcome:
  assumes "libs_answer L"
  shows "fst (on_nat_status_changed L rng old new s) = Ok () \<or>
    old = NatUnknown \<and> new = NatPrivate \<and> is_relay_client_enabled (swarm s) \<and>
    fst (on_nat_status_changed L rng old new s) = Panic (Expect ''failed to listen on relay'')"
proof -
  have l: "obind (expect m (fst (swarm_listen_on (l_net L) a w))) (\<lambda>_. Ok ()) \<in> {Ok (), Panic (Expect m)}" for a w m
    using libs_answerD(9) [OF assms, of a w] by (cases "fst (swarm_listen_on (l_net L) a w)") auto
  show ?thesis
    using l by (cases old; cases new)
      (auto simp: on_nat_status_changed_def Let_def case_prod_beta split: option.splits)
qed

text \<open>A step keeps the types of the advertisements under construction.\<close>

lemma handle_event_typed:
  assumes "handle_event L st aid rng e s = Some (Ok (), s')" and "ads_typed (index_provider s)"
  shows "ads_typed (index_provider s')"
proof (cases e)
  case (Bitswap info)
  with assms on_bitswap_Ok [of L st info s s'] show ?thesis by (auto simp: handle_event_def)
next
  case (StartPublish address)
  with assms publish_loop_typed [of L st aid "publish_address address" 0 s "(Ok (), s')"]
  show ?thesis by (simp add: handle_event_def on_start_publish_def)
qed (use assms in \<open>auto simp: handle_event_def log_defs on_nat_status_changed_def
    split: nat_status.splits option.splits prod.splits if_splits\<close>)

lemma handle_command_typed:
  "handle_command L c s = (Ok (), s') \<Longrightarrow> ads_typed (index_provider s) \<Longrightarrow> ads_typed (index_provider s')"
  by (cases c) (auto simp: handle_command_def on_get_bitswap_def on_index_def on_get_peers_def set_roots_def Let_def
      split: outcome.splits prod.splits option.splits list.splits if_splits bitswap_type.splits)

lemma svc_do_typed [ursa_inv]:
  assumes "svc_do L op s = Some (Ok (), s')" and "ads_typed (index_provider s)"
  shows "ads_typed (index_provider s')"
proof (cases op)
  case (OpEvent st aid rng e)
  then obtain b where h: "handle_event L st aid rng e (s\<lparr>swarm := b\<rparr>) = Some (Ok (), s')"
    using assms(1) by (auto split: option.splits prod.splits if_splits)
  from handle_event_typed [OF h] assms(2) show ?thesis by simp
next
  case (OpCommand c)
  with assms handle_command_typed show ?thesis by simp
qed (use assms in \<open>auto split: prod.splits\<close>)

lemma svc_reach_typed:
  "svc_reach L s0 s \<Longrightarrow> ads_typed (index_provider s0) \<Longrightarrow> ads_typed (index_provider s)"
  by (induction rule: svc_reach.induct) (auto intro: svc_do_typed)

text \<open>The two ways in which the handler of an event fails.\<close>

definition publish_fails ::
  "('w, 's, 'p) libs \<Rightarrow> ('s \<Rightarrow> bytes \<Rightarrow> bytes option) \<Rightarrow> (nat \<Rightarrow> 's) \<Rightarrow> behaviour_event \<Rightarrow> ('w, 'p) service \<Rightarrow> unit result \<Rightarrow> bool" where
  "publish_fails L tbl st e s r \<longleftrightarrow>
     (\<exists>address root i. e = StartPublish address \<and> root \<in> set (root_cids (index_provider s)) \<and>
        \<not> dag_stored L tbl (st i) root \<and> r = Err (MissingDag root))"

definition relay_fails :: "behaviour_event \<Rightarrow> ('w, 'p) service \<Rightarrow> unit result \<Rightarrow> bool" where
  "relay_fails e s r \<longleftrightarrow>
     e = NatStatusChanged NatUnknown NatPrivate \<and> is_relay_client_enabled (swarm s) \<and>
     r = Panic (Expect ''failed to listen on relay'')"

lemma handle_event_outcome:
  assumes "libs_answer L" and "cid_lib_ok (l_cid L)" and "kvdb_ok (l_cid L) (l_kv L) tbl"
    and "picks_member (l_pick L)" and "\<And>i. store_sound L (st i)" and "ads_typed (index_provider s)"
    and "handle_event L st aid rng e s = Some (r, s')"
  shows "r = Ok () \<or> publish_fails L tbl st e s r \<or> relay_fails e s r"
proof (cases e)
  case (Bitswap info)
  with assms(7) on_bitswap_outcome [OF assms(2,5)] show ?thesis by (simp add: handle_event_def)
next
  case (NatStatusChanged old new)
  with assms(7) on_nat_status_changed_outcome [OF assms(1), of rng old new s] show ?thesis
    by (auto simp: handle_event_def relay_fails_def)
next
  case (StartPublish address)
  with assms(7) have "publish_loop L st aid (publish_address address) 0 s = Some (r, s')"
    by (simp add: handle_event_def on_start_publish_def)
  from publish_loop_outcome [OF assms(1-6) this] StartPublish show ?thesis by (auto simp: publish_fails_def)
qed (use assms(7) in \<open>auto simp: handle_event_def\<close>)

definition servable_op :: "('w, 's, 'p) libs \<Rightarrow> ('w, 's) svc_op \<Rightarrow> bool" where
  "servable_op L op \<longleftrightarrow>
     (case op of OpEvent st aid rng e \<Rightarrow> \<forall>i. store_sound L (st i) | OpCommand c \<Rightarrow> servable c | _ \<Rightarrow> True)"

lemma svc_do_outcome:
  assumes "libs_answer L" and "cid_lib_ok (l_cid L)" and "kvdb_ok (l_cid L) (l_kv L) tbl"
    and "picks_member (l_pick L)" and "ads_typed (index_provider s)" and "servable_op L op"
    and "svc_do L op s = Some (r, s')"
  shows "r = Ok () \<or>
    (\<exists>st aid rng e. op = OpEvent st aid rng e \<and> (publish_fails L tbl st e s r \<or> relay_fails e s r))"
proof (cases op)
  case (OpEvent st aid rng e)
  with assms(6) have sound: "store_sound L (st i)" for i by (simp add: servable_op_def)
  from OpEvent assms(7) obtain b where b: "beh_deliver (swarm s) = Some (e, b)"
    and h: "handle_event L st aid rng e (s\<lparr>swarm := b\<rparr>) = Some (r, s')"
    by (auto split: option.splits prod.splits if_splits)
  from b have "is_relay_client_enabled b = is_relay_client_enabled (swarm s)"
    by (auto simp: beh_deliver_def beh_poll_def is_relay_client_enabled_def split: list.splits)
  with handle_event_outcome [OF assms(1-4) sound _ h] assms(5) OpEvent show ?thesis
    by (auto simp: publish_fails_def relay_fails_def)
next
  case (OpCommand c)
  with assms handle_command_outcome [of L c s] show ?thesis by (simp add: servable_op_def)
qed (use assms in \<open>auto split: prod.splits\<close>)

section \<open>The loop\<close>

text \<open>What \<open>select!\<close> hands to the loop: commands it can serve, events on a sound store.\<close>

definition servable_item :: "('w, 's, 'p) libs \<Rightarrow> 's select_item \<Rightarrow> bool" where
  "servable_item L item \<longleftrightarrow>
     (case item of SwarmBehaviour st aid rng e \<Rightarrow> \<forall>i. store_sound L (st i) | CommandItem c \<Rightarrow> servable c | _ \<Rightarrow> True)"

lemma select_step_typed:
  assumes "select_step L item s = Some (Ok (), s')" and "ads_typed (index_provider s)"
  shows "ads_typed (index_provider s')"
  using assms handle_event_typed handle_command_typed
  by (cases item) (auto simp: select_step_def)

lemma select_step_outcome:
  assumes "libs_answer L" and "cid_lib_ok (l_cid L)" and "kvdb_ok (l_cid L) (l_kv L) tbl"
    and "picks_member (l_pick L)" and "ads_typed (index_provider s)" and "servable_item L item"
    and "select_step L item s = Some (r, s')"
  shows "r = Ok () \<or>
    (\<exists>st aid rng e. item = SwarmBehaviour st aid rng e \<and> (publish_fails L tbl st e s r \<or> relay_fails e s r))"
proof (cases item)
  case (SwarmBehaviour st aid rng e)
  with assms(6,7) have "store_sound L (st i)" "handle_event L st aid rng e s = Some (r, s')" for i
    by (simp_all add: servable_item_def select_step_def)
  from handle_event_outcome [OF assms(1-4) this(1) assms(5) this(2)] SwarmBehaviour show ?thesis by blast
next
  case (CommandItem c)
  with assms handle_command_outcome [of L c s] show ?thesis by (simp add: servable_item_def select_step_def)
qed (use assms in \<open>auto simp: select_step_def\<close>)

text \<open>\<open>start\<close> never returns \<open>Ok\<close>: the round it returns from is one of the two failures.\<close>

lemma service_start_outcome:
  assumes libs: "libs_answer L" "cid_lib_ok (l_cid L)" "kvdb_ok (l_cid L) (l_kv L) tbl" "picks_member (l_pick L)"
    and items: "\<And>i. servable_item L (items i)" and typed: "ads_typed (index_provider s)"
    and "service_start L work items n s = Some (r, s')"
  shows "\<exists>m t st aid rng e. n \<le> m \<and> items m = SwarmBehaviour st aid rng e \<and>
    (publish_fails L tbl st e t r \<or> relay_fails e t r)"
proof -
  let ?Q = "\<lambda>n r. \<exists>m t st aid rng e. n \<le> m \<and> items m = SwarmBehaviour st aid rng e \<and>
    (publish_fails L tbl st e t r \<or> relay_fails e t r)"
  let ?P = "\<lambda>L' work' items' n s r. (L', work', items') = (L, work, items) \<longrightarrow>
    ads_typed (index_provider s) \<longrightarrow> ?Q n (fst r)"
  have "?P L work items n s (r, s')"
  proof (rule service_start.raw_induct [where P = ?P, OF _ assms(7)], intro impI, goal_cases)
    case (1 f L' work' items' n s r)
    let ?s = "s\<lparr>swarm := work n (swarm s)\<rparr>"
    from 1(2,3) obtain r1 s1 where p: "select_step L (items n) ?s = Some (r1, s1)"
      by (auto split: option.splits)
    have t: "ads_typed (index_provider ?s)" using 1(4) by simp
    show ?case
    proof (cases "r1 = Ok ()")
      case True
      with 1(2,3) p have "f L work items (Suc n) s1 = Some r" by simp
      from 1(1) [OF this] select_step_typed [OF p [unfolded True] t] have "?Q (Suc n) (fst r)" by simp
      then show ?thesis using Suc_leD by blast
    next
      case False
      with 1(2,3) p have r: "fst r = r1" by (cases r1) auto
      from select_step_outcome [OF libs t items p] False obtain st aid rng e where
        "items n = SwarmBehaviour st aid rng e" "publish_fails L tbl st e ?s r1 \<or> relay_fails e ?s r1" by blast
      then show ?thesis unfolding r by blast
    qed
  qed
  with typed show ?thesis by simp
qed

section \<open>The set-up of the service\<close>

text \<open>The transport, the settings of the swarm, and whether the relay client behaviour is there.\<close>

definition svc_setup :: "('w, 'p) service \<Rightarrow> transport \<times> swarm_config \<times> bool" where
  "svc_setup s = (svc_transport s, svc_swarm_config s, is_relay_client_enabled (swarm s))"

lemmas setup_defs = svc_setup_def is_relay_client_enabled_def

lemma beh_inject_event_relay: "relay_client_enabled (beh_inject_event lp i b) = relay_client_enabled b"
  by (cases i) (auto simp: handler_defs split: handler_splits)

lemma announce_setup: "svc_setup (snd (announce L s)) = svc_setup s"
  by (auto simp: announce_def setup_defs Let_def beh_publish_def split: outcome.splits prod.splits)

lemma publish_root_cid_setup:
  assumes "publish_root_cid L store aid address root s = Some (r, s')"
  shows "svc_setup s' = svc_setup s"
proof -
  have "svc_setup (s\<lparr>index_provider := p\<rparr>) = svc_setup s" for p by (simp add: setup_defs)
  moreover have "svc_setup s' = svc_setup t" if "announce L t = (r, s')" for t using announce_setup [of L t] that by simp
  ultimately show ?thesis using publish_root_cid_cases [OF assms] by metis
qed

lemma publish_loop_setup:
  assumes "publish_loop L st aid address n s = Some r"
  shows "svc_setup (snd r) = svc_setup s"
  by (rule publish_loop_invariant [OF assms])
    (auto simp: publish_root_cid_setup, auto simp: setup_defs set_roots_def)

lemma svc_do_setup [ursa_inv]:
  assumes "svc_do L op s = Some (Ok (), s')"
  shows "svc_setup s' = svc_setup s"
proof (cases op)
  case (OpEvent st aid rng e)
  then obtain b where b: "beh_deliver (swarm s) = Some (e, b)"
    and h: "handle_event L st aid rng e (s\<lparr>swarm := b\<rparr>) = Some (Ok (), s')"
    using assms by (auto split: option.splits prod.splits if_splits)
  have "svc_setup s' = svc_setup (s\<lparr>swarm := b\<rparr>)"
  proof (cases e)
    case (Bitswap info)
    with h on_bitswap_Ok [of L st info "s\<lparr>swarm := b\<rparr>" s'] show ?thesis
      by (auto simp: handle_event_def setup_defs cancel_def)
  next
    case (StartPublish address)
    with h publish_loop_setup [of L st aid "publish_address address" 0 "s\<lparr>swarm := b\<rparr>" "(Ok (), s')"] show ?thesis
      by (simp add: handle_event_def on_start_publish_def)
  qed (use h in \<open>auto simp: handle_event_def log_defs on_nat_status_changed_def publish_ad_def push_event_def setup_defs
      split: nat_status.splits option.splits prod.splits if_splits\<close>)
  also have "\<dots> = svc_setup s"
    using b by (auto simp: beh_deliver_def beh_poll_def setup_defs split: list.splits)
  finally show ?thesis .
next
  case (OpCommand c)
  with assms show ?thesis
    by (cases c) (auto simp: handle_command_def on_get_bitswap_def get_block_def sync_block_def on_index_def on_get_peers_def
        set_roots_def beh_publish_def publish_ad_def push_event_def send_request_def setup_defs Let_def
        split: outcome.splits prod.splits option.splits list.splits if_splits bitswap_type.splits)
qed (use assms in \<open>auto simp: setup_defs beh_inject_event_relay split: prod.splits\<close>)

lemma svc_reach_setup: "svc_reach L s0 s \<Longrightarrow> svc_setup s = svc_setup s0"
  by (induction rule: svc_reach.induct) (auto dest: svc_do_setup)

lemma service_new_setup:
  assumes "service_new pl gl mk lp peer_of kp config provider = Ok s"
  shows "\<exists>keys. noise_into_authentic pl kp = Ok keys \<and> secured keys (svc_transport s)"
    and "RelayTransport r \<in> set (tr_base (svc_transport s)) \<longleftrightarrow> relay_client config \<and> r = 0"
    and "is_relay_client_enabled (swarm s) = relay_client config" and "swarm_config_new = Ok (svc_swarm_config s)"
proof -
  from assms obtain t b where t: "ursa_transport_new pl kp config (if relay_client config then Some 0 else None) = Ok t"
    "svc_transport s = t" and b: "behaviour_new pl gl mk peer_of kp config (relay_client config) = Ok b"
    "relay_client_enabled (swarm s) = relay_client_enabled b" and "swarm_config_new = Ok (svc_swarm_config s)"
    by (auto simp: service_new_def outcome_simps Let_def case_prod_beta beh_bootstrap_def subscribe_def)
  from ursa_transport_new_Ok [OF t(1)] t(2)
  show "\<exists>keys. noise_into_authentic pl kp = Ok keys \<and> secured keys (svc_transport s)"
    and "RelayTransport r \<in> set (tr_base (svc_transport s)) \<longleftrightarrow> relay_client config \<and> r = 0" by auto
  show "is_relay_client_enabled (swarm s) = relay_client config"
    using b by (auto simp: behaviour_new_def is_relay_client_enabled_def outcome_simps split: if_splits)
  show "swarm_config_new = Ok (svc_swarm_config s)" by fact
qed

section \<open>Properties\<close>



end
