(* ===== verification/Node_Safety.thy ===== *)
theory Node_Safety
  imports Service_Safety Node_Refinement Node_Progress
begin

text \<open>
  Why the network service of a running node ends. The commands that calls of the node interface
  (\<open>crates/ursa-rpc-server/src/api.rs\<close>) put into the queue are commands the service can serve, so no client ends
  it; what is left are the failures that \<open>Service_Safety\<close> names and the panic of the block store on a
  write the database refuses.
\<close>

section \<open>What is in the command queue\<close>

lemma open_call_servable:
  "car_lib_ok cars \<Longrightarrow> open_call L cars ch call s = (Asks cmd, s') \<Longrightarrow> servable cmd"
  by (drule open_call_asks) (auto dest: car_loadD)

lemma node_do_servable [ursa_inv]:
  assumes "car_lib_ok cars" and "node_do L cars op n = Some n'" and "\<forall>cmd\<in>set (command_queue n). servable cmd"
  shows "\<forall>cmd\<in>set (command_queue n'). servable cmd"
proof (cases op)
  case (NCall ch call)
  obtain o' t where o: "open_call L cars ch call (node_store n) = (o', t)" by fastforce
  from node_do_call_queue [OF assms(2) [unfolded NCall] o] show ?thesis
    using assms(3) open_call_servable [OF assms(1)] o by fastforce
qed (use assms(2,3) in \<open>auto simp: add_result_def split: list.splits if_splits option.splits prod.splits outcome.splits\<close>)

lemma node_reach_servable:
  "node_reach L cars look (node_start s store) n \<Longrightarrow> car_lib_ok cars \<Longrightarrow>
   \<forall>cmd\<in>set (command_queue n). servable cmd"
proof (induction rule: node_reach.induct)
  case node_init
  then show ?case by (simp add: node_start_def)
next
  case (node_op n op n')
  then show ?case using node_do_servable by blast
qed

section \<open>Why the service of a node ends\<close>

lemma node_do_stops:
  assumes "node_do L cars op n = Some n'" and "node_running n" and "\<not> node_running n'"
  shows "(\<exists>cmd q. op = NCommand \<and> command_queue n = cmd # q \<and> fst (handle_command L cmd (node_service n)) \<noteq> Ok ()) \<or>
    (\<exists>o' s' r s. op = NService o' s' \<and> \<not> is_command o' \<and> svc_do L o' (node_service n) = Some (r, s) \<and> r \<noteq> Ok ()) \<or>
    (\<exists>b. op = NInsert b \<and> \<not> is_ok (kv_write (l_kv L) (node_store n) (cid_to_bytes (l_cid L) (block_cid b)) (block_data b)))"
proof (cases op)
  case (NCall ch call)
  obtain o' t where o: "open_call L cars ch call (node_store n) = (o', t)" by fastforce
  from node_do_call [OF assms(1) [unfolded NCall] o] assms(2,3) show ?thesis by simp
next
  case (NInsert b)
  with assms show ?thesis
    by (cases "kv_write (l_kv L) (node_store n) (cid_to_bytes (l_cid L) (block_cid b)) (block_data b)")
      (auto simp: insert_block_def)
qed (use assms in \<open>auto simp: add_result_def is_ok_unit split: list.splits if_splits option.splits prod.splits\<close>)

lemma node_ads_typed:
  assumes "node_reach L cars look (node_start s store) n" and "node_running n" and "ads_typed (index_provider s)"
  shows "ads_typed (index_provider (node_service n))"
  using svc_reach_typed [OF node_reach_svc [OF assms(1,2)] assms(3)] .

section \<open>A node that stops\<close>

lemma node_reach_same_store:
  assumes "node_reach L cars look n0 n" and "node_do L cars op n = Some n'" and "node_store n' = node_store n"
    and "handler_stores op \<subseteq> {node_store n}"
  shows "node_reach L cars look n0 n'"
  using assms by (intro node_op [OF assms(1,2)]) (auto simp: stores_grow_def grows_def)

lemma part_store_load: "part_store([1, 1] \<mapsto> [3, 4]) = part_store"
  by (rule ext) (simp add: part_store_def)

lemma svc_do_delivers:
  "beh_events (swarm s) = e # es \<Longrightarrow>
   svc_do L (OpEvent st aid rng e) s = handle_event L st aid rng e (s\<lparr>swarm := (swarm s)\<lparr>beh_events := es\<rparr>\<rparr>)"
  by (simp add: beh_deliver_def beh_poll_def)

lemma demo_node_stops:
  fixes s :: "(nat, obj list) service"
  assumes "index_provider s = fresh_provider" and "beh_events (swarm s) = []"
  defines "a \<equiv> [Ip4 1, Tcp 6009]"
  shows "\<exists>n n'. node_reach demo_libs one_block_cars (content unary_cid_lib (\<lambda>s. s)) (node_start s part_store) n \<and>
    node_running n \<and>
    node_do demo_libs one_block_cars (NService (OpEvent (\<lambda>i. part_store) (\<lambda>i. 1) 0 (StartPublish a)) part_store) n = Some n' \<and>
    \<not> node_running n'"
proof -
  let ?R = "node_reach demo_libs one_block_cars (content unary_cid_lib (\<lambda>s. s)) (node_start s part_store)"
  let ?do = "node_do demo_libs one_block_cars"
  let ?ev = "\<lambda>e. NService (OpEvent (\<lambda>i. part_store) (\<lambda>i. 1) 0 e) part_store"
  have load: "car_load one_block_cars (Ok [3, 4]) part_store = (Ok [Cid 2], part_store)"
    using part_store_load by (simp add: one_block_cars_def numeral_2_eq_2)
  obtain n1 where n1: "?do (NCall 7 (CallPut (Ok [3, 4]))) (node_start s part_store) = Some n1"
    "node_store n1 = part_store" "node_service n1 = s" "node_running n1" "command_queue n1 = [Index [Cid 2] 7]"
    by (simp add: node_start_def api_put_car_def load)
  have r1: "?R n1" by (rule node_reach_same_store [OF node_init n1(1)]) (simp_all add: n1 node_start_def)
  let ?s2 = "snd (on_index demo_libs [Cid 2] 7 s)"
  have s2: "index_provider ?s2 = fresh_provider\<lparr>root_cids := [Cid 2]\<rparr>" "beh_events (swarm ?s2) = []"
    using assms by (simp_all add: on_index_def public_address_def counter_libp2p_def set_roots_def
        fresh_provider_def provider_new_def Let_def)
  obtain n2 where n2: "?do NCommand n1 = Some n2" "node_store n2 = part_store" "node_service n2 = ?s2" "node_running n2"
    using n1 by (simp add: handle_command_def) (simp add: on_index_def Let_def)
  have r2: "?R n2" by (rule node_reach_same_store [OF r1 n2(1)]) (simp_all add: n1 n2)
  let ?s3 = "?s2\<lparr>swarm := push_event (NatStatusChanged NatUnknown (NatPublic a)) (swarm ?s2)\<rparr>"
  obtain n3 where n3: "?do (NService (OpSub (InAutonat (StatusChanged NatUnknown (NatPublic a)))) part_store) n2 = Some n3"
    "node_store n3 = part_store" "node_service n3 = ?s3" "node_running n3"
    using n2 by (simp add: handle_autonat_def)
  have r3: "?R n3" by (rule node_reach_same_store [OF r2 n3(1)]) (simp_all add: n2 n3)
  let ?s4 = "?s3\<lparr>swarm := push_event (StartPublish a) ((swarm ?s3)\<lparr>beh_events := []\<rparr>)\<rparr>"
  have e3: "beh_events (swarm ?s3) = [NatStatusChanged NatUnknown (NatPublic a)]"
    using s2(2) by (simp add: push_event_def)
  have d4: "svc_do demo_libs (OpEvent (\<lambda>i. part_store) (\<lambda>i. 1) 0 (NatStatusChanged NatUnknown (NatPublic a))) ?s3 = Some (Ok (), ?s4)"
    by (subst svc_do_delivers [OF e3]) (simp add: handle_event_def on_nat_status_changed_def publish_ad_def)
  obtain n4 where n4: "?do (?ev (NatStatusChanged NatUnknown (NatPublic a))) n3 = Some n4"
    "node_store n4 = part_store" "node_service n4 = ?s4" "node_running n4"
    using n3 by (simp only: node_do.simps d4 n3) simp
  have r4: "?R n4" by (rule node_reach_same_store [OF r3 n4(1)]) (auto simp: n3 n4)
  have e4: "beh_events (swarm ?s4) = [StartPublish a]" by (simp add: push_event_def)
  have "dag_walkable demo_libs (\<lambda>s. s) part_store (Cid 2)" "\<not> dag_stored demo_libs (\<lambda>s. s) part_store (Cid 2)"
    by (simp_all add: dag_walkable_def dag_stored_def reach_part_store)
  then obtain s5 where "on_start_publish demo_libs (\<lambda>i. part_store) (\<lambda>i. 1) a (?s4\<lparr>swarm := (swarm ?s4)\<lparr>beh_events := []\<rparr>\<rparr>) =
      Some (Err (MissingDag (Cid 2)), s5)"
    using missing_dag_stops [of demo_libs "\<lambda>s. s" "?s4\<lparr>swarm := (swarm ?s4)\<lparr>beh_events := []\<rparr>\<rparr>" "Cid 2" "[]" "\<lambda>i. part_store"]
      s2(1) by (auto simp: plain_ad_lib_def)
  then have "svc_do demo_libs (OpEvent (\<lambda>i. part_store) (\<lambda>i. 1) 0 (StartPublish a)) ?s4 = Some (Err (MissingDag (Cid 2)), s5)"
    by (subst svc_do_delivers [OF e4]) (simp add: handle_event_def)
  then obtain n5 where "?do (?ev (StartPublish a)) n4 = Some n5" "\<not> node_running n5"
    using n4 by (simp only: node_do.simps n4) simp
  with r4 n4(4) show ?thesis by blast
qed

lemma demo_libs_answer: "libs_answer demo_libs"
  by (simp add: libs_answer_def plain_ad_lib_def list_obj_store_def plain_announce_lib_def counter_libp2p_def)

lemma demo_store_sound: "store_sound demo_libs store"
  by (simp add: store_sound_def mem_kvdb_def link_blocks_def)

section \<open>Properties\<close>



end
