(* ===== verification/Rpc_Server.thy ===== *)
theory Rpc_Server
  imports Node_Refinement Metrics Addresses
begin

text \<open>
  The front ends of the node, \<open>crates/ursa-rpc-server/src\<close>: the JSON-RPC methods
  (\<open>rpc/routes/network.rs\<close>), the handler that turns JSON-RPC responses into HTTP responses
  (\<open>rpc/rpc.rs\<close>), the HTTP routes (\<open>http/routes/network.rs\<close>), and the service that sends a request to one or
  the other (\<open>service.rs\<close>, \<open>server.rs\<close>). The JSON-RPC dispatcher (\<open>jsonrpc_v2\<close>) and the axum routers are
  parameters.

  The methods use the node through the trait \<open>NetworkInterface\<close>, here the interface
  \<open>network_interface\<close>; the running node of \<open>Node_Refinement\<close> provides it. The lemmas show that the unwrapped
  block of \<open>get_cid_handler\<close> is always there, how each failure reaches the client, and which
  requests can reach which router.
\<close>

section \<open>Configuration\<close>

record server_config =
  srv_port :: "16 word"
  srv_addr :: string

definition server_config_new :: "16 word \<Rightarrow> string \<Rightarrow> server_config" where
  "server_config_new p a = \<lparr>srv_port = p, srv_addr = a\<rparr>"

definition server_config_default :: server_config where
  "server_config_default = \<lparr>srv_port = 4069, srv_addr = ''0.0.0.0''\<rparr>"

section \<open>The JSON-RPC methods\<close>

text \<open>The values of \<open>jsonrpc_v2::Error\<close> that the methods build.\<close>

datatype rpc_error = RpcInternal error | RpcInvalidParams

type_synonym 'a rpc_result = "(rpc_error, 'a) outcome"

fun get_cid_reply :: "bytes option result \<Rightarrow> bytes rpc_result" where
  "get_cid_reply (Err err) = Err (RpcInternal err)"
| "get_cid_reply (Ok res) = unwrap_opt res"
| "get_cid_reply (Panic x) = Panic x"

definition get_cid_handler ::
  "cid_lib \<Rightarrow> (cid \<Rightarrow> ('v, bytes option result) task) \<Rightarrow> network_get_params \<Rightarrow> ('v, bytes rpc_result) task" where
  "get_cid_handler cl get_op params =
     (case cid_from_str cl (get_cid params) of
        Some cid \<Rightarrow> map_task get_cid_reply (get_op cid)
      | None \<Rightarrow> Return (Err RpcInvalidParams))"

definition get_file_handler ::
  "cid_lib \<Rightarrow> (string \<Rightarrow> cid \<Rightarrow> ('v, ('f \<Rightarrow> unit result \<times> 'f) option) task) \<Rightarrow> network_get_file_params \<Rightarrow>
   ('v, ('f \<Rightarrow> unit rpc_result \<times> 'f) option) task" where
  "get_file_handler cl get_file params =
     (case cid_from_str cl (gf_cid params) of
        Some cid \<Rightarrow>
          map_task (map_option (\<lambda>run f. case run f of (r, f') \<Rightarrow> (map_err RpcInternal r, f')))
            (get_file (gf_path params) cid)
      | None \<Rightarrow> Return (Some (\<lambda>f. (Err RpcInvalidParams, f))))"

text \<open>The CIDs are collected into one string, without anything between them.\<close>

definition put_file_reply :: "cid_lib \<Rightarrow> cid list result \<Rightarrow> string rpc_result" where
  "put_file_reply cl r = obind (map_err RpcInternal r) (\<lambda>res. Ok (concat (map (cid_to_string cl) res)))"

definition put_file_handler ::
  "cid_lib \<Rightarrow> (string \<Rightarrow> 's \<Rightarrow> ('v, cid list result) task \<times> 's) \<Rightarrow> network_put_file_params \<Rightarrow> 's \<Rightarrow>
   ('v, string rpc_result) task \<times> 's" where
  "put_file_handler cl put_file params s =
     (case put_file (put_path params) s of (t, s') \<Rightarrow> (map_task (put_file_reply cl) t, s'))"

text \<open>\<open>RpcServer::new\<close>: the names under which the methods are registered.\<close>

datatype rpc_method_id = GetCidHandler | GetFileHandler | PutFileHandler

definition rpc_server_methods :: "(string \<times> rpc_method_id) list" where
  "rpc_server_methods =
     [(''ursa_get_cid'', GetCidHandler), (''ursa_get_file'', GetFileHandler),
      (''ursa_put_file'', PutFileHandler)]"

section \<open>From JSON-RPC to HTTP\<close>

datatype ('j, 'e) response_object = RespResult 'j nat | RespError 'e nat

datatype ('j, 'e) response_objects =
    RespOne "('j, 'e) response_object"
  | RespMany "('j, 'e) response_object list"
  | RespEmpty

text \<open>\<open>handle\<close> is the dispatcher of \<open>jsonrpc_v2\<close> applied to the request.\<close>

definition rpc_handler :: "('j, 'e) response_objects \<Rightarrow> ('e, ('j, 'e) response_objects) outcome" where
  "rpc_handler handled =
     (case handled of
        RespOne r \<Rightarrow>
          (case r of
             RespResult result i \<Rightarrow> Ok (RespOne (RespResult result i))
           | RespError error i \<Rightarrow> Err error)
      | RespMany rs \<Rightarrow> Panic Todo
      | RespEmpty \<Rightarrow> Panic Todo)"

datatype ('j, 'e) rpc_body = JsonResponse "('j, 'e) response_objects" | JsonError 'e

text \<open>The HTTP response: \<open>Json\<close> with status 200, or \<open>ServerErrors::into_response\<close>. A panic closes the connection.\<close>

definition rpc_http_response ::
  "('e, ('j, 'e) response_objects) outcome \<Rightarrow> (nat \<times> ('j, 'e) rpc_body) option" where
  "rpc_http_response r =
     (case r of
        Ok objs \<Rightarrow> Some (200, JsonResponse objs)
      | Err e \<Rightarrow> Some (500, JsonError e)
      | Panic x \<Rightarrow> None)"

section \<open>The HTTP routes\<close>

datatype network_error = NotFoundError error | InternalError error

fun network_error_status :: "network_error \<Rightarrow> nat" where
  "network_error_status (NotFoundError e) = 404"
| "network_error_status (InternalError e) = 500"

datatype upload_body = UploadError error | UploadCids "cid list" | UploadText string

text \<open>A field of the multipart body: its content type, if any, and its bytes, which may fail to arrive.\<close>

record upload_field =
  fld_content_type :: "string option"
  fld_bytes :: "bytes result"

fun upload_reply :: "cid list result \<Rightarrow> (nat \<times> upload_body) result" where
  "upload_reply (Err err) = Ok (500, UploadError err)"
| "upload_reply (Ok res) = Ok (200, UploadCids res)"
| "upload_reply (Panic x) = Panic x"

definition upload_handler ::
  "(bytes result \<Rightarrow> 's \<Rightarrow> ('v, cid list result) task \<times> 's) \<Rightarrow> upload_field option result \<Rightarrow> 's \<Rightarrow>
   ('v, (nat \<times> upload_body) result) task \<times> 's" where
  "upload_handler put_car next_field s =
     (case unwrap next_field of
        Ok (Some field) \<Rightarrow>
          (case unwrap_opt (fld_content_type field) of
             Ok content_type \<Rightarrow>
               (if content_type = ''application/vnd.curl.car'' then
                  (case unwrap (fld_bytes field) of
                     Ok data \<Rightarrow> (case put_car (Ok data) s of (t, s') \<Rightarrow> (map_task upload_reply t, s'))
                   | Err e \<Rightarrow> (Return (Err e), s)
                   | Panic x \<Rightarrow> (Return (Panic x), s))
                else
                  (Return (Ok (400, UploadText ''Content type do not match. Only .car files can be uploaded'')), s))
           | Err e \<Rightarrow> (Return (Err e), s)
           | Panic x \<Rightarrow> (Return (Panic x), s))
      | Ok None \<Rightarrow> (Return (Ok (400, UploadText ''No files found'')), s)
      | Err e \<Rightarrow> (Return (Err e), s)
      | Panic x \<Rightarrow> (Return (Panic x), s))"

record 'b file_response =
  fr_status :: nat
  fr_content_type :: string
  fr_disposition :: string
  fr_body :: 'b

text \<open>\<open>parse_header\<close> is \<open>HeaderValue::from_str\<close>, which refuses some characters; the code unwraps it.\<close>

definition file_headers :: "(string \<Rightarrow> string option) \<Rightarrow> string \<Rightarrow> 'b \<Rightarrow> ('e, 'b file_response) outcome" where
  "file_headers parse_header cid_str body =
     obind (unwrap_opt (parse_header ''application/vnd.curl.car; charset=utf-8'')) (\<lambda>ct.
     obind (unwrap_opt (parse_header (''attachment; filename='' @ [CHR 0x22] @ cid_str @ ''.car'' @ [CHR 0x22]))) (\<lambda>cd.
     Ok \<lparr>fr_status = 200, fr_content_type = ct, fr_disposition = cd, fr_body = body\<rparr>))"

definition InvalidCidString :: "string \<Rightarrow> error" where
  "InvalidCidString s = External (''Invalid Cid String, Cannot Parse '' @ s @ '' to CID'')"

definition get_handler ::
  "cid_lib \<Rightarrow> (string \<Rightarrow> string option) \<Rightarrow> (cid \<Rightarrow> ('v, 'b result option) task) \<Rightarrow> string \<Rightarrow>
   ('v, (network_error, 'b file_response) outcome option) task" where
  "get_handler cl parse_header stream cid_str =
     (case cid_from_str cl cid_str of
        Some cid \<Rightarrow>
          map_task (map_option (\<lambda>r.
            obind (map_err InternalError r) (file_headers parse_header cid_str))) (stream cid)
      | None \<Rightarrow> Return (Some (Err (InternalError (InvalidCidString cid_str)))))"

section \<open>Choosing the router\<close>

datatype http_method = GET | POST | PUT

datatype handler_id = UploadHandler | GetHandler | RpcHandler

definition http_init :: "(http_method \<times> string \<times> handler_id) list" where
  "http_init = [(POST, ''/'', UploadHandler), (GET, ''/:cid'', GetHandler)]"

definition rpc_init :: "(http_method \<times> string \<times> handler_id) list" where
  "rpc_init = [(PUT, ''/rpc/v0'', RpcHandler), (POST, ''/rpc/v0'', RpcHandler)]"

text \<open>The first value of the header \<open>content-type\<close>, as bytes.\<close>

definition is_rpc_request :: "bytes option \<Rightarrow> bool" where
  "is_rpc_request content_type =
     (case content_type of
        None \<Rightarrow> False
      | Some ct \<Rightarrow> take (length (as_bytes ''application/json'')) ct = as_bytes ''application/json'')"

datatype 'e poll = Pending | Ready "'e option"

definition multiplex_poll_ready :: "'e poll \<Rightarrow> 'e poll \<Rightarrow> 'e poll" where
  "multiplex_poll_ready http rpc =
     (case http of
        Ready None \<Rightarrow> (case rpc of Ready None \<Rightarrow> Ready None | Ready (Some e) \<Rightarrow> Ready (Some e) | Pending \<Rightarrow> Pending)
      | Ready (Some e) \<Rightarrow> Ready (Some e)
      | Pending \<Rightarrow> Pending)"

definition multiplex_call :: "('q \<Rightarrow> bytes option) \<Rightarrow> ('q \<Rightarrow> 'r) \<Rightarrow> ('q \<Rightarrow> 'r) \<Rightarrow> 'q \<Rightarrow> 'r" where
  "multiplex_call content_type http rpc req =
     (if is_rpc_request (content_type req) then rpc req else http req)"

text \<open>\<open>Server::start\<close>: the address that is bound, and the service built from the two route tables.\<close>

definition server_address :: "server_config \<Rightarrow> socket_addr" where
  "server_address config = ([0, 0, 0, 0], srv_port config)"

text \<open>\<open>route\<close> is the axum router: it finds the handler of a request in a route table.\<close>

definition server_service ::
  "((http_method \<times> string \<times> handler_id) list \<Rightarrow> 'q \<Rightarrow> handler_id option) \<Rightarrow> ('q \<Rightarrow> bytes option) \<Rightarrow> 'q \<Rightarrow>
   handler_id option" where
  "server_service route content_type = multiplex_call content_type (route http_init) (route rpc_init)"

section \<open>The trait NetworkInterface\<close>

text \<open>
  What the methods rely on: a successful get has a block, a successful put has a root. \<open>get_answers\<close>
  and \<open>put_answers\<close> are the answers the provider gives.
\<close>

locale network_interface =
  fixes good :: bool
    and get_answers :: "cid \<Rightarrow> bytes option result \<Rightarrow> bool"
    and put_answers :: "cid list result \<Rightarrow> bool"
    and blocks :: "cid \<Rightarrow> bytes option"
  assumes get_block: "good \<Longrightarrow> get_answers c (Ok v) \<Longrightarrow> v \<noteq> None \<and> v = blocks c"
    and put_roots: "good \<Longrightarrow> put_answers (Ok cids) \<Longrightarrow> cids \<noteq> []"
begin

lemma get_cid_reply_block:
  "good \<Longrightarrow> get_answers c (Ok v) \<Longrightarrow> \<exists>b. get_cid_reply (Ok v) = Ok b \<and> blocks c = Some b"
  using get_block [of c v] by (cases "blocks c") auto

lemma upload_reply_root:
  "good \<Longrightarrow> put_answers (Ok cids) \<Longrightarrow> \<exists>root rest. upload_reply (Ok cids) = Ok (200, UploadCids (root # rest))"
  using put_roots [of cids] by (cases cids) auto

end

interpretation node_if: network_interface
  "node_libs_ok L tbl cars \<and> service_new pl gl mk (l_net L) peer_of kp config provider = Ok s \<and>
   node_reach L cars (content (l_cid L) tbl) (node_start s store) n"
  "\<lambda>c r. \<exists>ch. (ch, CallGet c, AnsGet r) \<in> set (call_results n)"
  "\<lambda>r. \<exists>ch rd. (ch, CallPut rd, AnsPut r) \<in> set (call_results n)"
  "content (l_cid L) tbl (node_store n)"
  for L tbl cars pl gl mk peer_of kp config provider s store n
proof (unfold_locales, goal_cases)
  case (1 c v)
  then obtain ch where r: "(ch, CallGet c, AnsGet (Ok v)) \<in> set (call_results n)" by blast
  from 1(1) have "node_libs_ok L tbl cars" "service_new pl gl mk (l_net L) peer_of kp config provider = Ok s"
    "node_reach L cars (content (l_cid L) tbl) (node_start s store) n" by blast+
  from node_results_inv [OF this] have "spec_inv (node_abs (content (l_cid L) tbl) n)" .
  from spec_invD(2) [OF this, of ch c v] r show ?case by (auto simp: node_abs_def)
next
  case (2 cids)
  then obtain ch rd where r: "(ch, CallPut rd, AnsPut (Ok cids)) \<in> set (call_results n)" by blast
  from 2(1) have "node_libs_ok L tbl cars" "service_new pl gl mk (l_net L) peer_of kp config provider = Ok s"
    "node_reach L cars (content (l_cid L) tbl) (node_start s store) n" by blast+
  from node_results_inv [OF this] have "spec_inv (node_abs (content (l_cid L) tbl) n)" .
  from spec_invD(3) [OF this, of ch rd cids] r show ?case by (simp add: node_abs_def)
qed

section \<open>Properties\<close>

text \<open>
  C20. The block that \<open>get_cid_handler\<close> unwraps is always there: for the text of a CID the method is the
  node's get followed by \<open>get_cid_reply\<close>, and for every answer the running node gives, a success
  becomes the stored block, an error becomes an internal error, and only a panic of the database
  stays a panic.
\<close>

theorem rpc_get_returns_stored_block:
  assumes "node_libs_ok L tbl cars" and "service_new pl gl mk (l_net L) peer_of kp config provider = Ok s"
    and "node_reach L cars (content (l_cid L) tbl) (node_start s store) n"
    and "(ch, CallGet c, AnsGet r) \<in> set (call_results n)"
  shows "get_cid_handler (l_cid L) (api_get L st ch) \<lparr>get_cid = cid_to_string (l_cid L) c\<rparr> =
      map_task get_cid_reply (api_get L st ch c) \<and>
    (case r of
       Ok v \<Rightarrow> \<exists>b. get_cid_reply r = Ok b \<and> content (l_cid L) tbl (node_store n) c = Some b
     | Err e \<Rightarrow> get_cid_reply r = Err (RpcInternal e)
     | Panic x \<Rightarrow> get_cid_reply r = Panic x)"
proof -
  have "\<exists>b. get_cid_reply (Ok v) = Ok b \<and> content (l_cid L) tbl (node_store n) c = Some b" if "r = Ok v" for v
    using assms that by (intro node_if.get_cid_reply_block [of L tbl cars pl gl mk peer_of kp config provider s store n]) auto
  moreover have "cid_lib_ok (l_cid L)" using assms(1) by (simp add: node_libs_ok_def)
  ultimately show ?thesis by (cases r) (simp_all add: get_cid_handler_def)
qed

theorem rpc_get_returns_stored_block_witness:
  "\<exists>s n st. service_new plain_peer_lib checking_gossip_lib (\<lambda>g. g) counter_libp2p (\<lambda>k. PeerId 0) (Ed25519 3)
       demo_config fresh_provider = Ok s \<and>
     node_do demo_libs one_block_cars (NCall 7 (CallGet (Cid 3))) (node_start s part_store) = Some n \<and>
     get_cid_handler unary_cid_lib (api_get demo_libs st 7) \<lparr>get_cid = ''bbbb''\<rparr> =
       map_task get_cid_reply (api_get demo_libs st 7 (Cid 3)) \<and>
     get_cid_reply (Ok (Some [4])) = Ok [4]"
proof -
  obtain s where s: "service_new plain_peer_lib checking_gossip_lib (\<lambda>g. g) (l_net demo_libs) (\<lambda>k. PeerId 0)
      (Ed25519 3) demo_config fresh_provider = Ok s"
    using demo_service_new by auto
  obtain n where n: "node_do demo_libs one_block_cars (NCall 7 (CallGet (Cid 3))) (node_start s part_store) = Some n"
    "node_reach demo_libs one_block_cars (content (l_cid demo_libs) (\<lambda>s. s)) (node_start s part_store) n"
    "call_results n = [(7, CallGet (Cid 3), AnsGet (Ok (Some [4])))]"
    using demo_get_answered [of s] by auto
  have ok: "node_libs_ok demo_libs (\<lambda>s. s) one_block_cars" by (simp add: node_libs_ok_def)
  have "cid_to_string unary_cid_lib (Cid 3) = ''bbbb''" by (simp add: unary_cid_lib_def numeral_eq_Suc)
  with s n rpc_get_returns_stored_block [OF ok s n(2), of 7 "Cid 3" "Ok (Some [4])"] show ?thesis by auto
qed

text \<open>
  The content type alone decides which front end serves a request: a router that only hands out
  handlers of its table makes every request whose content type starts with \<open>application/json\<close> an RPC
  call or an error, and no other request ever reaches the RPC handler.
\<close>

theorem content_type_decides_front_end:
  assumes "\<And>t q h. route t q = Some h \<Longrightarrow> h \<in> set (map (snd \<circ> snd) t)"
    and "server_service route content_type q = Some h"
  shows "if \<exists>rest. content_type q = Some (as_bytes ''application/json'' @ rest) then h = RpcHandler
    else h = UploadHandler \<or> h = GetHandler"
proof -
  have "is_rpc_request (content_type q) \<longleftrightarrow> (\<exists>rest. content_type q = Some (as_bytes ''application/json'' @ rest))"
    by (auto simp: is_rpc_request_def split: option.splits) (metis append_take_drop_id)
  with assms(2) assms(1) [of "if is_rpc_request (content_type q) then rpc_init else http_init" q h]
  show ?thesis by (auto simp: server_service_def multiplex_call_def rpc_init_def http_init_def split: if_splits)
qed

theorem content_type_decides_front_end_witness:
  "server_service (\<lambda>t q. map_option (snd \<circ> snd) (List.find (\<lambda>(m, p, h). m = POST) t)) id
      (Some (as_bytes ''application/json; charset=utf-8'')) = Some RpcHandler"
proof -
  let ?route = "(\<lambda>t q. map_option (snd \<circ> snd) (List.find (\<lambda>(m, p, h). m = POST) t))
      :: (http_method \<times> string \<times> handler_id) list \<Rightarrow> bytes option \<Rightarrow> handler_id option"
  let ?ct = "Some (as_bytes ''application/json; charset=utf-8'')"
  have r: "h \<in> set (map (snd \<circ> snd) t)" if "?route t q = Some h" for t q h
    using that by (force simp: find_Some_iff in_set_conv_nth)
  obtain h where h: "server_service ?route id ?ct = Some h"
    by (cases "is_rpc_request ?ct") (auto simp: server_service_def multiplex_call_def rpc_init_def http_init_def)
  have "as_bytes ''application/json; charset=utf-8'' = as_bytes ''application/json'' @ as_bytes ''; charset=utf-8''"
    by (simp flip: as_bytes_append)
  with content_type_decides_front_end [of ?route id ?ct h, OF r h] h show ?thesis by auto
qed



end
