(* ===== verification/Rpc_Client.thy ===== *)
theory Rpc_Client
  imports Rpc_Server
begin

text \<open>
  The JSON-RPC client, \<open>crates/ursa-rpc-client/src\<close>: \<open>call\<close> and the three functions built on it. The JSON
  library and the HTTP client are parameters. The lemmas connect it with the server of \<open>Rpc_Server\<close>:
  every function calls a registered method in a way that reaches the RPC handler, a result comes
  back as it was sent, and the code of a JSON-RPC error is replaced by the HTTP status.
\<close>

section \<open>call\<close>

datatype rpc_method = Put_Method | Post_Method

datatype rpc_client_error = FullError int string

datatype 'r json_rpc_response = JrResult 'r nat | JrError int string nat

record 'j request_object =
  rq_method :: string
  rq_params :: 'j
  rq_id :: nat

text \<open>
  \<open>to_value\<close> and \<open>from_json\<close> serialise the parameters and the request, \<open>http_send\<close> sends a body and returns
  the status with the body of the response as text, \<open>parse_response\<close> is \<open>serde_json::from_str\<close>.
\<close>

record ('q, 'j, 'r) client_lib =
  to_value :: "'q \<Rightarrow> 'j option"
  from_json :: "'j request_object \<Rightarrow> string option"
  http_send :: "rpc_method \<Rightarrow> string \<Rightarrow> string \<Rightarrow> string \<Rightarrow> (string, nat \<times> (string, string) outcome) outcome"
  parse_response :: "string \<Rightarrow> string + 'r json_rpc_response"

definition api_url :: "server_config \<Rightarrow> string" where
  "api_url config = ''http://'' @ srv_addr config @ '':'' @ decimal (unat (srv_port config)) @ ''/rpc/v0''"

definition rpc_call ::
  "('q, 'j, 'r) client_lib \<Rightarrow> string \<Rightarrow> 'q \<Rightarrow> rpc_method \<Rightarrow> (rpc_client_error, 'r) outcome" where
  "rpc_call cl method_name params m =
     (case to_value cl params of
        Some value \<Rightarrow>
          (let rpc_req = \<lparr>rq_method = method_name, rq_params = value, rq_id = 1\<rparr> in
           case from_json cl rpc_req of
             Some body \<Rightarrow>
               obind (unwrap (http_send cl m (api_url server_config_default) ''application/json'' body)) (\<lambda>http_res.
               obind (unwrap (snd http_res)) (\<lambda>res.
                 if fst http_res \<noteq> 200
                 then Err (FullError (int (fst http_res)) (''Error code from HTTP Response: '' @ decimal (fst http_res)))
                 else
                   (case parse_response cl res of
                      Inl e \<Rightarrow> Err (FullError 200
                        (''Parse Error: Response from RPC endpoint could not be parsed. Error was: '' @ e))
                    | Inr (JrResult result i) \<Rightarrow> Ok result
                    | Inr (JrError code message i) \<Rightarrow> Err (FullError code message))))
           | None \<Rightarrow> Err (FullError 200 ''There was an while serializing the rpc request''))
      | None \<Rightarrow> Err (FullError 200
          ''There was an error while converting the params to serializable value''))"

section \<open>Functions\<close>

definition client_get_block ::
  "(network_get_params, 'j, 'r) client_lib \<Rightarrow> network_get_params \<Rightarrow> (rpc_client_error, 'r) outcome" where
  "client_get_block cl params = rpc_call cl NETWORK_GET params Post_Method"

definition client_get_file ::
  "(network_get_file_params, 'j, 'r) client_lib \<Rightarrow> network_get_file_params \<Rightarrow> (rpc_client_error, 'r) outcome" where
  "client_get_file cl params = rpc_call cl NETWORK_GET_FILE params Put_Method"

definition client_put_file ::
  "(network_put_file_params, 'j, 'r) client_lib \<Rightarrow> network_put_file_params \<Rightarrow> (rpc_client_error, 'r) outcome" where
  "client_put_file cl params = rpc_call cl NETWORK_PUT_FILE params Put_Method"

section \<open>Client and server\<close>

text \<open>
  What the server sends for a request: \<open>handle\<close> is the JSON-RPC dispatcher on the request body, \<open>enc\<close>
  the JSON text of a body. A handler that panics closes the connection.
\<close>

definition server_reply ::
  "(('j, 'e) rpc_body \<Rightarrow> string) \<Rightarrow> (string \<Rightarrow> ('j, 'e) response_objects) \<Rightarrow> string \<Rightarrow>
   (string, nat \<times> (string, string) outcome) outcome" where
  "server_reply enc handle body =
     (case rpc_http_response (rpc_handler (handle body)) of
        Some (status, b) \<Rightarrow> Ok (status, Ok (enc b))
      | None \<Rightarrow> Err ''connection closed'')"

definition served_by ::
  "('q, 'j, 'r) client_lib \<Rightarrow> (('k, 'e) rpc_body \<Rightarrow> string) \<Rightarrow> (string \<Rightarrow> ('k, 'e) response_objects) \<Rightarrow> bool" where
  "served_by cl enc handle \<longleftrightarrow> (\<forall>m url ct body. http_send cl m url ct body = server_reply enc handle body)"

lemma rpc_call_served:
  assumes "served_by cl enc handle" and "to_value cl params = Some v"
    and "from_json cl \<lparr>rq_method = name, rq_params = v, rq_id = 1\<rparr> = Some body"
  shows "rpc_call cl name params m =
    (case handle body of
       RespOne (RespResult j i) \<Rightarrow>
         (case parse_response cl (enc (JsonResponse (RespOne (RespResult j i)))) of
            Inl e \<Rightarrow> Err (FullError 200 (''Parse Error: Response from RPC endpoint could not be parsed. Error was: '' @ e))
          | Inr (JrResult result k) \<Rightarrow> Ok result
          | Inr (JrError code message k) \<Rightarrow> Err (FullError code message))
     | RespOne (RespError e i) \<Rightarrow> Err (FullError 500 ''Error code from HTTP Response: 500'')
     | _ \<Rightarrow> Panic UnwrapErr)"
proof -
  have d: "decimal 500 = ''500''" by (simp add: decimal.simps digit_def)
  show ?thesis
    using assms
    by (auto simp: rpc_call_def served_by_def server_reply_def rpc_http_response_def rpc_handler_def d
        split: response_objects.splits response_object.splits option.splits sum.splits json_rpc_response.splits)
qed

section \<open>Properties\<close>


text \<open>The server's answer is the text of a number, and the dispatcher measures the request.\<close>

definition demo_enc :: "(nat, rpc_error) rpc_body \<Rightarrow> string" where
  "demo_enc b = (case b of JsonResponse (RespOne (RespResult j i)) \<Rightarrow> replicate j CHR ''a'' @ ''b'' @ replicate i CHR ''c'' | _ \<Rightarrow> [])"

definition demo_client :: "(string \<Rightarrow> (nat, rpc_error) response_objects) \<Rightarrow> (string, string, nat) client_lib" where
  "demo_client handle =
     \<lparr>to_value = Some, from_json = (\<lambda>q. Some (rq_method q @ rq_params q)),
      http_send = (\<lambda>m url ct body. server_reply demo_enc handle body),
      parse_response = (\<lambda>s. Inr (JrResult (length (takeWhile (\<lambda>c. c = CHR ''a'') s)) (length (filter (\<lambda>c. c = CHR ''c'') s))))\<rparr>"

lemma demo_client_simps [simp]:
  "served_by (demo_client handle) demo_enc handle" "to_value (demo_client handle) p = Some p"
  "from_json (demo_client handle) q = Some (rq_method q @ rq_params q)"
  by (simp_all add: served_by_def demo_client_def)

lemma demo_client_parse:
  "parse_response (demo_client handle) (demo_enc (JsonResponse (RespOne (RespResult j i)))) = Inr (JrResult j i)"
proof -
  have "takeWhile (\<lambda>c. c = CHR ''a'') (replicate j CHR ''a'' @ CHR ''b'' # s) = replicate j CHR ''a''" for s
    by (induction j) simp_all
  then show ?thesis by (simp add: demo_client_def demo_enc_def)
qed


text \<open>
  The code of a JSON-RPC error never reaches the client: whatever error a method returns, the
  client reports code 500, and a batch or a notification makes the server drop the connection and
  the client panic.
\<close>

theorem client_loses_error_code:
  assumes "served_by cl enc handle" and "to_value cl params = Some v"
    and "from_json cl \<lparr>rq_method = name, rq_params = v, rq_id = 1\<rparr> = Some body"
    and "\<nexists>j i. handle body = RespOne (RespResult j i)"
  shows "rpc_call cl name params m =
    (case handle body of RespOne r \<Rightarrow> Err (FullError 500 ''Error code from HTTP Response: 500'') | _ \<Rightarrow> Panic UnwrapErr)"
  using assms(4)
  by (auto simp: rpc_call_served [OF assms(1-3)] split: response_objects.splits response_object.splits)

theorem client_loses_error_code_witness:
  "rpc_call (demo_client (\<lambda>b. RespOne (RespError RpcInvalidParams 1))) ''get'' ''xy'' Put_Method =
     Err (FullError 500 ''Error code from HTTP Response: 500'')"
  using client_loses_error_code [of "demo_client (\<lambda>b. RespOne (RespError RpcInvalidParams 1))" demo_enc
      "\<lambda>b. RespOne (RespError RpcInvalidParams 1)" "''xy''" "''xy''" "''get''" "''getxy''" Put_Method]
  by simp

text \<open>
  Client and server agree on their interface: the three client functions call a method registered
  on the server with the handler of that name, with an HTTP method and a content type that lead to
  the RPC handler, at the port of the server's default configuration.
\<close>

definition http_method_of :: "rpc_method \<Rightarrow> http_method" where
  "http_method_of m = (case m of Put_Method \<Rightarrow> PUT | Post_Method \<Rightarrow> POST)"

theorem client_methods_registered:
  "map_of rpc_server_methods NETWORK_GET = Some GetCidHandler \<and>
   map_of rpc_server_methods NETWORK_GET_FILE = Some GetFileHandler \<and>
   map_of rpc_server_methods NETWORK_PUT_FILE = Some PutFileHandler \<and>
   (\<forall>m. (http_method_of m, ''/rpc/v0'', RpcHandler) \<in> set rpc_init) \<and>
   is_rpc_request (Some (as_bytes ''application/json'')) \<and>
   api_url server_config_default = ''http://0.0.0.0:4069/rpc/v0'' \<and>
   snd (server_address server_config_default) = 4069"
proof -
  have "decimal 4069 = ''4069''" by (simp add: decimal.simps digit_def)
  moreover have "(http_method_of m, ''/rpc/v0'', RpcHandler) \<in> set rpc_init" for m
    by (cases m) (simp_all add: http_method_of_def rpc_init_def)
  ultimately show ?thesis
    by (simp add: rpc_server_methods_def NETWORK_GET_def NETWORK_GET_FILE_def NETWORK_PUT_FILE_def
        is_rpc_request_def api_url_def server_config_default_def server_address_def)
qed

end
