(* ===== verification/Startup.thy ===== *)
theory Startup
  imports Rpc_Client Identity Servers
begin

text \<open>
  Process start-up, \<open>crates/ursa/src\<close>: the configuration file (\<open>config.rs\<close>, \<open>CliOpts::to_config\<close> in
  \<open>ursa/mod.rs\<close>), the RPC subcommands (\<open>ursa/rpc_commands.rs\<close>) and \<open>main.rs\<close>, which builds the store, the
  identity, the index provider and the network service and starts the tasks. The TOML library and
  opening a database are parameters; what follows the start is in \<open>Shutdown\<close>.

  The lemmas show that the first start creates the default configuration and the same start reads
  it back, that an existing file is never changed, that every failure to read it ends the process,
  which identity a node has, and that the node started by \<open>main\<close> is the one whose clients the
  theory \<open>Node_Refinement\<close> is about.
\<close>

section \<open>Configuration\<close>

record ursa_config =
  uc_network :: network_config
  uc_provider :: provider_config
  uc_metrics :: metrics_service_config
  uc_server :: server_config

definition ursa_config_default ::
  "(string \<Rightarrow> (string, multiaddr) outcome) \<Rightarrow> string \<Rightarrow> ursa_config result" where
  "ursa_config_default parse home =
     obind (network_config_default parse home) (\<lambda>n.
     Ok \<lparr>uc_network = n, uc_provider = provider_config_default home,
         uc_metrics = metrics_service_config_default, uc_server = server_config_default\<rparr>)"

definition DEFAULT_CONFIG_PATH_STR :: string where
  "DEFAULT_CONFIG_PATH_STR = ''.ursa/config.toml''"

definition default_config_path :: "string \<Rightarrow> path" where
  "default_config_path home = join (join [] home) DEFAULT_CONFIG_PATH_STR"

record toml_lib =
  toml_to_string :: "ursa_config \<Rightarrow> (string, string) outcome"
  toml_from_str :: "string \<Rightarrow> (string, ursa_config) outcome"

text \<open>Documented behaviour of the library: a value that was written is read back.\<close>

definition toml_lib_ok :: "toml_lib \<Rightarrow> bool" where
  "toml_lib_ok tm \<longleftrightarrow> (\<forall>c t. toml_to_string tm c = Ok t \<longrightarrow> toml_from_str tm t = Ok c)"

text \<open>The default configuration may panic while its addresses are parsed.\<close>

definition load_config ::
  "toml_lib \<Rightarrow> 'f fs_lib \<Rightarrow> ursa_config result \<Rightarrow> path \<Rightarrow> 'f \<Rightarrow> (io_err, unit) outcome \<times> 'f" where
  "load_config tm fs dflt p f =
     (if \<not> fs_exists fs p f then
        and_then (unwrap dflt, f) (\<lambda>config f.
        and_then (unwrap (toml_to_string tm config), f) (\<lambda>toml f.
        and_then (if p = [] \<or> p = [''/''] then (Panic UnwrapNone, f) else fs_create_dir_all fs (butlast p) f) (\<lambda>_ f.
        and_then (fs_create fs p f) (\<lambda>_ f.
        fs_write_all fs p toml f))))
      else (Ok (), f))"

section \<open>Command line\<close>

text \<open>A piece of the program that may end the process.\<close>

datatype 'a run = Value 'a | Exit int | Crash panic

fun run_bind :: "'a run \<Rightarrow> ('a \<Rightarrow> 'b run) \<Rightarrow> 'b run" where
  "run_bind (Value a) k = k a"
| "run_bind (Exit n) k = Exit n"
| "run_bind (Crash x) k = Crash x"

fun run_unwrap :: "('e, 'a) outcome \<Rightarrow> 'a run" where
  "run_unwrap (Ok a) = Value a"
| "run_unwrap (Err e) = Crash UnwrapErr"
| "run_unwrap (Panic x) = Crash x"

fun run_expect :: "string \<Rightarrow> ('e, 'a) outcome \<Rightarrow> 'a run" where
  "run_expect m (Ok a) = Value a"
| "run_expect m (Err e) = Crash (Expect m)"
| "run_expect m (Panic x) = Crash x"

record cli_opts =
  opt_config :: "string option"
  opt_rpc :: bool
  opt_rpc_port :: "16 word option"

definition read_file_to_string :: "'f fs_lib \<Rightarrow> path \<Rightarrow> 'f \<Rightarrow> (io_err, string) outcome run" where
  "read_file_to_string fs p f =
     (case fs_open fs p f of
        Ok u \<Rightarrow> Value (obind (fs_read_to_string fs p f) Ok)
      | Err error \<Rightarrow> Exit 1
      | Panic x \<Rightarrow> Crash x)"

definition to_config ::
  "toml_lib \<Rightarrow> 'f fs_lib \<Rightarrow> string \<Rightarrow> cli_opts \<Rightarrow> 'f \<Rightarrow> (io_err, ursa_config) outcome run" where
  "to_config tm fs home opts f =
     (let p = (case opt_config opts of Some config_file \<Rightarrow> join [] config_file | None \<Rightarrow> default_config_path home) in
      run_bind (read_file_to_string fs p f) (\<lambda>r.
      run_bind (run_unwrap r) (\<lambda>toml.
      run_bind (run_unwrap (toml_from_str tm toml)) (\<lambda>c. Value (Ok c)))))"

datatype rpc_commands = RpcPut string | RpcGet string string

text \<open>The two messages that \<open>run\<close> logs: success and failure. Panics of the client go through.\<close>

definition run_rpc_command ::
  "(network_put_file_params, 'j, 'r) client_lib \<Rightarrow> (network_get_file_params, 'k, 'u) client_lib \<Rightarrow> rpc_commands \<Rightarrow>
   string run" where
  "run_rpc_command put_cl get_cl cmd =
     (case cmd of
        RpcPut p \<Rightarrow>
          (case client_put_file put_cl \<lparr>put_path = p\<rparr> of
             Ok v \<Rightarrow> Value ''Put car file done''
           | Err e \<Rightarrow> Value ''There was an error while calling the rpc server. Please Check Server Logs''
           | Panic x \<Rightarrow> Crash x)
      | RpcGet cid p \<Rightarrow>
          (case client_get_file get_cl \<lparr>gf_path = p, gf_cid = cid\<rparr> of
             Ok v \<Rightarrow> Value ''file stored''
           | Err e \<Rightarrow> Value ''There was an error while calling the rpc server. Please Check Server Logs''
           | Panic x \<Rightarrow> Crash x))"

text \<open>The message is logged.\<close>

definition cli_error_and_die :: "int \<Rightarrow> 'a run" where
  "cli_error_and_die code = Exit code"

section \<open>main\<close>

text \<open>
  The parameters of start-up: libraries of the network service, opening the two databases, and the
  key pair that would be generated.
\<close>

record ('g, 'w, 's, 'p, 'f) env =
  e_home :: string
  e_toml :: toml_lib
  e_fs :: "'f fs_lib"
  e_pem :: pem_lib
  e_parse :: "string \<Rightarrow> (string, multiaddr) outcome"
  e_peer :: peer_lib
  e_gossip :: "'g gossip_lib"
  e_mk :: "'g \<Rightarrow> 'w"
  e_net :: "'w libp2p"
  e_peer_of :: "keypair \<Rightarrow> peer_id"
  e_open_store :: "string \<Rightarrow> (string, 's) outcome"
  e_open_provider :: "string \<Rightarrow> (string, 'p) outcome"
  e_generated :: nat

text \<open>What runs after start-up: the node, the provider, the servers' configurations and the key pair.\<close>

record ('w, 's, 'p) started =
  st_node :: "('w, 's, 'p) node"
  st_keypair :: keypair
  st_server :: server_config
  st_metrics :: metrics_service_config
  st_provider :: provider_config

definition choose_identity ::
  "('g, 'w, 's, 'p, 'f) env \<Rightarrow> network_config \<Rightarrow> 'f \<Rightarrow> (io_err, identity_manager) outcome \<times> 'f" where
  "choose_identity E config f =
     (if identity config = ''random'' then (Ok (im_default (e_generated E)), f)
      else im_load_or_new (e_pem E) (e_fs E) (e_generated E) (identity config) (join [] (keystore_path config)) f)"

definition start_node ::
  "('g, 'w, 's, 'p, 'f) env \<Rightarrow> cli_opts \<Rightarrow> ursa_config \<Rightarrow> 'f \<Rightarrow> ('w, 's, 'p) started run \<times> 'f" where
  "start_node E opts config f =
     (let server = (case opt_rpc_port opts of
                      Some p \<Rightarrow> (uc_server config)\<lparr>srv_port := p\<rparr>
                    | None \<Rightarrow> uc_server config) in
      case choose_identity E (uc_network config) f of
        (im, f') \<Rightarrow>
          (run_bind (run_unwrap im) (\<lambda>im.
           let keypair = im_current im in
           run_bind (run_expect ''Opening RocksDB must succeed''
             (e_open_store E (net_database_path (uc_network config)))) (\<lambda>store.
           run_bind (run_expect ''Opening RocksDB must succeed''
             (e_open_provider E (database_path (uc_provider config)))) (\<lambda>provider_db.
           let provider = provider_new keypair provider_db (uc_provider config) in
           run_bind (run_unwrap (service_new (e_peer E) (e_gossip E) (e_mk E) (e_net E) (e_peer_of E) keypair
             (uc_network config) provider)) (\<lambda>service.
           Value \<lparr>st_node = node_start service store, st_keypair = keypair, st_server = server,
                  st_metrics = uc_metrics config, st_provider = uc_provider config\<rparr>)))), f'))"

datatype ('w, 's, 'p) main_result = Ran string | Started "('w, 's, 'p) started"

text \<open>The result of \<open>load_config\<close> is dropped. A configuration error ends the process with status 1.\<close>

definition main ::
  "('g, 'w, 's, 'p, 'f) env \<Rightarrow> (network_put_file_params, 'j, 'r) client_lib \<Rightarrow>
   (network_get_file_params, 'k, 'u) client_lib \<Rightarrow> cli_opts \<Rightarrow> rpc_commands option \<Rightarrow> 'f \<Rightarrow>
   ('w, 's, 'p) main_result run \<times> 'f" where
  "main E put_cl get_cl opts cmd f =
     (case load_config (e_toml E) (e_fs E) (ursa_config_default (e_parse E) (e_home E))
             (default_config_path (e_home E)) f of
        (Panic x, f1) \<Rightarrow> (Crash x, f1)
      | (_, f1) \<Rightarrow>
          (case to_config (e_toml E) (e_fs E) (e_home E) opts f1 of
             Value (Ok config) \<Rightarrow>
               (case cmd of
                  Some c \<Rightarrow> (run_bind (run_rpc_command put_cl get_cl c) (\<lambda>m. Value (Ran m)), f1)
                | None \<Rightarrow>
                    (case start_node E opts config f1 of
                       (r, f2) \<Rightarrow> (run_bind r (\<lambda>s. Value (Started s)), f2)))
           | Value (Err e) \<Rightarrow> (cli_error_and_die 1, f1)
           | Value (Panic x) \<Rightarrow> (Crash x, f1)
           | Exit n \<Rightarrow> (Exit n, f1)
           | Crash x \<Rightarrow> (Crash x, f1)))"

section \<open>Lemmas\<close>

lemma run_bind_Value: "run_bind r k = Value b \<longleftrightarrow> (\<exists>a. r = Value a \<and> k a = Value b)"
  by (cases r) auto

lemma run_unwrap_Value: "run_unwrap r = Value a \<longleftrightarrow> r = Ok a"
  by (cases r) auto

lemma run_expect_Value: "run_expect m r = Value a \<longleftrightarrow> r = Ok a"
  by (cases r) auto

lemmas run_simps = run_bind_Value run_unwrap_Value run_expect_Value

lemma start_node_Value:
  assumes "start_node E opts config f = (Value st, f')"
  shows "\<exists>im provider_db s store. choose_identity E (uc_network config) f = (Ok im, f') \<and>
    service_new (e_peer E) (e_gossip E) (e_mk E) (e_net E) (e_peer_of E) (im_identity im) (uc_network config)
      (provider_new (im_identity im) provider_db (uc_provider config)) = Ok s \<and>
    st_node st = node_start s store \<and> e_open_store E (net_database_path (uc_network config)) = Ok store \<and>
    st_keypair st = im_identity im \<and>
    st_server st = (case opt_rpc_port opts of Some p \<Rightarrow> (uc_server config)\<lparr>srv_port := p\<rparr> | None \<Rightarrow> uc_server config)"
proof -
  obtain r f1 where c: "choose_identity E (uc_network config) f = (r, f1)" by (cases "choose_identity E (uc_network config) f")
  with assms have "f1 = f'" by (simp add: start_node_def Let_def)
  with assms c show ?thesis
    by (cases r) (auto simp: start_node_def run_simps Let_def im_current_def, blast)
qed

lemma main_Started:
  assumes "main E put_cl get_cl opts cmd f = (Value (Started st), f')"
  shows "\<exists>config f1. to_config (e_toml E) (e_fs E) (e_home E) opts f1 = Value (Ok config) \<and>
    start_node E opts config f1 = (Value st, f')"
  using assms
  by (auto simp: main_def run_simps cli_error_and_die_def split: prod.splits outcome.splits run.splits option.splits)

lemma load_config_writes:
  assumes "fs_ok fs look" and "\<not> fs_exists fs p f" and "load_config tm fs (Ok c) p f = (Ok (), f')"
  shows "\<exists>t m. toml_to_string tm c = Ok t \<and> look f' p = Some (t, m)"
proof -
  from assms(2,3) obtain t f1 f2 where t: "toml_to_string tm c = Ok t" and "fs_create fs p f1 = (Ok (), f2)"
    and w: "fs_write_all fs p t f2 = (Ok (), f')"
    by (auto simp: load_config_def and_then_Ok outcome_simps)
  from fs_okD(1) [OF assms(1) this(2)] fs_okD(2) [OF assms(1) _ w] t show ?thesis by blast
qed

section \<open>Properties\<close>

text \<open>
  The first start works with the default configuration: when the file is missing, \<open>load_config\<close>
  writes the defaults and \<open>to_config\<close> reads exactly them back; a file that exists is left as it is.
\<close>

theorem first_start_uses_default_config:
  assumes "toml_lib_ok tm" and "fs_ok fs look" and "opt_config opts = None"
    and "load_config tm fs (Ok c) (default_config_path home) f = (Ok (), f')"
  shows "if fs_exists fs (default_config_path home) f then f' = f
    else to_config tm fs home opts f' = Value (Ok c)"
proof (cases "fs_exists fs (default_config_path home) f")
  case True
  with assms(4) show ?thesis by (simp add: load_config_def)
next
  case False
  from load_config_writes [OF assms(2) False assms(4)] obtain t m where t: "toml_to_string tm c = Ok t"
    "look f' (default_config_path home) = Some (t, m)" by blast
  with assms(1) have "toml_from_str tm t = Ok c" by (simp add: toml_lib_ok_def)
  with t(2) False show ?thesis
    by (simp add: to_config_def read_file_to_string_def assms(3) fs_okD(6,7) [OF assms(2)])
qed

text \<open>A TOML library for closed instances: the text of the default configuration is one letter.\<close>

definition demo_ursa_config :: ursa_config where
  "demo_ursa_config =
     \<lparr>uc_network = demo_config, uc_provider = provider_config_default ''/root'',
      uc_metrics = metrics_service_config_default, uc_server = server_config_default\<rparr>"

definition one_config_toml :: toml_lib where
  "one_config_toml =
     \<lparr>toml_to_string = (\<lambda>c. if c = demo_ursa_config then Ok ''d'' else Err ''unsupported''),
      toml_from_str = (\<lambda>s. if s = ''d'' then Ok demo_ursa_config else Err ''syntax'')\<rparr>"

lemma one_config_toml_ok [simp]: "toml_lib_ok one_config_toml"
  by (simp add: toml_lib_ok_def one_config_toml_def)

theorem first_start_uses_default_config_witness:
  "\<exists>f'. load_config one_config_toml mem_fs (Ok demo_ursa_config) (default_config_path ''/root'') Map.empty = (Ok (), f') \<and>
     to_config one_config_toml mem_fs ''/root'' \<lparr>opt_config = None, opt_rpc = False, opt_rpc_port = None\<rparr> f' =
       Value (Ok demo_ursa_config)"
proof -
  let ?o = "\<lparr>opt_config = None, opt_rpc = False, opt_rpc_port = None\<rparr>"
  have "default_config_path ''/root'' = [''/'', ''root'', ''.ursa'', ''config.toml'']"
    by (simp add: default_config_path_def DEFAULT_CONFIG_PATH_STR_def join_def components_def)
  then obtain f' where l: "load_config one_config_toml mem_fs (Ok demo_ursa_config) (default_config_path ''/root'') Map.empty = (Ok (), f')"
    by (simp add: load_config_def and_then_def mem_fs_def one_config_toml_def)
  have "\<not> fs_exists mem_fs (default_config_path ''/root'') Map.empty" by (simp add: mem_fs_def)
  with l first_start_uses_default_config [OF one_config_toml_ok mem_fs_ok _ l, of ?o] show ?thesis by auto
qed

text \<open>
  Reading the configuration never fails with an error value: a missing file ends the process with
  status 1 and a file that is not a configuration makes it panic, so \<open>main\<close> never gets to the message
  it has for a configuration error.
\<close>

theorem to_config_failures:
  assumes "fs_ok fs look"
    and "p = (case opt_config opts of Some file \<Rightarrow> join [] file | None \<Rightarrow> default_config_path home)"
  shows "to_config tm fs home opts f =
    (case look f p of
       None \<Rightarrow> Exit 1
     | Some (t, m) \<Rightarrow> (case toml_from_str tm t of Ok c \<Rightarrow> Value (Ok c) | Err e \<Rightarrow> Crash UnwrapErr | Panic x \<Rightarrow> Crash x))"
proof (cases "look f p")
  case None
  then have "fs_open fs p f = Err NotFound" by (simp add: fs_okD(6) [OF assms(1)])
  then show ?thesis using None assms(2) by (simp add: to_config_def read_file_to_string_def)
next
  case (Some x)
  then obtain t m where x: "look f p = Some (t, m)" by (cases x) auto
  then have "fs_open fs p f = Ok ()" "fs_read_to_string fs p f = Ok t"
    by (simp_all add: fs_okD(6,7) [OF assms(1)])
  then show ?thesis
    using x assms(2) by (cases "toml_from_str tm t") (simp_all add: to_config_def read_file_to_string_def)
qed

theorem to_config_failures_witness:
  "to_config one_config_toml mem_fs ''/root'' \<lparr>opt_config = Some ''x.toml'', opt_rpc = False, opt_rpc_port = None\<rparr> Map.empty = Exit 1"
  using to_config_failures [OF mem_fs_ok refl, of one_config_toml "''/root''"
      "\<lparr>opt_config = Some ''x.toml'', opt_rpc = False, opt_rpc_port = None\<rparr>" Map.empty] by simp

text \<open>
  With the default configuration the three servers of a node listen on three different ports
  of every interface: metrics on 4070, the index provider on 8070, RPC and HTTP on 4069.
\<close>

theorem default_servers_bind:
  assumes "ursa_config_default parse home = Ok c"
  shows "metrics_start (Ok ()) (uc_metrics c) =
      Ok (([0, 0, 0, 0], 4070), [(''/ping'', PingRoute), (''/metrics'', RenderRoute)]) \<and>
    provider_start v6 (uc_provider c) = Ok (Inl ([0, 0, 0, 0], 8070), provider_routes) \<and>
    server_address (uc_server c) = ([0, 0, 0, 0], 4069)"
proof -
  have c: "uc_metrics c = metrics_service_config_default" "uc_provider c = provider_config_default home"
    "uc_server c = server_config_default"
    using assms by (auto simp: ursa_config_default_def outcome_simps)
  have "''0.0.0.0'' = show_ipv4 [0, 0, 0, 0]" by (simp add: show_ipv4_def decimal.simps digit_def)
  then have "parse_socket_addr v6 (''0.0.0.0'' @ '':'' @ decimal (unat (8070 :: 16 word))) = Some (Inl ([0, 0, 0, 0], 8070))"
    using parse_socket_v4_show [of "[0, 0, 0, 0]" 8070] by (simp add: parse_socket_addr_def)
  then have "provider_start v6 (uc_provider c) = Ok (Inl ([0, 0, 0, 0], 8070), provider_routes)"
    by (simp add: c provider_start_def provider_config_default_def)
  moreover have "parse_u16 ''4070'' = Some 4070"
    by (simp add: to_digit_def checked_mul_def checked_add_def)
  ultimately show ?thesis
    by (simp add: c metrics_start_def setup_metrics_handler_def metrics_service_config_default_def DEFAULT_METRICS_PORT_def DEFAULT_API_PATH_def
        server_address_def server_config_default_def)
qed

theorem default_servers_bind_witness:
  "\<exists>c. ursa_config_default (\<lambda>s. Ok []) ''/root'' = Ok c \<and> server_address (uc_server c) = ([0, 0, 0, 0], 4069)"
proof -
  obtain c where c: "ursa_config_default (\<lambda>s. Ok []) ''/root'' = Ok c"
    by (simp add: ursa_config_default_def network_config_default_def DEFAULT_BOOTSTRAP_def)
  with default_servers_bind [OF c] show ?thesis by blast
qed

text \<open>
  C21. A node keeps its identity: started with a name other than \<open>random\<close>, every later start from the same
  files has the same key pair, whatever key would be generated; with \<open>random\<close> the key is the generated
  one and no file is written. The RPC port of the command line overrides the configured one.
\<close>

theorem node_identity_stable:
  assumes "pem_lib_ok (e_pem E)" and "fs_ok (e_fs E) look" and "ed_key (e_generated E)"
    and "start_node E opts config f = (Value st, f')"
    and "start_node (E\<lparr>e_generated := g'\<rparr>) opts' config f' = (Value st', f'')"
  shows "(if identity (uc_network config) = ''random'' then st_keypair st = Ed25519 (e_generated E) \<and> f' = f
      else st_keypair st' = st_keypair st \<and> f'' = f') \<and>
    snd (server_address (st_server st)) = (case opt_rpc_port opts of Some p \<Rightarrow> p | None \<Rightarrow> srv_port (uc_server config))"
proof -
  let ?dir = "join [] (keystore_path (uc_network config))"
  from start_node_Value [OF assms(4)] obtain im where im: "choose_identity E (uc_network config) f = (Ok im, f')"
    "st_keypair st = im_identity im"
    "st_server st = (case opt_rpc_port opts of Some p \<Rightarrow> (uc_server config)\<lparr>srv_port := p\<rparr> | None \<Rightarrow> uc_server config)"
    by blast
  from start_node_Value [OF assms(5)] obtain im' where
    im': "choose_identity (E\<lparr>e_generated := g'\<rparr>) (uc_network config) f' = (Ok im', f'')" "st_keypair st' = im_identity im'"
    by auto
  have "im' = im \<and> f'' = f'" if "identity (uc_network config) \<noteq> ''random''"
  proof -
    from im(1) that have "im_load_or_new (e_pem E) (e_fs E) (e_generated E) (identity (uc_network config)) ?dir f = (Ok im, f')"
      by (simp add: choose_identity_def)
    from im_load_or_new_again [OF assms(1-3) this] im'(1) that show ?thesis by (simp add: choose_identity_def)
  qed
  then show ?thesis
    using im im'(2) by (auto simp: choose_identity_def im_default_def server_address_def split: option.splits)
qed

text \<open>An environment for closed instances: files in memory, databases that always open.\<close>

definition demo_env :: "nat \<Rightarrow> (nat, nat, bytes \<Rightarrow> bytes option, obj list, path \<Rightarrow> (string \<times> nat) option) env" where
  "demo_env g =
     \<lparr>e_home = ''/root'', e_toml = one_config_toml, e_fs = mem_fs, e_pem = plain_pem_lib,
      e_parse = (\<lambda>s. Ok []), e_peer = plain_peer_lib, e_gossip = checking_gossip_lib, e_mk = (\<lambda>g. g),
      e_net = counter_libp2p, e_peer_of = (\<lambda>k. PeerId 0), e_open_store = (\<lambda>p. Ok part_store),
      e_open_provider = (\<lambda>p. Ok []), e_generated = g\<rparr>"

lemma demo_choose_identity:
  assumes "f [''keys'', ''default.pem''] = None"
  shows "\<exists>im f'. choose_identity (demo_env 5) demo_config f = (Ok im, f')"
  using assms
  by (simp add: choose_identity_def demo_env_def demo_config_def im_load_or_new_def im_load_def im_new_def load_def
      key_path_def join_def components_def set_extension_def file_stem_def save_def and_then_def encode_pem_def
      Let_def mem_fs_def)

lemma demo_service_new_any:
  "\<exists>s. service_new plain_peer_lib checking_gossip_lib (\<lambda>g. g) counter_libp2p (\<lambda>k. PeerId 0) k demo_config pr = Ok s"
  by (simp add: service_new_def ursa_transport_new_def swarm_config_new_Ok behaviour_new_def ursa_gossipsub_new_def gossip_config_build
      discovery_new_def demo_config_def counter_libp2p_def)
    (simp add: checking_gossip_lib_def Let_def)

lemma demo_start_node:
  assumes "choose_identity (demo_env g) demo_config f = (Ok im, f')"
  shows "\<exists>st. start_node (demo_env g) opts demo_ursa_config f = (Value st, f')"
proof -
  obtain s where "service_new plain_peer_lib checking_gossip_lib (\<lambda>g. g) counter_libp2p (\<lambda>k. PeerId 0)
      (im_identity im) demo_config (provider_new (im_identity im) ([] :: obj list) (provider_config_default ''/root'')) = Ok s"
    using demo_service_new_any by blast
  with assms show ?thesis
    by (simp add: start_node_def demo_ursa_config_def Let_def im_current_def) (simp add: demo_env_def)
qed

lemma demo_main:
  assumes "f (default_config_path ''/root'') = Some (''d'', 0)" and "f [''keys'', ''default.pem''] = None"
  shows "\<exists>st f'. main (demo_env 5) put_cl get_cl \<lparr>opt_config = None, opt_rpc = False, opt_rpc_port = None\<rparr> None f =
    (Value (Started st), f')"
proof -
  let ?o = "\<lparr>opt_config = None, opt_rpc = False, opt_rpc_port = None\<rparr>"
  obtain im f' where "choose_identity (demo_env 5) demo_config f = (Ok im, f')"
    using demo_choose_identity [of f] assms(2) by blast
  from demo_start_node [OF this, of ?o] obtain st where
    st: "start_node (demo_env 5) ?o demo_ursa_config f = (Value st, f')" by blast
  have "to_config (e_toml (demo_env 5)) (e_fs (demo_env 5)) (e_home (demo_env 5)) ?o f = Value (Ok demo_ursa_config)"
    "load_config (e_toml (demo_env 5)) (e_fs (demo_env 5)) (ursa_config_default (e_parse (demo_env 5)) (e_home (demo_env 5)))
       (default_config_path (e_home (demo_env 5))) f = (Ok (), f)"
    using assms(1)
    by (simp_all add: demo_env_def load_config_def to_config_def read_file_to_string_def mem_fs_def one_config_toml_def)
  with st show ?thesis by (simp add: main_def)
qed

theorem node_identity_stable_witness:
  "\<exists>st st' f'. start_node (demo_env 5) \<lparr>opt_config = None, opt_rpc = False, opt_rpc_port = None\<rparr> demo_ursa_config Map.empty =
       (Value st, f') \<and>
     start_node (demo_env 6) \<lparr>opt_config = None, opt_rpc = False, opt_rpc_port = Some 80\<rparr> demo_ursa_config f' = (Value st', f') \<and>
     st_keypair st' = st_keypair st"
proof -
  let ?o = "\<lparr>opt_config = None, opt_rpc = False, opt_rpc_port = None\<rparr>"
  let ?o' = "\<lparr>opt_config = None, opt_rpc = False, opt_rpc_port = Some 80\<rparr>"
  have ok: "pem_lib_ok (e_pem (demo_env 5))" "fs_ok (e_fs (demo_env 5)) (\<lambda>f. f)" "ed_key (e_generated (demo_env 5))"
    and upd: "(demo_env 5)\<lparr>e_generated := 6\<rparr> = demo_env 6"
    and name: "identity (uc_network demo_ursa_config) \<noteq> ''random''"
    by (simp_all add: demo_env_def demo_ursa_config_def demo_config_def ed_key_def)
  obtain im f' where c: "choose_identity (demo_env 5) demo_config Map.empty = (Ok im, f')"
    using demo_choose_identity [of Map.empty] by auto
  then have "choose_identity (demo_env 6) demo_config f' = (Ok im, f')"
    using im_load_or_new_again [OF ok, of "identity demo_config" "join [] (keystore_path demo_config)" Map.empty im f' 6] name
    by (simp add: choose_identity_def demo_env_def demo_ursa_config_def)
  then obtain st st' where st: "start_node (demo_env 5) ?o demo_ursa_config Map.empty = (Value st, f')"
    and st': "start_node (demo_env 6) ?o' demo_ursa_config f' = (Value st', f')"
    using demo_start_node [OF c, of ?o] demo_start_node [of 6 f' im f' ?o'] by blast
  from node_identity_stable [OF ok st, of 6 ?o' st' f'] st st' name upd show ?thesis by auto
qed

end
