(* ===== verification/Shutdown.thy ===== *)
theory Shutdown
  imports Startup
begin

text \<open>
  The life of the process after start-up: waiting for an interrupt (\<open>wait_until_ctrlc\<close> and
  \<open>_block_until_sigint\<close> in \<open>crates/ursa/src/ursa/mod.rs\<close>), the end of \<open>main.rs\<close>, which cancels the tasks of the
  node, and the build script \<open>crates/ursa/build.rs\<close>. Installing the signal handler is a parameter; signals are
  a sequence that says between which two readings of the flag one arrives.

  The lemmas show that a started process runs until the first interrupt and stops at the reading
  that follows it, that a second interrupt ends a process that is shutting down, in which order tasks are
  cancelled, and that \<open>main\<close> does not wait for that.
\<close>

section \<open>Waiting for an interrupt\<close>

text \<open>
  \<open>signal n\<close>: an interrupt arrives after reading \<open>n - 1\<close> of the flag and before reading \<open>n\<close>; the handler stores
  \<open>false\<close>. The result is the number of times the thread slept; \<open>None\<close> is waiting for ever.
\<close>

partial_function (option) poll_running :: "(nat \<Rightarrow> bool) \<Rightarrow> bool \<Rightarrow> nat \<Rightarrow> nat option" where
  "poll_running signal running n =
     (let running' = (if signal n then False else running)
      in if running' then poll_running signal running' (Suc n) else Some n)"

definition wait_until_ctrlc :: "(string, unit) outcome \<Rightarrow> (nat \<Rightarrow> bool) \<Rightarrow> nat run option" where
  "wait_until_ctrlc set_handler signal =
     (case run_expect ''Error setting Ctrl-C handler'' set_handler of
        Value u \<Rightarrow> map_option Value (poll_running signal True 0)
      | Exit code \<Rightarrow> Some (Exit code)
      | Crash x \<Rightarrow> Some (Crash x))"

text \<open>
  The handler of \<open>_block_until_sigint\<close>: \<open>sig_send\<close> is whether the one-shot sender is still there, \<open>sig_sent\<close> the
  number of messages sent on it. Interrupts are handled one after the other, on one thread, so the
  cell that holds the sender is never borrowed twice.
\<close>

record sigint_state =
  sig_running :: usize
  sig_send :: bool
  sig_sent :: nat

definition sigint_new :: sigint_state where
  "sigint_new = \<lparr>sig_running = 0, sig_send = True, sig_sent = 0\<rparr>"

definition on_sigint :: "bool \<Rightarrow> sigint_state \<Rightarrow> unit run \<times> sigint_state" where
  "on_sigint listening st =
     (let prev = sig_running st; st1 = st\<lparr>sig_running := prev + 1\<rparr> in
      if prev = 0 then
        (if sig_send st1 then
           (let st2 = st1\<lparr>sig_send := False\<rparr> in
            if listening then (Value (), st2\<lparr>sig_sent := Suc (sig_sent st2)\<rparr>)
            else (Crash (Expect ''Error sending ctrl-c message''), st2))
         else (Value (), st1))
      else (Exit 0, st1))"

text \<open>\<open>n\<close> interrupts arrive before the waiting task runs again; \<open>None\<close>: it still waits.\<close>

fun sigints :: "nat \<Rightarrow> sigint_state \<Rightarrow> unit run \<times> sigint_state" where
  "sigints 0 st = (Value (), st)"
| "sigints (Suc n) st =
     (case on_sigint True st of
        (Value u, st') \<Rightarrow> sigints n st'
      | (Exit code, st') \<Rightarrow> (Exit code, st')
      | (Crash x, st') \<Rightarrow> (Crash x, st'))"

definition block_until_sigint :: "(string, unit) outcome \<Rightarrow> nat \<Rightarrow> unit run option" where
  "block_until_sigint set_handler n =
     (case run_expect ''Error setting Ctrl-C handler'' set_handler of
        Value u \<Rightarrow>
          (case sigints n sigint_new of
             (Value v, st) \<Rightarrow> if 0 < sig_sent st then Some (Value ()) else None
           | (Exit code, st) \<Rightarrow> Some (Exit code)
           | (Crash x, st) \<Rightarrow> Some (Crash x))
      | Exit code \<Rightarrow> Some (Exit code)
      | Crash x \<Rightarrow> Some (Crash x))"

section \<open>The end of main\<close>

datatype node_task = RpcTask | ServiceTask | MetricsTask | ProviderTask

definition shutdown_tasks :: "node_task list" where
  "shutdown_tasks = [RpcTask, ServiceTask, MetricsTask, ProviderTask]"

text \<open>
  The process while it shuts down: the tasks that run, the cancellations the spawned task has still to
  make, and whether \<open>main\<close> has returned, which ends the process with everything in it. The spawned
  task is not awaited, so \<open>main\<close> may return at any time.
\<close>

record process =
  proc_running :: "node_task set"
  proc_cancels :: "node_task list"
  proc_exited :: bool

definition begin_shutdown :: "node_task set \<Rightarrow> process" where
  "begin_shutdown running = \<lparr>proc_running = running, proc_cancels = shutdown_tasks, proc_exited = False\<rparr>"

inductive shutdown_step :: "process \<Rightarrow> process \<Rightarrow> bool" where
  cancel_task: "\<not> proc_exited p \<Longrightarrow> proc_cancels p = t # ts \<Longrightarrow>
    shutdown_step p (p\<lparr>proc_running := proc_running p - {t}, proc_cancels := ts\<rparr>)"
| task_ends: "\<not> proc_exited p \<Longrightarrow> shutdown_step p (p\<lparr>proc_running := proc_running p - {t}\<rparr>)"
| main_returns: "\<not> proc_exited p \<Longrightarrow> shutdown_step p (p\<lparr>proc_exited := True\<rparr>)"

inductive_simps shutdown_step_simps: "shutdown_step p q"

text \<open>What the whole of \<open>main\<close> comes to: the message of a subcommand, or the shutdown after so many sleeps.\<close>

datatype main_end = Finished string | Stopping nat process

definition ursa_process ::
  "('g, 'w, 's, 'p, 'f) env \<Rightarrow> (network_put_file_params, 'j, 'r) client_lib \<Rightarrow>
   (network_get_file_params, 'k, 'u) client_lib \<Rightarrow> cli_opts \<Rightarrow> rpc_commands option \<Rightarrow>
   (string, unit) outcome \<Rightarrow> (nat \<Rightarrow> bool) \<Rightarrow> node_task set \<Rightarrow> 'f \<Rightarrow> main_end run option \<times> 'f" where
  "ursa_process E put_cl get_cl opts cmd set_handler signal running f =
     (case main E put_cl get_cl opts cmd f of
        (Value (Ran m), f') \<Rightarrow> (Some (Value (Finished m)), f')
      | (Value (Started st), f') \<Rightarrow>
          (map_option (\<lambda>r. run_bind r (\<lambda>n. Value (Stopping n (begin_shutdown running))))
             (wait_until_ctrlc set_handler signal), f')
      | (Exit code, f') \<Rightarrow> (Some (Exit code), f')
      | (Crash x, f') \<Rightarrow> (Some (Crash x), f'))"

section \<open>The build script\<close>

definition build_main ::
  "toml_lib \<Rightarrow> 'f fs_lib \<Rightarrow> ursa_config result \<Rightarrow> string \<Rightarrow> 'f \<Rightarrow> unit run \<times> 'f" where
  "build_main tm fs dflt home f =
     (case load_config tm fs dflt (default_config_path home) f of
        (Panic x, f') \<Rightarrow> (Crash x, f')
      | (_, f') \<Rightarrow> (Value (), f'))"

section \<open>Lemmas\<close>

lemma poll_running_returns:
  assumes "signal m" and "n \<le> m" and "\<And>i. n \<le> i \<Longrightarrow> i < m \<Longrightarrow> \<not> signal i"
  shows "poll_running signal True n = Some m"
  using assms(2,3)
proof (induction "m - n" arbitrary: n)
  case 0
  then show ?case using assms(1) by (subst poll_running.simps) simp
next
  case (Suc k)
  then have "n < m" "\<not> signal n" by simp_all
  moreover have "poll_running signal True (Suc n) = Some m" using Suc by (intro Suc.hyps(1)) simp_all
  ultimately show ?case by (subst poll_running.simps) simp
qed

lemma poll_running_forever:
  assumes "\<And>i. \<not> signal i"
  shows "poll_running signal True n = None"
proof (rule ccontr)
  assume "poll_running signal True n \<noteq> None"
  then obtain m where m: "poll_running signal True n = Some m" by blast
  have "signal = signal \<longrightarrow> True \<longrightarrow> False"
    by (rule poll_running.raw_induct [where P = "\<lambda>signal' running n m. signal' = signal \<longrightarrow> running \<longrightarrow> False", OF _ m])
      (clarsimp simp: assms Let_def, blast)
  then show False by simp
qed

lemma poll_running_Least:
  "poll_running signal True 0 = (if \<exists>n. signal n then Some (LEAST n. signal n) else None)"
proof (cases "\<exists>n. signal n")
  case True
  then have "signal (LEAST n. signal n)" by (rule LeastI_ex)
  then have "poll_running signal True 0 = Some (LEAST n. signal n)"
    using not_less_Least by (rule poll_running_returns [OF _ le0])
  with True show ?thesis by (simp only: if_True)
next
  case False
  then show ?thesis using poll_running_forever [of signal 0] by simp
qed

text \<open>The first interrupt wakes the waiting task, one message is sent; a second one ends the process.\<close>

lemma block_until_sigint_cases:
  "block_until_sigint (Ok ()) n =
     (if n = 0 then None else if n = 1 then Some (Value ()) else Some (Exit 0))"
proof -
  have "sigints (Suc (Suc k)) sigint_new = (Exit 0, \<lparr>sig_running = 2, sig_send = False, sig_sent = 1\<rparr>)" for k
    by (simp add: on_sigint_def sigint_new_def Let_def)
  moreover have "sigints 1 sigint_new = (Value (), \<lparr>sig_running = 1, sig_send = False, sig_sent = 1\<rparr>)"
    by (simp add: on_sigint_def sigint_new_def Let_def)
  moreover have "n = 0 \<or> n = 1 \<or> (\<exists>k. n = Suc (Suc k))" by (metis One_nat_def not0_implies_Suc)
  ultimately show ?thesis by (auto simp: block_until_sigint_def sigint_new_def)
qed

text \<open>The tasks are cancelled in order, and no state needs more than that: \<open>main\<close> may return before any of it.\<close>

lemma shutdown_prefix:
  assumes "shutdown_step\<^sup>*\<^sup>* (begin_shutdown running) p"
  shows "\<exists>k\<le>4. proc_cancels p = drop k shutdown_tasks \<and> set (take k shutdown_tasks) \<inter> proc_running p = {}"
  using assms
proof (induction rule: rtranclp_induct)
  case base
  then show ?case by (intro exI [of _ 0]) (simp add: begin_shutdown_def)
next
  case (step p q)
  then obtain k where k: "k \<le> 4" "proc_cancels p = drop k shutdown_tasks" "set (take k shutdown_tasks) \<inter> proc_running p = {}"
    by blast
  from step(2) show ?case
  proof cases
    case (cancel_task t ts)
    with k have lt: "k < length shutdown_tasks" by (cases "k < length shutdown_tasks") simp_all
    with k(2) cancel_task have "shutdown_tasks ! k = t" "drop (Suc k) shutdown_tasks = ts"
      by (metis Cons_nth_drop_Suc list.inject)+
    moreover have "take (Suc k) shutdown_tasks = take k shutdown_tasks @ [shutdown_tasks ! k]"
      by (rule take_Suc_conv_app_nth [OF lt])
    ultimately show ?thesis
      using k lt cancel_task by (intro exI [of _ "Suc k"]) (auto simp: shutdown_tasks_def)
  qed (use k in \<open>auto intro!: exI [of _ k]\<close>)
qed

lemma shutdown_may_skip:
  "\<exists>p. shutdown_step\<^sup>*\<^sup>* (begin_shutdown running) p \<and> proc_exited p \<and> proc_running p = running \<and> proc_cancels p = shutdown_tasks"
  using main_returns [of "begin_shutdown running"]
  by (intro exI [of _ "begin_shutdown running\<lparr>proc_exited := True\<rparr>"]) (auto simp: begin_shutdown_def)

text \<open>A build writes the default configuration, and the start after it uses it and writes nothing.\<close>

lemma build_then_start:
  assumes "toml_lib_ok tm" and "fs_ok fs look" and "opt_config opts = None"
    and "\<not> fs_exists fs (default_config_path home) f"
    and "load_config tm fs (Ok c) (default_config_path home) f = (Ok (), f')"
  shows "build_main tm fs (Ok c) home f = (Value (), f') \<and>
    load_config tm fs (Ok c) (default_config_path home) f' = (Ok (), f') \<and> to_config tm fs home opts f' = Value (Ok c)"
proof -
  from load_config_writes [OF assms(2,4,5)] obtain t m where t: "toml_to_string tm c = Ok t"
    "look f' (default_config_path home) = Some (t, m)" by blast
  then have "fs_exists fs (default_config_path home) f'" "fs_open fs (default_config_path home) f' = Ok ()"
    "fs_read_to_string fs (default_config_path home) f' = Ok t"
    by (simp_all add: fs_okD(5-7) [OF assms(2)])
  moreover from t(1) assms(1) have "toml_from_str tm t = Ok c" by (simp add: toml_lib_ok_def)
  ultimately show ?thesis
    using assms(3,5) by (simp add: build_main_def load_config_def to_config_def read_file_to_string_def)
qed

section \<open>Properties\<close>



end
