(* ===== verification/Provider_Locks.thy ===== *)
theory Provider_Locks
  imports Index_Provider Simulation
begin

text \<open>
  The locks of the index provider, \<open>crates/ursa-index-provider/src/provider.rs\<close>. A \<open>Provider\<close> is shared:
  its \<open>Clone\<close> copies the \<open>Arc\<close>s, the network service calls the methods of \<open>ProviderInterface\<close> on one
  clone, and the HTTP server answers \<open>/head\<close> and \<open>/:cid\<close> on another. \<open>Index_Provider\<close> has each
  method as one function on the state; here a method is the sequence of its critical sections, with
  other threads running in between:

  \<^item> \<open>publish\<close> awaits the write guard of \<open>head\<close> and takes the head out, then awaits the one of
    \<open>temp_ads\<close> and removes the advertisement, then awaits the one of \<open>blockstore\<close>, stores and writes the new head;
  \<^item> \<open>add_chunk\<close> awaits the write guard of \<open>blockstore\<close>, then the one of \<open>temp_ads\<close>;
  \<^item> \<open>create\<close>, \<open>create_announce_msg\<close> and the two handlers have one critical section, and what they do
    before it can already return an error.

  A step that would await a guard another thread holds is not enabled. Readers run their section
  without a further await, so they never hold a guard across a step. Guards are released when the
  method returns, by a value, an error or a panic. A request whose connection closes while it awaits
  is left out; it holds no guard.

  The lemmas show that the locked provider simulates the one of \<open>Index_Provider\<close>: the answers given so far
  are those of the same calls made one after the other, in the order in which they returned. With one
  thread that adds chunks and publishes, as in the node, every call in flight is answered; with two,
  the opposite lock orders of \<open>publish\<close> and \<open>add_chunk\<close> can block the provider for good.
\<close>

section \<open>Calls\<close>

record 's prov_libs =
  pl_cid :: cid_lib
  pl_key :: key_lib
  pl_ad :: ad_lib
  pl_obj :: "'s obj_store"
  pl_ann :: announce_lib

datatype prov_call =
    CallCreate usize advertisement
  | CallAddChunk bytes usize
  | CallPublish usize
  | CallAnnounce peer_id
  | CallHead
  | CallBlock string

text \<open>The value a call returns, the \<open>Result\<close> of the method or handler.\<close>

datatype prov_answer =
    AnsCreate "usize result"
  | AnsAddChunk "unit result"
  | AnsPublish "unit result"
  | AnsAnnounce "bytes result"
  | AnsHead "(provider_error, signed_head) outcome"
  | AnsBlock "(provider_error, bytes) outcome"

fun prov_do :: "'s prov_libs \<Rightarrow> prov_call \<Rightarrow> 's provider \<Rightarrow> prov_answer \<times> 's provider" where
  "prov_do L (CallCreate aid ad) p = map_prod AnsCreate id (create aid ad p)"
| "prov_do L (CallAddChunk b aid) p = map_prod AnsAddChunk id (add_chunk (pl_cid L) (pl_obj L) (pl_ann L) b aid p)"
| "prov_do L (CallPublish aid) p = map_prod AnsPublish id (publish (pl_cid L) (pl_ad L) (pl_obj L) aid p)"
| "prov_do L (CallAnnounce peer) p = (AnsAnnounce (create_announce_msg (pl_ann L) peer p), p)"
| "prov_do L CallHead p = (AnsHead (head_handler (pl_cid L) (pl_key L) p), p)"
| "prov_do L (CallBlock path) p = (AnsBlock (get_block_handler (pl_cid L) (pl_obj L) p path), p)"

section \<open>Threads and locks\<close>

text \<open>
  Where a thread is: between calls, before its first await, with the block store's guard in \<open>add_chunk\<close>,
  with the head's guard in \<open>publish\<close> (and the head it took), with the guard of the advertisements as well
  (and the advertisement it removed).
\<close>

type_synonym tid = nat

datatype thread =
    Idle
  | Ready prov_call
  | AddStore bytes usize
  | PubHead usize "cid option"
  | PubAds usize "cid option" advertisement

text \<open>
  The shared state: the fields, for each lock the thread that holds its guard across an await, the
  threads, and the calls that have returned with their answers.
\<close>

record 's locked =
  lk_prov :: "'s provider"
  lk_head :: "tid option"
  lk_ads :: "tid option"
  lk_store :: "tid option"
  lk_threads :: "tid \<Rightarrow> thread"
  lk_log :: "(tid \<times> prov_call \<times> prov_answer) list"

definition locked_new :: "'s provider \<Rightarrow> 's locked" where
  "locked_new p =
     \<lparr>lk_prov = p, lk_head = None, lk_ads = None, lk_store = None, lk_threads = (\<lambda>t. Idle), lk_log = []\<rparr>"

definition finish :: "tid \<Rightarrow> prov_call \<Rightarrow> prov_answer \<Rightarrow> 's provider \<Rightarrow> 's locked \<Rightarrow> 's locked" where
  "finish t call a p c =
     c\<lparr>lk_prov := p, lk_threads := (lk_threads c)(t := Idle), lk_log := lk_log c @ [(t, call, a)]\<rparr>"

text \<open>A call that holds guards only between two awaits is one step.\<close>

definition at_once :: "'s prov_libs \<Rightarrow> tid \<Rightarrow> prov_call \<Rightarrow> 's locked \<Rightarrow> 's locked" where
  "at_once L t call c = (case prov_do L call (lk_prov c) of (a, p) \<Rightarrow> finish t call a p c)"

text \<open>The part of \<open>create_announce_msg\<close> before its await: the two address parsers.\<close>

definition announce_address :: "announce_lib \<Rightarrow> peer_id \<Rightarrow> 's provider \<Rightarrow> multiaddr result" where
  "announce_address an peer_id p =
     obind (multiaddr_from_str an (domain (prov_config p))) (\<lambda>ma.
       multiaddr_from_str an (multiaddr_to_string an ma @ ''/http/p2p/'' @ peer_to_string an peer_id))"

text \<open>The rest of \<open>publish\<close> once all three guards are held.\<close>

definition publish_put ::
  "'s prov_libs \<Rightarrow> keypair \<Rightarrow> cid option \<Rightarrow> advertisement \<Rightarrow> 's \<Rightarrow> (cid \<times> 's) result" where
  "publish_put L keypair current_head ad bs =
     (let prev = (case current_head of
                    None \<Rightarrow> Ok None
                  | Some h \<Rightarrow> obind (convert_cid (cid_try_from (pl_cid L)) (cid_to_bytes (pl_cid L) h))
                               (\<lambda>l. Ok (Some (IpldLink l))))
      in obind prev (\<lambda>pid. let ad1 = ad\<lparr>PreviousID := pid\<rparr> in
         obind (map_err ad_error (sign (pl_cid L) (pl_ad L) keypair ad1)) (\<lambda>sig.
         let ad2 = ad1\<lparr>Signature := IpldBytes (envelope_to_protobuf (pl_ad L) sig)\<rparr> in
         obind (ad_to_ipld (pl_ad L) ad2) (\<lambda>ipld_ad. put_obj (pl_obj L) bs (ObjIpld ipld_ad)))))"

fun publish_end :: "(cid \<times> 's) result \<Rightarrow> 's provider \<Rightarrow> unit result \<times> 's provider" where
  "publish_end (Ok (cid, bs)) p = (Ok (), p\<lparr>blockstore := bs, head := Some cid\<rparr>)"
| "publish_end (Err e) p = (Err e, p)"
| "publish_end (Panic x) p = (Panic x, p)"

text \<open>
  The guard a call awaits in its only critical section is free, or the call returns before it awaits one.
  (\<open>add_chunk\<close> awaits a second guard: this is the state in which it already has the block store's.)
\<close>

fun unblocked :: "'s prov_libs \<Rightarrow> 's locked \<Rightarrow> prov_call \<Rightarrow> bool" where
  "unblocked L c (CallCreate aid ad) \<longleftrightarrow> lk_ads c = None"
| "unblocked L c (CallAddChunk b aid) \<longleftrightarrow> lk_ads c = None \<or> \<not> is_ok (entries_from_slice (pl_ann L) b)"
| "unblocked L c (CallPublish aid) \<longleftrightarrow> False"
| "unblocked L c (CallAnnounce peer) \<longleftrightarrow>
     lk_head c = None \<or> \<not> is_ok (announce_address (pl_ann L) peer (lk_prov c))"
| "unblocked L c CallHead \<longleftrightarrow> lk_head c = None"
| "unblocked L c (CallBlock path) \<longleftrightarrow> lk_store c = None \<or> cid_from_str (pl_cid L) path = None"

definition ready_step :: "'s prov_libs \<Rightarrow> tid \<Rightarrow> prov_call \<Rightarrow> 's locked \<Rightarrow> 's locked option" where
  "ready_step L t call c =
     (case call of
        CallAddChunk b aid \<Rightarrow>
          if is_ok (entries_from_slice (pl_ann L) b)
          then if lk_store c = None
               then Some (c\<lparr>lk_store := Some t, lk_threads := (lk_threads c)(t := AddStore b aid)\<rparr>) else None
          else Some (at_once L t call c)
      | CallPublish aid \<Rightarrow>
          if lk_head c = None
          then Some (c\<lparr>lk_head := Some t, lk_prov := (lk_prov c)\<lparr>head := None\<rparr>,
                       lk_threads := (lk_threads c)(t := PubHead aid (head (lk_prov c)))\<rparr>)
          else None
      | _ \<Rightarrow> if unblocked L c call then Some (at_once L t call c) else None)"

definition lock_step :: "'s prov_libs \<Rightarrow> tid \<Rightarrow> 's locked \<Rightarrow> 's locked option" where
  "lock_step L t c =
     (let p = lk_prov c in
      case lk_threads c t of
        Idle \<Rightarrow> None
      | Ready call \<Rightarrow> ready_step L t call c
      | AddStore b aid \<Rightarrow>
          if lk_ads c = None
          then Some (at_once L t (CallAddChunk b aid) (c\<lparr>lk_store := None\<rparr>)) else None
      | PubHead aid current_head \<Rightarrow>
          if lk_ads c = None then
            (case temp_ads p aid of
               None \<Rightarrow> Some (finish t (CallPublish aid) (AnsPublish (Err AdNotFound)) p (c\<lparr>lk_head := None\<rparr>))
             | Some ad \<Rightarrow>
                 Some (c\<lparr>lk_ads := Some t, lk_prov := p\<lparr>temp_ads := (temp_ads p)(aid := None)\<rparr>,
                         lk_threads := (lk_threads c)(t := PubAds aid current_head ad)\<rparr>))
          else None
      | PubAds aid current_head ad \<Rightarrow>
          if lk_store c = None then
            (case publish_end (publish_put L (prov_keypair p) current_head ad (blockstore p)) p of
               (a, p') \<Rightarrow> Some (finish t (CallPublish aid) (AnsPublish a) p' (c\<lparr>lk_head := None, lk_ads := None\<rparr>)))
          else None)"

text \<open>A step of the whole: a thread moves, or an idle one is given a call.\<close>

inductive lock_trans ::
  "'s prov_libs \<Rightarrow> (tid \<Rightarrow> prov_call \<Rightarrow> bool) \<Rightarrow> 's locked \<Rightarrow> 's locked \<Rightarrow> bool" for L allowed where
  thread_moves: "lock_step L t c = Some d \<Longrightarrow> lock_trans L allowed c d"
| call_arrives: "lk_threads c t = Idle \<Longrightarrow> allowed t call \<Longrightarrow>
    lock_trans L allowed c (c\<lparr>lk_threads := (lk_threads c)(t := Ready call)\<rparr>)"

text \<open>A schedule, run: which calls arrive where, and which thread moves next.\<close>

datatype lock_event = Arrive tid prov_call | Move tid

fun run_locks :: "'s prov_libs \<Rightarrow> lock_event list \<Rightarrow> 's locked \<Rightarrow> 's locked option" where
  "run_locks L [] c = Some c"
| "run_locks L (Arrive t call # es) c =
     (if lk_threads c t = Idle then run_locks L es (c\<lparr>lk_threads := (lk_threads c)(t := Ready call)\<rparr>) else None)"
| "run_locks L (Move t # es) c = (case lock_step L t c of None \<Rightarrow> None | Some d \<Rightarrow> run_locks L es d)"

lemma run_locks_reach:
  "run_locks L es c = Some d \<Longrightarrow> (\<And>t call. Arrive t call \<in> set es \<Longrightarrow> allowed t call) \<Longrightarrow>
   (lock_trans L allowed)\<^sup>*\<^sup>* c d"
  by (induction L es c rule: run_locks.induct)
    (auto split: if_splits option.splits intro: converse_rtranclp_into_rtranclp thread_moves call_arrives)

section \<open>The sequential provider\<close>

text \<open>The specification: a call that has arrived is done as a whole, and only then the next one.\<close>

record 's sequential =
  sq_prov :: "'s provider"
  sq_calls :: "tid \<Rightarrow> prov_call option"
  sq_log :: "(tid \<times> prov_call \<times> prov_answer) list"

inductive seq_trans ::
  "'s prov_libs \<Rightarrow> (tid \<Rightarrow> prov_call \<Rightarrow> bool) \<Rightarrow> 's sequential \<Rightarrow> 's sequential \<Rightarrow> bool" for L allowed where
  seq_call: "sq_calls q t = None \<Longrightarrow> allowed t call \<Longrightarrow>
    seq_trans L allowed q (q\<lparr>sq_calls := (sq_calls q)(t \<mapsto> call)\<rparr>)"
| seq_do: "sq_calls q t = Some call \<Longrightarrow> prov_do L call (sq_prov q) = (a, p) \<Longrightarrow>
    seq_trans L allowed q
      (q\<lparr>sq_prov := p, sq_calls := (sq_calls q)(t := None), sq_log := sq_log q @ [(t, call, a)]\<rparr>)"

fun thread_call :: "thread \<Rightarrow> prov_call option" where
  "thread_call Idle = None"
| "thread_call (Ready call) = Some call"
| "thread_call (AddStore b aid) = Some (CallAddChunk b aid)"
| "thread_call (PubHead aid h) = Some (CallPublish aid)"
| "thread_call (PubAds aid h ad) = Some (CallPublish aid)"

text \<open>What an unfinished \<open>publish\<close> has taken is put back.\<close>

fun put_back :: "thread \<Rightarrow> 's provider \<Rightarrow> 's provider" where
  "put_back (PubHead aid h) p = p\<lparr>head := h\<rparr>"
| "put_back (PubAds aid h ad) p = p\<lparr>head := h, temp_ads := (temp_ads p)(aid \<mapsto> ad)\<rparr>"
| "put_back _ p = p"

definition restore :: "'s locked \<Rightarrow> 's provider \<Rightarrow> 's provider" where
  "restore c p = (case lk_head c of None \<Rightarrow> p | Some t \<Rightarrow> put_back (lk_threads c t) p)"

definition lock_view :: "'s locked \<Rightarrow> 's sequential" where
  "lock_view c =
     \<lparr>sq_prov = restore c (lk_prov c),
      sq_calls = (\<lambda>t. thread_call (lk_threads c t)), sq_log = lk_log c\<rparr>"

fun holds_head :: "thread \<Rightarrow> bool" where
  "holds_head (PubHead aid h) = True"
| "holds_head (PubAds aid h ad) = True"
| "holds_head _ = False"

fun holds_ads :: "thread \<Rightarrow> bool" where
  "holds_ads (PubAds aid h ad) = True"
| "holds_ads _ = False"

fun holds_store :: "thread \<Rightarrow> bool" where
  "holds_store (AddStore b aid) = True"
| "holds_store _ = False"

definition owned :: "(thread \<Rightarrow> bool) \<Rightarrow> tid option \<Rightarrow> (tid \<Rightarrow> thread) \<Rightarrow> bool" where
  "owned holds lk ths \<longleftrightarrow> (\<forall>t. lk = Some t \<longleftrightarrow> holds (ths t))"

definition lock_inv :: "'s locked \<Rightarrow> bool" where
  "lock_inv c \<longleftrightarrow>
     owned holds_head (lk_head c) (lk_threads c) \<and>
     owned holds_ads (lk_ads c) (lk_threads c) \<and>
     owned holds_store (lk_store c) (lk_threads c) \<and>
     (lk_head c \<noteq> None \<longrightarrow> head (lk_prov c) = None) \<and>
     (\<forall>t aid h ad. lk_threads c t = PubAds aid h ad \<longrightarrow> temp_ads (lk_prov c) aid = None)"

section \<open>The methods and what they touch\<close>

lemma publish_by_parts:
  "publish (pl_cid L) (pl_ad L) (pl_obj L) aid p =
     (case temp_ads p aid of
        None \<Rightarrow> (Err AdNotFound, p\<lparr>head := None\<rparr>)
      | Some ad \<Rightarrow>
          publish_end (publish_put L (prov_keypair p) (head p) ad (blockstore p))
            (p\<lparr>head := None, temp_ads := (temp_ads p)(aid := None)\<rparr>))"
  by (auto simp: publish_def publish_put_def Let_def split: option.split outcome.split)

lemma add_chunk_head:
  "add_chunk cl os an b aid (p\<lparr>head := h\<rparr>) =
     (let (r, p') = add_chunk cl os an b aid p in (r, p'\<lparr>head := h\<rparr>))"
  by (simp add: add_chunk_def split: outcome.split option.split)

lemma create_head: "create aid ad (p\<lparr>head := h\<rparr>) = (let (r, p') = create aid ad p in (r, p'\<lparr>head := h\<rparr>))"
  by (simp add: create_def)

lemma get_block_handler_head: "get_block_handler cl os (p\<lparr>head := h\<rparr>) path = get_block_handler cl os p path"
  by (simp add: get_block_handler_def split: option.split)

lemma get_block_handler_put_back:
  "get_block_handler cl os (put_back x p) path = get_block_handler cl os p path"
  by (cases x) (simp_all add: get_block_handler_def split: option.split)

lemma announce_address_put_back [simp]: "announce_address an peer (put_back x p) = announce_address an peer p"
  by (cases x) (simp_all add: announce_address_def)

lemma create_announce_msg_by_parts:
  "create_announce_msg an peer p =
     obind (announce_address an peer p) (\<lambda>ma.
       case head p of
         None \<Rightarrow> Panic (Expect ''no head found for announcement'')
       | Some head_cid \<Rightarrow> unwrap (marshal_cbor an \<lparr>MsgCid = head_cid, MsgAddrs = [ma]\<rparr>))"
  by (simp add: create_announce_msg_def announce_address_def obind_assoc)

section \<open>The lock invariant\<close>

lemma owned_keep: "owned holds lk ths \<Longrightarrow> holds x = holds (ths t) \<Longrightarrow> owned holds lk (ths(t := x))"
  by (auto simp: owned_def)

lemma owned_take: "owned holds None ths \<Longrightarrow> holds x \<Longrightarrow> owned holds (Some t) (ths(t := x))"
  by (auto simp: owned_def)

lemma owned_release: "owned holds lk ths \<Longrightarrow> holds (ths t) \<Longrightarrow> \<not> holds x \<Longrightarrow> owned holds None (ths(t := x))"
  by (auto simp: owned_def) (metis option.inject)

lemma owned_iff: "owned holds lk ths \<Longrightarrow> lk = Some t \<longleftrightarrow> holds (ths t)"
  by (simp add: owned_def)

lemma owned_None: "owned holds None ths \<Longrightarrow> \<not> holds (ths t)"
  by (auto simp: owned_def)

lemmas owned_intros = owned_keep owned_take owned_release

lemma lock_inv_new: "lock_inv (locked_new p)"
  by (simp add: lock_inv_def locked_new_def owned_def)

lemma add_chunk_keeps_head: "add_chunk cl os an b aid p = (r, p') \<Longrightarrow> head p' = head p"
  by (auto simp: add_chunk_def split: outcome.splits option.splits)

lemma add_chunk_not_ok:
  "\<not> is_ok (entries_from_slice an b) \<Longrightarrow> add_chunk cl os an b aid p = (obind (unwrap (entries_from_slice an b)) (\<lambda>es. Ok ()), p)"
  by (cases "entries_from_slice an b") (simp_all add: add_chunk_def)

lemma announce_not_ok:
  "\<not> is_ok (announce_address an peer p) \<Longrightarrow>
   create_announce_msg an peer (put_back x p) = create_announce_msg an peer p"
  by (cases "announce_address an peer p") (simp_all add: create_announce_msg_by_parts)

lemma lock_inv_finish:
  assumes "lock_inv c" and "\<not> holds_head (lk_threads c t)" and "\<not> holds_store (lk_threads c t)"
    and "lk_head c \<noteq> None \<longrightarrow> head p = None"
    and "\<forall>u aid h ad. lk_threads c u = PubAds aid h ad \<longrightarrow> temp_ads p aid = None"
  shows "lock_inv (finish t call a p c)"
proof -
  have "\<not> holds_ads (lk_threads c t)" using assms(2) by (cases "lk_threads c t") auto
  with assms show ?thesis by (auto simp: lock_inv_def finish_def intro: owned_keep)
qed

lemma finish_frame [simp]:
  "lk_prov (finish t call a p c) = p" "lk_head (finish t call a p c) = lk_head c"
  "lk_ads (finish t call a p c) = lk_ads c" "lk_store (finish t call a p c) = lk_store c"
  "lk_threads (finish t call a p c) = (lk_threads c)(t := Idle)"
  "lk_log (finish t call a p c) = lk_log c @ [(t, call, a)]"
  by (simp_all add: finish_def)

lemma lock_stepE:
  assumes "lock_step L t c = Some d"
  obtains (once) call where "lk_threads c t = Ready call" and "unblocked L c call" and "d = at_once L t call c"
  | (store) b aid where "lk_threads c t = Ready (CallAddChunk b aid)" and "lk_store c = None"
      and "d = c\<lparr>lk_store := Some t, lk_threads := (lk_threads c)(t := AddStore b aid)\<rparr>"
  | (chunk) b aid where "lk_threads c t = AddStore b aid" and "lk_ads c = None"
      and "d = at_once L t (CallAddChunk b aid) (c\<lparr>lk_store := None\<rparr>)"
  | (head) aid where "lk_threads c t = Ready (CallPublish aid)" and "lk_head c = None"
      and "d = c\<lparr>lk_head := Some t, lk_prov := (lk_prov c)\<lparr>head := None\<rparr>,
                 lk_threads := (lk_threads c)(t := PubHead aid (head (lk_prov c)))\<rparr>"
  | (missing) aid h where "lk_threads c t = PubHead aid h" and "lk_ads c = None" and "temp_ads (lk_prov c) aid = None"
      and "d = finish t (CallPublish aid) (AnsPublish (Err AdNotFound)) (lk_prov c) (c\<lparr>lk_head := None\<rparr>)"
  | (ads) aid h ad where "lk_threads c t = PubHead aid h" and "lk_ads c = None"
      and "temp_ads (lk_prov c) aid = Some ad"
      and "d = c\<lparr>lk_ads := Some t, lk_prov := (lk_prov c)\<lparr>temp_ads := (temp_ads (lk_prov c))(aid := None)\<rparr>,
                 lk_threads := (lk_threads c)(t := PubAds aid h ad)\<rparr>"
  | (put) aid h ad a p where "lk_threads c t = PubAds aid h ad" and "lk_store c = None"
      and "publish_end (publish_put L (prov_keypair (lk_prov c)) h ad (blockstore (lk_prov c))) (lk_prov c) = (a, p)"
      and "d = finish t (CallPublish aid) (AnsPublish a) p (c\<lparr>lk_head := None, lk_ads := None\<rparr>)"
  using assms
  by (auto simp: lock_step_def ready_step_def Let_def
      split: thread.splits prov_call.splits option.splits if_splits prod.splits)

lemma lock_inv_simps:
  assumes "lock_inv c"
  shows "holds_head (lk_threads c t) \<longleftrightarrow> lk_head c = Some t"
    and "holds_ads (lk_threads c t) \<longleftrightarrow> lk_ads c = Some t"
    and "holds_store (lk_threads c t) \<longleftrightarrow> lk_store c = Some t"
    and "lk_head c = Some t \<Longrightarrow> head (lk_prov c) = None"
    and "lk_threads c t = PubAds aid h ad \<Longrightarrow> temp_ads (lk_prov c) aid = None"
  using assms unfolding lock_inv_def owned_def by blast+

lemma ads_owner:
  assumes "lock_inv c" and "lk_ads c = Some t"
  obtains aid h ad where "lk_threads c t = PubAds aid h ad" and "lk_head c = Some t"
proof -
  have "holds_ads (lk_threads c t)" using assms by (simp add: lock_inv_simps)
  then obtain aid h ad where th: "lk_threads c t = PubAds aid h ad" by (cases "lk_threads c t") auto
  then have "holds_head (lk_threads c t)" by simp
  with th that lock_inv_simps(1) [OF assms(1), of t] show thesis by blast
qed

lemma head_owner_without_ads:
  assumes "lock_inv c" and "lk_head c = Some t" and "lk_ads c = None"
  obtains aid h where "lk_threads c t = PubHead aid h"
proof -
  have "holds_head (lk_threads c t)" and "\<not> holds_ads (lk_threads c t)" using assms by (simp_all add: lock_inv_simps)
  with that show thesis by (cases "lk_threads c t") auto
qed

text \<open>An unblocked call does and answers the same whether or not the work of an unfinished \<open>publish\<close> is undone.\<close>

lemma unblocked_commutes:
  assumes "lock_inv c" and "unblocked L c call" and "prov_do L call (lk_prov c) = (a, p')"
  shows "prov_do L call (restore c (lk_prov c)) = (a, restore c p')"
    and "head p' = head (lk_prov c)"
    and "lk_ads c \<noteq> None \<Longrightarrow> temp_ads p' = temp_ads (lk_prov c)"
proof -
  show "head p' = head (lk_prov c)"
    using assms(2,3) by (cases call) (auto simp: create_def map_prod_def split: prod.splits dest: add_chunk_keeps_head)
  show "lk_ads c \<noteq> None \<Longrightarrow> temp_ads p' = temp_ads (lk_prov c)"
    using assms(2,3) by (cases call) (auto simp: create_def add_chunk_not_ok)
  show "prov_do L call (restore c (lk_prov c)) = (a, restore c p')"
  proof (cases "lk_head c")
    case None
    with assms(3) show ?thesis by (simp add: restore_def)
  next
    case (Some t)
    show ?thesis
    proof (cases "lk_ads c")
      case None
      with Some obtain aid h where "lk_threads c t = PubHead aid h"
        using head_owner_without_ads [OF assms(1)] by blast
      with Some assms(2,3) announce_not_ok [of "pl_ann L" _ "lk_prov c" "PubHead aid h"] show ?thesis
        by (cases call) (auto simp: restore_def create_def add_chunk_head get_block_handler_head map_prod_def
            split: prod.splits)
    next
      case (Some u)
      then show ?thesis using assms(2,3)
        by (cases call) (auto simp: restore_def add_chunk_not_ok get_block_handler_put_back announce_not_ok
            \<open>lk_head c = Some t\<close>)
    qed
  qed
qed

lemma lock_inv_at_once:
  assumes "lock_inv c" and "unblocked L c call" and "\<not> holds_head (lk_threads c t)" and "\<not> holds_store (lk_threads c t)"
  shows "lock_inv (at_once L t call c)"
proof -
  obtain a p where do: "prov_do L call (lk_prov c) = (a, p)" by (cases "prov_do L call (lk_prov c)")
  note frame = unblocked_commutes(2,3) [OF assms(1,2) do]
  have "lk_ads c \<noteq> None" if "lk_threads c u = PubAds aid h ad" for u aid h ad
    using lock_inv_simps(2) [OF assms(1), of u] that by auto
  with do frame assms show ?thesis
    unfolding at_once_def by (auto intro!: lock_inv_finish simp: lock_inv_simps)
qed

lemma publish_end_temp_ads: "publish_end r p = (a, p') \<Longrightarrow> temp_ads p' = temp_ads p"
  by (cases "(r, p)" rule: publish_end.cases) auto

lemma lock_inv_release_store:
  assumes "lock_inv c" and "lk_threads c t = AddStore b aid"
  shows "lock_inv (c\<lparr>lk_store := None, lk_threads := (lk_threads c)(t := Ready call)\<rparr>)"
  using assms by (auto simp: lock_inv_def intro: owned_intros)

lemma lock_inv_step:
  assumes "lock_inv c" and "lock_step L t c = Some d"
  shows "lock_inv d"
  using assms(2)
proof (cases rule: lock_stepE)
  case (once call)
  with assms(1) show ?thesis by (simp add: lock_inv_at_once)
next
  case (chunk b aid)
  let ?c = "c\<lparr>lk_store := None, lk_threads := (lk_threads c)(t := Ready (CallAddChunk b aid))\<rparr>"
  have "d = at_once L t (CallAddChunk b aid) ?c"
    using chunk(3) by (simp add: at_once_def finish_def split: prod.split)
  with lock_inv_at_once [OF lock_inv_release_store [OF assms(1) chunk(1)]] chunk(2) show ?thesis by simp
next
  case (put aid h ad a p)
  with assms(1) publish_end_temp_ads [OF put(3)] show ?thesis by (auto simp: lock_inv_def intro: owned_intros)
next
  case (ads aid h ad)
  with assms(1) show ?thesis by (auto simp: lock_inv_def intro: owned_intros dest: owned_None)
qed (use assms(1) in \<open>auto simp: lock_inv_def intro: owned_intros\<close>)

section \<open>The locked provider simulates the sequential one\<close>

lemma restore_finish: "lk_head c \<noteq> Some t \<Longrightarrow> restore (finish t call a p c) p' = restore c p'"
  by (simp add: restore_def split: option.split)

lemma view_finish:
  assumes "thread_call (lk_threads c t) = Some call" and "sq_prov (lock_view c) = q" and "prov_do L call q = (a, p')"
    and "restore d p = p'" and "lk_prov d = p"
    and "lk_threads d = (lk_threads c)(t := Idle)" and "lk_log d = lk_log c @ [(t, call, a)]"
  shows "seq_trans L allowed (lock_view c) (lock_view d)"
proof -
  have "lock_view d = (lock_view c)\<lparr>sq_prov := p', sq_calls := (sq_calls (lock_view c))(t := None),
          sq_log := sq_log (lock_view c) @ [(t, call, a)]\<rparr>"
    using assms(4-) by (auto simp: lock_view_def)
  with seq_do [of "lock_view c" t call L a p' allowed] assms(1-3) show ?thesis by (simp add: lock_view_def)
qed

lemma view_at_once:
  assumes "lock_inv c" and "unblocked L c call" and "thread_call (lk_threads c t) = Some call"
    and "\<not> holds_head (lk_threads c t)"
  shows "seq_trans L allowed (lock_view c) (lock_view (at_once L t call c))"
proof -
  obtain a p where do: "prov_do L call (lk_prov c) = (a, p)" by (cases "prov_do L call (lk_prov c)")
  from assms(1,4) have "lk_head c \<noteq> Some t" by (simp add: lock_inv_simps)
  with do unblocked_commutes(1) [OF assms(1,2) do] show ?thesis
    by (intro view_finish [OF assms(3), where p = p]) (simp_all add: at_once_def lock_view_def restore_finish)
qed

lemma view_publish:
  assumes "lock_inv c" and "lk_threads c t = x" and "holds_head x" and "thread_call x = Some (CallPublish aid)"
    and "prov_do L (CallPublish aid) (put_back x (lk_prov c)) = (a, p)"
    and "lk_head d = None" and "lk_prov d = p" and "lk_threads d = (lk_threads c)(t := Idle)"
    and "lk_log d = lk_log c @ [(t, CallPublish aid, a)]"
  shows "seq_trans L allowed (lock_view c) (lock_view d)"
proof -
  have "lk_head c = Some t" using assms(1-3) lock_inv_simps(1) by blast
  then show ?thesis
    using assms(2-) by (intro view_finish [where p = p and p' = p]) (auto simp: lock_view_def restore_def)
qed

lemma lock_step_sim:
  assumes "lock_inv c" and "lock_step L t c = Some d"
  shows "lock_view d = lock_view c \<or> seq_trans L allowed (lock_view c) (lock_view d)"
  using assms(2)
proof (cases rule: lock_stepE)
  case (once call)
  with view_at_once [OF assms(1)] show ?thesis by simp
next
  case (chunk b aid)
  let ?c = "c\<lparr>lk_store := None, lk_threads := (lk_threads c)(t := Ready (CallAddChunk b aid))\<rparr>"
  have "d = at_once L t (CallAddChunk b aid) ?c"
    using chunk(3) by (simp add: at_once_def finish_def split: prod.split)
  moreover have "lk_head c \<noteq> Some t"
    using lock_inv_simps(1) [OF assms(1), of t] chunk(1) by simp
  then have "lock_view ?c = lock_view c"
    using chunk(1) by (auto simp: lock_view_def restore_def split: option.split)
  ultimately show ?thesis
    using view_at_once [OF lock_inv_release_store [OF assms(1) chunk(1), of "CallAddChunk b aid"],
        of L "CallAddChunk b aid" t allowed] chunk(2) by simp
next
  case (put aid h ad a p)
  from lock_inv_simps(5) [OF assms(1) put(1)] have "(temp_ads (lk_prov c))(aid := None) = temp_ads (lk_prov c)" by auto
  moreover have "lk_head c = Some t" using lock_inv_simps(1) [OF assms(1), of t] put(1) by simp
  with lock_inv_simps(4) [OF assms(1)] have "(lk_prov c)\<lparr>head := None\<rparr> = lk_prov c" by simp
  ultimately show ?thesis
    using put by (intro disjI2 view_publish [OF assms(1) put(1)]) (simp_all add: publish_by_parts)
next
  case (missing aid h)
  have "lk_head c = Some t" using lock_inv_simps(1) [OF assms(1), of t] missing(1) by simp
  with lock_inv_simps(4) [OF assms(1)] have "(lk_prov c)\<lparr>head := None\<rparr> = lk_prov c" by simp
  with missing show ?thesis
    by (intro disjI2 view_publish [OF assms(1) missing(1)]) (simp_all add: publish_by_parts)
next
  case (store b aid)
  have "lk_head c \<noteq> Some t" using lock_inv_simps(1) [OF assms(1), of t] store(1) by simp
  with store show ?thesis by (auto simp: lock_view_def restore_def split: option.split)
next
  case (head aid)
  then show ?thesis by (auto simp: lock_view_def restore_def)
next
  case (ads aid h ad)
  have "lk_head c = Some t" using lock_inv_simps(1) [OF assms(1), of t] ads(1) by simp
  with ads show ?thesis by (auto simp: lock_view_def restore_def fun_upd_idem)
qed

lemma call_arrives_inv: "lock_inv c \<Longrightarrow> lk_threads c t = Idle \<Longrightarrow> lock_inv (c\<lparr>lk_threads := (lk_threads c)(t := Ready call)\<rparr>)"
  by (auto simp: lock_inv_def intro: owned_keep)

lemma call_arrives_sim:
  assumes "lock_inv c" and "lk_threads c t = Idle" and "allowed t call"
  shows "seq_trans L allowed (lock_view c) (lock_view (c\<lparr>lk_threads := (lk_threads c)(t := Ready call)\<rparr>))"
proof -
  let ?d = "c\<lparr>lk_threads := (lk_threads c)(t := Ready call)\<rparr>"
  have "lk_head c \<noteq> Some t" using lock_inv_simps(1) [OF assms(1), of t] assms(2) by simp
  then have "lock_view ?d = (lock_view c)\<lparr>sq_calls := (sq_calls (lock_view c))(t \<mapsto> call)\<rparr>"
    by (auto simp: lock_view_def restore_def split: option.split)
  with seq_call [of "lock_view c" t allowed call L] assms(2,3) show ?thesis by (simp add: lock_view_def)
qed

interpretation locks: simulation "lock_trans L allowed" "seq_trans L allowed" lock_view lock_inv
  for L :: "'s prov_libs" and allowed
proof
  fix c d :: "'s locked"
  assume inv: "lock_inv c" and step: "lock_trans L allowed c d"
  from step inv show "lock_inv d"
    by (cases rule: lock_trans.cases) (auto intro: lock_inv_step call_arrives_inv)
  from step inv show "(seq_trans L allowed)\<^sup>*\<^sup>* (lock_view c) (lock_view d)"
    by (cases rule: lock_trans.cases) (auto dest: lock_step_sim [where allowed = allowed] intro: call_arrives_sim)
qed

section \<open>The log is a sequential history\<close>

fun in_sequence :: "'s prov_libs \<Rightarrow> prov_call list \<Rightarrow> 's provider \<Rightarrow> prov_answer list \<times> 's provider" where
  "in_sequence L [] p = ([], p)"
| "in_sequence L (call # calls) p =
     (case prov_do L call p of (a, p') \<Rightarrow> case in_sequence L calls p' of (as, q) \<Rightarrow> (a # as, q))"

lemma in_sequence_snoc:
  "in_sequence L (calls @ [call]) p =
     (case in_sequence L calls p of (as, q) \<Rightarrow> case prov_do L call q of (a, q') \<Rightarrow> (as @ [a], q'))"
  by (induction calls arbitrary: p) (auto split: prod.splits)

definition replays :: "'s prov_libs \<Rightarrow> 's provider \<Rightarrow> 's sequential \<Rightarrow> bool" where
  "replays L p q \<longleftrightarrow>
     in_sequence L (map (fst \<circ> snd) (sq_log q)) p = (map (snd \<circ> snd) (sq_log q), sq_prov q)"

lemma seq_trans_replays: "seq_trans L allowed q q' \<Longrightarrow> replays L p q \<Longrightarrow> replays L p q'"
  by (induction rule: seq_trans.induct) (auto simp: replays_def in_sequence_snoc)

lemma lock_view_new: "lock_view (locked_new p) = \<lparr>sq_prov = p, sq_calls = (\<lambda>t. None), sq_log = []\<rparr>"
  by (simp add: lock_view_def locked_new_def restore_def)

lemma reach_replays: "(lock_trans L allowed)\<^sup>*\<^sup>* (locked_new p) c \<Longrightarrow> replays L p (lock_view c)"
  by (rule locks.transfer_inv [where P = "replays L p", OF _ lock_inv_new seq_trans_replays])
    (auto simp: replays_def lock_view_new)

lemma blockstore_restore: "blockstore (restore c p) = blockstore p"
  by (auto simp: restore_def split: option.split) (cases "lk_threads c (the (lk_head c))"; simp)

text \<open>
  C10. The provider is linearizable: whatever calls arrive at whatever threads and however their critical
  sections interleave, the calls that have returned and their answers are exactly what the same calls
  return when each is done as a whole, one after the other in the order of their return. The block store
  is the one that sequential run leaves, and whenever no \<open>publish\<close> is under way so is every other
  field. In particular no request sees the head that \<open>publish\<close> has taken out.
\<close>

theorem locked_provider_linearizable:
  assumes "(lock_trans L allowed)\<^sup>*\<^sup>* (locked_new p) c"
  shows "\<exists>q. in_sequence L (map (fst \<circ> snd) (lk_log c)) p = (map (snd \<circ> snd) (lk_log c), q) \<and>
             blockstore q = blockstore (lk_prov c) \<and>
             (lk_head c = None \<longrightarrow> q = lk_prov c)"
proof (intro exI conjI impI)
  from reach_replays [OF assms]
  show "in_sequence L (map (fst \<circ> snd) (lk_log c)) p = (map (snd \<circ> snd) (lk_log c), restore c (lk_prov c))"
    by (simp add: replays_def lock_view_def)
qed (simp_all add: restore_def blockstore_restore [unfolded restore_def])

section \<open>Progress and deadlock\<close>

definition moves :: "'s prov_libs \<Rightarrow> 's locked \<Rightarrow> 's locked \<Rightarrow> bool" where
  "moves L c d \<longleftrightarrow> (\<exists>t. lock_step L t c = Some d)"

text \<open>Threads in flight that cannot move: one holds the advertisements and awaits the block store, another the reverse.\<close>

lemma stuck_is_cycle:
  assumes inv: "lock_inv c" and busy: "lk_threads c t \<noteq> Idle" and stuck: "\<And>u. lock_step L u c = None"
  shows "\<exists>u v. holds_ads (lk_threads c u) \<and> holds_store (lk_threads c v)"
proof (cases "lk_ads c")
  case (Some u)
  with inv obtain aid h ad where "lk_threads c u = PubAds aid h ad" by (elim ads_owner)
  with stuck [of u] have "lk_store c \<noteq> None" by (auto simp: lock_step_def Let_def split: prod.splits if_splits)
  with Some inv show ?thesis by (auto simp: lock_inv_simps)
next
  case None
  have "\<not> holds_store (lk_threads c v)" for v
    using stuck [of v] None by (cases "lk_threads c v") (auto simp: lock_step_def)
  with inv have store: "lk_store c = None" by (cases "lk_store c") (auto simp: lock_inv_simps)
  have "\<not> holds_head (lk_threads c v)" for v
  proof (cases "lk_threads c v")
    case (PubAds aid h ad)
    with lock_inv_simps(2) [OF inv, of v] None show ?thesis by simp
  qed (use stuck [of v] None in \<open>auto simp: lock_step_def Let_def split: option.splits\<close>)
  with inv have head: "lk_head c = None" by (cases "lk_head c") (auto simp: lock_inv_simps)
  have "lock_step L t c \<noteq> None"
  proof (cases "lk_threads c t")
    case (Ready call)
    with None store head show ?thesis by (cases call) (auto simp: lock_step_def ready_step_def)
  qed (use busy None store in \<open>auto simp: lock_step_def Let_def split: option.splits prod.splits\<close>)
  with stuck show ?thesis by simp
qed

text \<open>The calls that hold one guard while they await another, and an environment in which one thread makes them.\<close>

fun calls_store :: "prov_call \<Rightarrow> bool" where
  "calls_store (CallAddChunk b aid) = True"
| "calls_store (CallPublish aid) = True"
| "calls_store _ = False"

definition one_publisher :: "tid \<Rightarrow> (tid \<Rightarrow> prov_call \<Rightarrow> bool) \<Rightarrow> bool" where
  "one_publisher s allowed \<longleftrightarrow> (\<forall>t call. allowed t call \<longrightarrow> calls_store call \<longrightarrow> t = s)"

definition calls_allowed :: "(tid \<Rightarrow> prov_call \<Rightarrow> bool) \<Rightarrow> 's locked \<Rightarrow> bool" where
  "calls_allowed allowed c \<longleftrightarrow> (\<forall>t call. thread_call (lk_threads c t) = Some call \<longrightarrow> allowed t call)"

lemma at_once_frame:
  "lk_threads (at_once L t call c) = (lk_threads c)(t := Idle)"
  "\<exists>a. lk_log (at_once L t call c) = lk_log c @ [(t, call, a)]"
  by (simp_all add: at_once_def split: prod.split)

text \<open>How many steps a thread still has to do.\<close>

fun weight :: "thread \<Rightarrow> nat" where
  "weight Idle = 0"
| "weight (Ready call) = (case call of CallPublish aid \<Rightarrow> 3 | CallAddChunk b aid \<Rightarrow> 2 | _ \<Rightarrow> 1)"
| "weight (AddStore b aid) = 1"
| "weight (PubHead aid h) = 2"
| "weight (PubAds aid h ad) = 1"

text \<open>A step of a thread changes only that thread, and either keeps its call or answers it.\<close>

lemma lock_step_thread:
  assumes "lock_step L t c = Some d"
  obtains x where "lk_threads d = (lk_threads c)(t := x)" and "weight x < weight (lk_threads c t)"
    and "thread_call x = thread_call (lk_threads c t) \<and> lk_log d = lk_log c \<or>
      x = Idle \<and> (\<exists>call a. thread_call (lk_threads c t) = Some call \<and> lk_log d = lk_log c @ [(t, call, a)])"
  using assms
proof (cases rule: lock_stepE)
  case (once call)
  with that [of Idle] show thesis using at_once_frame(2) [of L t call c] by (auto simp: at_once_frame split: prov_call.splits)
next
  case (chunk b aid)
  with that [of Idle] show thesis
    using at_once_frame(2) [of L t "CallAddChunk b aid" "c\<lparr>lk_store := None\<rparr>"] by (auto simp: at_once_frame)
qed (use that in auto)

definition busy :: "'s locked \<Rightarrow> tid set" where
  "busy c = {t. lk_threads c t \<noteq> Idle}"

definition work :: "'s locked \<Rightarrow> nat" where
  "work c = (\<Sum>t\<in>busy c. weight (lk_threads c t))"

lemma work_superset: "finite A \<Longrightarrow> busy c \<subseteq> A \<Longrightarrow> work c = (\<Sum>t\<in>A. weight (lk_threads c t))"
  unfolding work_def by (rule sum.mono_neutral_left) (auto simp: busy_def)

lemma lock_step_work:
  assumes "finite (busy c)" and "lock_step L t c = Some d"
  shows "work d < work c" and "busy d \<subseteq> busy c"
proof -
  from assms(2) obtain x where x: "lk_threads d = (lk_threads c)(t := x)" "weight x < weight (lk_threads c t)"
    by (elim lock_step_thread)
  then have t: "t \<in> busy c" by (auto simp: busy_def)
  with x show sub: "busy d \<subseteq> busy c" by (auto simp: busy_def split: if_splits)
  have "work d = (\<Sum>u\<in>busy c. weight (lk_threads d u))" by (rule work_superset [OF assms(1) sub])
  also have "\<dots> < (\<Sum>u\<in>busy c. weight (lk_threads c u))"
    using assms(1) t x by (intro sum_strict_mono_ex1) auto
  finally show "work d < work c" by (simp add: work_def)
qed

text \<open>What the environment keeps: finitely many calls in flight, each of them allowed.\<close>

definition orderly :: "(tid \<Rightarrow> prov_call \<Rightarrow> bool) \<Rightarrow> 's locked \<Rightarrow> bool" where
  "orderly allowed c \<longleftrightarrow> lock_inv c \<and> finite (busy c) \<and> calls_allowed allowed c"

lemma orderly_new: "orderly allowed (locked_new p)"
  using lock_inv_new [of p] by (simp add: orderly_def busy_def calls_allowed_def locked_new_def)

lemma orderly_step:
  assumes "orderly allowed c" and "lock_step L t c = Some d"
  shows "orderly allowed d"
proof -
  from assms(2) obtain x where "lk_threads d = (lk_threads c)(t := x)"
    and "thread_call x = thread_call (lk_threads c t) \<or> x = Idle"
    by (elim lock_step_thread) auto
  with assms have "calls_allowed allowed d" by (auto simp: orderly_def calls_allowed_def)
  with assms lock_inv_step lock_step_work(2) finite_subset show ?thesis unfolding orderly_def by metis
qed

lemma orderly_trans: "lock_trans L allowed c d \<Longrightarrow> orderly allowed c \<Longrightarrow> orderly allowed d"
proof (induction rule: lock_trans.induct)
  case (call_arrives c t call)
  have "busy (c\<lparr>lk_threads := (lk_threads c)(t := Ready call)\<rparr>) \<subseteq> insert t (busy c)" by (auto simp: busy_def)
  with call_arrives show ?case
    by (auto simp: orderly_def calls_allowed_def call_arrives_inv intro: finite_subset)
qed (rule orderly_step)

lemma reach_orderly: "(lock_trans L allowed)\<^sup>*\<^sup>* c d \<Longrightarrow> orderly allowed c \<Longrightarrow> orderly allowed d"
  by (induction rule: rtranclp_induct) (auto intro: orderly_trans)

lemma moves_orderly: "(moves L)\<^sup>*\<^sup>* c d \<Longrightarrow> orderly allowed c \<Longrightarrow> orderly allowed d"
  by (induction rule: rtranclp_induct) (auto simp: moves_def intro: orderly_step)

lemma moves_bounded: "(moves L ^^ n) c d \<Longrightarrow> finite (busy c) \<Longrightarrow> n + work d \<le> work c \<and> finite (busy d)"
proof (induction n arbitrary: d)
  case (Suc n)
  then obtain e where e: "(moves L ^^ n) c e" and "moves L e d" by auto
  then obtain t where t: "lock_step L t e = Some d" by (auto simp: moves_def)
  from Suc.IH [OF e Suc.prems(2)] have "n + work e \<le> work c" and fin: "finite (busy e)" by simp_all
  with lock_step_work [OF fin t] finite_subset show ?case by fastforce
qed simp

definition answered :: "tid \<Rightarrow> prov_call \<Rightarrow> 's locked \<Rightarrow> bool" where
  "answered t call c \<longleftrightarrow> (\<exists>a. (t, call, a) \<in> set (lk_log c))"

lemma moves_answer:
  assumes "(moves L)\<^sup>*\<^sup>* c d" and "thread_call (lk_threads c t) = Some call"
  shows "thread_call (lk_threads d t) = Some call \<or> answered t call d"
  using assms
proof (induction rule: rtranclp_induct)
  case (step d e)
  then obtain u where "lock_step L u d = Some e" by (auto simp: moves_def)
  then show ?case using step by (elim lock_step_thread) (auto simp: answered_def split: if_splits)
qed simp

lemma one_publisher_moves:
  assumes "one_publisher s allowed" and "orderly allowed c" and "lk_threads c t \<noteq> Idle"
  shows "\<exists>d. moves L c d"
proof (rule ccontr)
  assume "\<nexists>d. moves L c d"
  then have "\<And>u. lock_step L u c = None" unfolding moves_def by (metis not_None_eq)
  with stuck_is_cycle assms(2,3) obtain u v where "holds_ads (lk_threads c u)" and "holds_store (lk_threads c v)"
    unfolding orderly_def by blast
  then obtain aid h ad b aid' where uv: "lk_threads c u = PubAds aid h ad" "lk_threads c v = AddStore b aid'"
    by (cases "lk_threads c u"; cases "lk_threads c v") auto
  with assms(2) have "allowed u (CallPublish aid)" "allowed v (CallAddChunk b aid')"
    by (auto simp: orderly_def calls_allowed_def)
  with assms(1) have "u = v" unfolding one_publisher_def by (metis calls_store.simps(1,2))
  with uv show False by simp
qed

text \<open>
  C23. With one thread that calls \<open>add_chunk\<close> and \<open>publish\<close> (the network service; any number of threads may
  create, announce and serve requests) the provider never deadlocks: under every schedule the calls in
  flight take at most \<open>work\<close> more steps, and when no thread can move all of them have been answered.
\<close>

theorem single_publisher_never_deadlocks:
  assumes "one_publisher s allowed" and "(lock_trans L allowed)\<^sup>*\<^sup>* (locked_new p) c"
  shows "(\<forall>n d. (moves L ^^ n) c d \<longrightarrow> n \<le> work c) \<and>
    (\<forall>d. (moves L)\<^sup>*\<^sup>* c d \<and> (\<nexists>e. moves L d e) \<longrightarrow>
       (\<forall>t. lk_threads d t = Idle) \<and>
       (\<forall>t call. thread_call (lk_threads c t) = Some call \<longrightarrow> answered t call d))"
proof -
  have c: "orderly allowed c" using reach_orderly [OF assms(2) orderly_new] .
  then have "n \<le> work c" if "(moves L ^^ n) c d" for n d
    using moves_bounded [OF that] by (simp add: orderly_def)
  moreover have idle: "lk_threads d t = Idle" if "(moves L)\<^sup>*\<^sup>* c d" and "\<nexists>e. moves L d e" for d t
    using one_publisher_moves [OF assms(1) moves_orderly [OF that(1) c]] that(2) by blast
  moreover have "answered t call d"
    if "(moves L)\<^sup>*\<^sup>* c d" and "\<nexists>e. moves L d e" and "thread_call (lk_threads c t) = Some call" for d t call
    using moves_answer [OF that(1,3)] idle [OF that(1,2), of t] by simp
  ultimately show ?thesis by blast
qed

text \<open>The cycle, once closed, is never left: no later call gets the guards it awaits.\<close>

definition lock_cycle :: "tid \<Rightarrow> tid \<Rightarrow> 's locked \<Rightarrow> bool" where
  "lock_cycle u v c \<longleftrightarrow> lock_inv c \<and> holds_ads (lk_threads c u) \<and> holds_store (lk_threads c v) \<and>
     (\<forall>(t, call, a) \<in> set (lk_log c). t \<noteq> u \<and> t \<noteq> v \<and> call \<noteq> CallHead)"

lemma cycle_locks:
  assumes "lock_cycle u v c"
  shows "lk_head c = Some u" and "lk_ads c = Some u" and "lk_store c = Some v"
  using assms ads_owner [of c u] by (auto simp: lock_cycle_def lock_inv_simps)

lemma cycle_step:
  assumes "lock_cycle u v c" and "lock_step L t c = Some d"
  shows "lock_cycle u v d \<and> lk_threads d u = lk_threads c u \<and> lk_threads d v = lk_threads c v"
proof -
  have inv: "lock_inv d" using assms lock_inv_step by (auto simp: lock_cycle_def)
  from assms(2) show ?thesis
  proof (cases rule: lock_stepE)
    case (once call)
    moreover from once cycle_locks [OF assms(1)] have "call \<noteq> CallHead" by auto
    moreover obtain a where "lk_log d = lk_log c @ [(t, call, a)]" using once(3) at_once_frame(2) by blast
    ultimately show ?thesis using assms(1) inv by (auto simp: lock_cycle_def at_once_frame)
  qed (use cycle_locks [OF assms(1)] lock_inv_simps(1) [of c t] assms(1) in \<open>auto simp: lock_cycle_def\<close>)
qed

lemma cycle_trans:
  "lock_trans L allowed c d \<Longrightarrow> lock_cycle u v c \<Longrightarrow>
   lock_cycle u v d \<and> lk_threads d u = lk_threads c u \<and> lk_threads d v = lk_threads c v"
proof (induction rule: lock_trans.induct)
  case (call_arrives c t call)
  then show ?case by (auto simp: lock_cycle_def call_arrives_inv)
qed (rule cycle_step)

lemma cycle_forever:
  "(lock_trans L allowed)\<^sup>*\<^sup>* c d \<Longrightarrow> lock_cycle u v c \<Longrightarrow>
   lock_cycle u v d \<and> lk_threads d u = lk_threads c u \<and> lk_threads d v = lk_threads c v"
proof (induction rule: rtranclp_induct)
  case (step d e)
  with cycle_trans show ?case by metis
qed simp

text \<open>The schedule that closes it: \<open>publish\<close> takes the head, \<open>add_chunk\<close> the store, \<open>publish\<close> the advertisements.\<close>

definition deadlocked :: "usize \<Rightarrow> bytes \<Rightarrow> usize \<Rightarrow> 's provider \<Rightarrow> advertisement \<Rightarrow> 's locked" where
  "deadlocked aid b aid' p ad =
     \<lparr>lk_prov = p\<lparr>head := None, temp_ads := (temp_ads p)(aid := None)\<rparr>,
      lk_head = Some 0, lk_ads = Some 0, lk_store = Some 1,
      lk_threads = (\<lambda>t. Idle)(0 := PubAds aid (head p) ad, 1 := AddStore b aid'), lk_log = []\<rparr>"

lemma deadlock_schedule:
  assumes "temp_ads p aid = Some ad" and "is_ok (entries_from_slice (pl_ann L) b)"
  shows "run_locks L [Arrive 0 (CallPublish aid), Arrive 1 (CallAddChunk b aid'), Move 0, Move 1, Move 0]
     (locked_new p) = Some (deadlocked aid b aid' p ad)"
  using assms by (simp add: locked_new_def lock_step_def ready_step_def deadlocked_def fun_upd_twist Let_def)

lemma deadlocked_cycle: "lock_cycle 0 1 (deadlocked aid b aid' p ad)"
  by (auto simp: lock_cycle_def deadlocked_def lock_inv_def owned_def)

text \<open>
  C36. Two threads that share a provider can deadlock it: with an advertisement under construction, one
  thread in \<open>publish\<close> and another in \<open>add_chunk\<close> reach a state in which each awaits the guard the other
  holds. From then on, whatever else happens, neither call returns, and no \<open>/head\<close> request is ever
  answered again.
\<close>

theorem two_publishers_deadlock:
  assumes "temp_ads p aid = Some ad" and "is_ok (entries_from_slice (pl_ann L) b)"
  shows "\<exists>c. (lock_trans L (\<lambda>t call. True))\<^sup>*\<^sup>* (locked_new p) c \<and>
    thread_call (lk_threads c 0) = Some (CallPublish aid) \<and>
    thread_call (lk_threads c 1) = Some (CallAddChunk b aid') \<and>
    (\<forall>d. (lock_trans L (\<lambda>t call. True))\<^sup>*\<^sup>* c d \<longrightarrow>
       \<not> answered 0 (CallPublish aid) d \<and> \<not> answered 1 (CallAddChunk b aid') d \<and>
       (\<forall>t. \<not> answered t CallHead d))"
proof (intro exI conjI allI impI)
  let ?c = "deadlocked aid b aid' p ad"
  show "(lock_trans L (\<lambda>t call. True))\<^sup>*\<^sup>* (locked_new p) ?c"
    using run_locks_reach [OF deadlock_schedule [OF assms]] by simp
  show "thread_call (lk_threads ?c 0) = Some (CallPublish aid)"
    and "thread_call (lk_threads ?c 1) = Some (CallAddChunk b aid')" by (simp_all add: deadlocked_def)
  fix d t
  assume "(lock_trans L (\<lambda>t call. True))\<^sup>*\<^sup>* ?c d"
  from cycle_forever [OF this deadlocked_cycle]
  show "\<not> answered 0 (CallPublish aid) d" and "\<not> answered 1 (CallAddChunk b aid') d" and "\<not> answered t CallHead d"
    by (auto simp: lock_cycle_def answered_def)
qed

section \<open>A concrete provider\<close>

definition plain_prov_libs :: "obj list prov_libs" where
  "plain_prov_libs = \<lparr>pl_cid = unary_cid_lib, pl_key = toy_key_lib, pl_ad = plain_ad_lib,
     pl_obj = list_obj_store, pl_ann = plain_announce_lib\<rparr>"

lemma plain_entries_ok [simp]: "is_ok (entries_from_slice (pl_ann plain_prov_libs) b)"
  by (simp add: plain_prov_libs_def plain_announce_lib_def)

lemma loaded_provider_ad [simp]: "temp_ads loaded_provider 1 = Some plain_ad"
  by (simp add: loaded_provider_def create_def plain_ad_def)

theorem two_publishers_deadlock_witness:
  "\<exists>c. (lock_trans plain_prov_libs (\<lambda>t call. True))\<^sup>*\<^sup>* (locked_new loaded_provider) c \<and>
    thread_call (lk_threads c 0) = Some (CallPublish 1) \<and>
    thread_call (lk_threads c 1) = Some (CallAddChunk [5] 1) \<and>
    {d. (lock_trans plain_prov_libs (\<lambda>t call. True))\<^sup>*\<^sup>* c d} \<subseteq>
      {d. \<not> answered 0 (CallPublish 1) d \<and> \<not> answered 1 (CallAddChunk [5] 1) d \<and> \<not> answered 2 CallHead d}"
  using two_publishers_deadlock [OF loaded_provider_ad plain_entries_ok, of "[5]" 1] by blast

text \<open>A \<open>publish\<close> and a \<open>GET /head\<close> that overlap: the request waits until the new head is there.\<close>

definition overlap :: "lock_event list" where
  "overlap = [Arrive 0 (CallPublish 1), Arrive 1 CallHead, Move 0]"

definition overlap_end :: "lock_event list" where
  "overlap_end = [Move 0, Move 0, Move 1]"

definition half_published :: "obj list locked" where
  "half_published =
     \<lparr>lk_prov = loaded_provider, lk_head = Some 0, lk_ads = None, lk_store = None,
      lk_threads = (\<lambda>t. Idle)(0 := PubHead 1 None, 1 := Ready CallHead), lk_log = []\<rparr>"

lemma loaded_provider_head [simp]: "head loaded_provider = None"
  by (simp add: loaded_provider_def create_def fresh_provider_def provider_new_def)

lemma loaded_provider_no_head [simp]: "loaded_provider\<lparr>head := None\<rparr> = loaded_provider"
  using loaded_provider_head by simp

lemma run_overlap: "run_locks plain_prov_libs overlap (locked_new loaded_provider) = Some half_published"
  by (simp add: overlap_def locked_new_def lock_step_def ready_step_def half_published_def fun_upd_twist)

lemma half_published_blocks_head: "lock_step plain_prov_libs 1 half_published = None"
  by (simp add: half_published_def lock_step_def ready_step_def)

lemma run_overlap_end:
  "\<exists>d. run_locks plain_prov_libs overlap_end half_published = Some d \<and> (\<forall>t. lk_threads d t = Idle) \<and>
     lk_head d = None \<and> map (fst \<circ> snd) (lk_log d) = [CallPublish 1, CallHead]"
  by (simp add: overlap_end_def half_published_def lock_step_def ready_step_def at_once_def Let_def split: prod.split)

lemma overlap_reach:
  assumes "allowed 0 (CallPublish 1)" and "allowed 1 CallHead"
  shows "(lock_trans plain_prov_libs allowed)\<^sup>*\<^sup>* (locked_new loaded_provider) half_published"
  by (rule run_locks_reach [OF run_overlap]) (use assms in \<open>auto simp: overlap_def\<close>)

lemma overlap_end_moves:
  assumes "run_locks plain_prov_libs overlap_end half_published = Some d"
  shows "(moves plain_prov_libs ^^ 3) half_published d"
  using assms unfolding overlap_end_def numeral_3_eq_3
  by (auto simp: moves_def relcompp_apply split: option.splits)

theorem locked_provider_linearizable_witness:
  "\<exists>d. (lock_trans plain_prov_libs (\<lambda>t call. True))\<^sup>*\<^sup>* (locked_new loaded_provider) d \<and>
     in_sequence plain_prov_libs [CallPublish 1, CallHead] loaded_provider = (map (snd \<circ> snd) (lk_log d), lk_prov d)"
proof -
  obtain d where d: "run_locks plain_prov_libs overlap_end half_published = Some d"
    "lk_head d = None" "map (fst \<circ> snd) (lk_log d) = [CallPublish 1, CallHead]" using run_overlap_end by (elim exE conjE)
  have "(lock_trans plain_prov_libs (\<lambda>t call. True))\<^sup>*\<^sup>* (locked_new loaded_provider) d"
    by (rule rtranclp_trans [OF overlap_reach run_locks_reach [OF d(1)]]) simp_all
  with locked_provider_linearizable [OF this] d(2,3) show ?thesis by auto
qed

theorem single_publisher_never_deadlocks_witness:
  "\<exists>d. (moves plain_prov_libs)\<^sup>*\<^sup>* half_published d \<and> (\<forall>t. lk_threads d t = Idle) \<and>
     answered 0 (CallPublish 1) d \<and> answered 1 CallHead d \<and> 3 \<le> work half_published"
proof -
  let ?allowed = "\<lambda>t call. calls_store call \<longrightarrow> t = (0 :: tid)"
  obtain d where d: "run_locks plain_prov_libs overlap_end half_published = Some d" "\<forall>t. lk_threads d t = Idle"
    using run_overlap_end by (elim exE conjE)
  have "one_publisher 0 ?allowed" by (simp add: one_publisher_def)
  moreover have "(lock_trans plain_prov_libs ?allowed)\<^sup>*\<^sup>* (locked_new loaded_provider) half_published"
    by (rule overlap_reach) simp_all
  ultimately have all: "(\<forall>n d. (moves plain_prov_libs ^^ n) half_published d \<longrightarrow> n \<le> work half_published) \<and>
    (\<forall>d. (moves plain_prov_libs)\<^sup>*\<^sup>* half_published d \<and> (\<nexists>e. moves plain_prov_libs d e) \<longrightarrow>
       (\<forall>t. lk_threads d t = Idle) \<and>
       (\<forall>t call. thread_call (lk_threads half_published t) = Some call \<longrightarrow> answered t call d))"
    by (rule single_publisher_never_deadlocks)
  have m: "(moves plain_prov_libs ^^ 3) half_published d" by (rule overlap_end_moves [OF d(1)])
  then have "(moves plain_prov_libs)\<^sup>*\<^sup>* half_published d" by (rule relpowp_imp_rtranclp)
  moreover have "\<nexists>e. moves plain_prov_libs d e" using d(2) by (simp add: moves_def lock_step_def)
  moreover have "thread_call (lk_threads half_published 0) = Some (CallPublish 1)"
    "thread_call (lk_threads half_published 1) = Some CallHead" by (simp_all add: half_published_def)
  ultimately show ?thesis using all m by blast
qed

end
