(* ===== verification/Served_Heads.thy ===== *)
theory Served_Heads
  imports Provider_Locks
begin

text \<open>
  What an indexer sees of a provider that is published to at the same time. The provider's HTTP server answers
  \<open>/head\<close> while the network service adds chunks and publishes (\<open>crates/ursa-index-provider/src/provider.rs\<close>);
  an indexer follows the links from the head it was given some time later. The chain below every head that
  was ever served stays in the store, complete and unchanged in its order, whatever calls came in between,
  also failing ones. The invariant is proved once for the sequential provider and carried over by the
  simulation of \<open>Provider_Locks\<close>.
\<close>

section \<open>What every call keeps\<close>

definition prov_good :: "'s prov_libs \<Rightarrow> bool" where
  "prov_good L \<longleftrightarrow> cid_lib_ok (pl_cid L) \<and> key_lib_ok (pl_key L) \<and> ad_lib_ok (pl_ad L) \<and> obj_store_ok (pl_obj L)"

abbreviation stored :: "'s prov_libs \<Rightarrow> 's provider \<Rightarrow> cid \<Rightarrow> obj option" where
  "stored L p \<equiv> get_obj (pl_obj L) (blockstore p)"

definition chained :: "'s prov_libs \<Rightarrow> keypair \<Rightarrow> 's provider \<Rightarrow> bool" where
  "chained L kp p \<longleftrightarrow> prov_keypair p = kp \<and> (\<exists>adss. published (pl_ad L) (pl_obj L) p adss) \<and>
     (\<forall>aid. temp_ads p aid \<noteq> None \<longrightarrow> (\<exists>ess. pending (pl_obj L) p aid ess))"

lemma chained_new: "chained L kp (provider_new kp bs config)"
  by (auto simp: chained_def provider_new_def published_def)

lemma map_le_Some: "m \<subseteq>\<^sub>m m' \<Longrightarrow> m x = Some v \<Longrightarrow> m' x = Some v"
  by (auto simp: map_le_def dom_def)

lemma chained_pending: "chained L kp p \<Longrightarrow> temp_ads p aid = Some ad \<Longrightarrow> \<exists>ess. pending (pl_obj L) p aid ess"
  by (simp add: chained_def)

lemma chained_untouched:
  assumes "chained L kp p" and "stored L p \<subseteq>\<^sub>m stored L p'" and "temp_ads p' x = temp_ads p x" and "temp_ads p' x \<noteq> None"
  shows "\<exists>ess. pending (pl_obj L) p' x ess"
proof -
  obtain ess where "pending (pl_obj L) p x ess" using assms chained_pending by (metis not_None_eq)
  with assms(2,3) have "pending (pl_obj L) p' x ess"
    by (auto simp: pending_def intro: entry_chain_mono dest: map_le_Some)
  then show ?thesis ..
qed

lemma put_obj_grows: "obj_store_ok os \<Longrightarrow> put_obj os s v = Ok (c, s') \<Longrightarrow> get_obj os s \<subseteq>\<^sub>m get_obj os s'"
  by (auto simp: map_le_def dest: put_obj_keeps)

lemma add_chunk_chained:
  assumes "prov_good L" and "chained L kp p" and "add_chunk (pl_cid L) (pl_obj L) (pl_ann L) b aid p = (r, p')"
  shows "chained L kp p'" and "stored L p \<subseteq>\<^sub>m stored L p'"
proof -
  have "p' = p \<or> r = Ok ()"
    using assms(1,3) by (auto simp: add_chunk_def prov_good_def split: outcome.splits option.splits)
  then have "chained L kp p' \<and> stored L p \<subseteq>\<^sub>m stored L p'"
  proof
    assume "r = Ok ()"
    with assms(3) have ok: "add_chunk (pl_cid L) (pl_obj L) (pl_ann L) b aid p = (Ok (), p')" by simp
    then obtain es ad c bs l where es: "entries_from_slice (pl_ann L) b = Ok es" and ad: "temp_ads p aid = Some ad"
      and put: "put_obj (pl_obj L) (blockstore p) (ObjChunk (entry_chunk_new es (Entries ad))) = Ok (c, bs)"
      and p': "p' = p\<lparr>blockstore := bs, temp_ads := (temp_ads p)(aid \<mapsto> ad\<lparr>Entries := Some (IpldLink l)\<rparr>)\<rparr>"
      by (elim add_chunk_OkE) blast
    have grows: "stored L p \<subseteq>\<^sub>m stored L p'"
      using put_obj_grows [OF _ put] assms(1) by (simp add: prov_good_def p')
    obtain adss ess where "published (pl_ad L) (pl_obj L) p adss" and "pending (pl_obj L) p aid ess"
      using assms(2) ad by (auto simp: chained_def)
    with ok es have "published (pl_ad L) (pl_obj L) p' adss" and "pending (pl_obj L) p' aid (es # ess)"
      using assms(1) prov.add_publ prov.add_pend unfolding prov_good_def by blast+
    moreover have "\<exists>ess. pending (pl_obj L) p' x ess" if "temp_ads p' x \<noteq> None" "x \<noteq> aid" for x
      using that by (intro chained_untouched [OF assms(2) grows]) (simp_all add: p')
    ultimately show ?thesis using assms(2) grows p' unfolding chained_def by auto
  qed (use assms(2) in simp)
  then show "chained L kp p'" and "stored L p \<subseteq>\<^sub>m stored L p'" by simp_all
qed

lemma publish_chained:
  assumes "prov_good L" and "chained L kp p" and "publish (pl_cid L) (pl_ad L) (pl_obj L) aid p = (r, p')"
  shows "chained L kp p'" and "stored L p \<subseteq>\<^sub>m stored L p'"
proof -
  have "chained L kp p' \<and> stored L p \<subseteq>\<^sub>m stored L p'"
  proof (cases "r = Ok ()")
    case True
    with assms(3) have ok: "publish (pl_cid L) (pl_ad L) (pl_obj L) aid p = (Ok (), p')" by simp
    then obtain ad i c bs where ad: "temp_ads p aid = Some ad"
      and put: "put_obj (pl_obj L) (blockstore p) (ObjIpld i) = Ok (c, bs)"
      and p': "p' = p\<lparr>head := Some c, blockstore := bs, temp_ads := (temp_ads p)(aid := None)\<rparr>"
      using assms(1) by (auto simp: prov_good_def elim: publish_OkE)
    have grows: "stored L p \<subseteq>\<^sub>m stored L p'"
      using put_obj_grows [OF _ put] assms(1) by (simp add: prov_good_def p')
    obtain adss ess where "published (pl_ad L) (pl_obj L) p adss" and "pending (pl_obj L) p aid ess"
      using assms(2) ad by (auto simp: chained_def)
    with ok have "published (pl_ad L) (pl_obj L) p' (ess # adss)"
      using assms(1) prov.publish_publ unfolding prov_good_def by blast
    moreover have "\<exists>ess. pending (pl_obj L) p' x ess" if "temp_ads p' x \<noteq> None" for x
      using that by (intro chained_untouched [OF assms(2) grows]) (auto simp: p' split: if_splits)
    ultimately show ?thesis using assms(2) grows p' unfolding chained_def by auto
  next
    case False
    with assms(3) have "p' = p\<lparr>head := None, temp_ads := temp_ads p'\<rparr>" "temp_ads p' \<subseteq>\<^sub>m temp_ads p"
      by (auto simp: publish_def Let_def map_le_def split: outcome.splits option.splits if_splits)
    then show ?thesis using assms(2)
      by (cases p') (force simp: chained_def published_def pending_def map_le_def dom_def)
  qed
  then show "chained L kp p'" and "stored L p \<subseteq>\<^sub>m stored L p'" by simp_all
qed

lemma prov_do_chained:
  assumes "prov_good L" and "chained L kp p" and "prov_do L call p = (a, p')"
  shows "chained L kp p'" and "stored L p \<subseteq>\<^sub>m stored L p'"
proof -
  have "chained L kp p' \<and> stored L p \<subseteq>\<^sub>m stored L p'"
  proof (cases call)
    case (CallCreate aid ad)
    with assms(3) have p': "p' = snd (create aid ad p)" by (auto simp: create_def)
    have "\<exists>ess. pending (pl_obj L) p' x ess" if "temp_ads p' x \<noteq> None" for x
    proof (cases "x = aid")
      case True
      with p' prov.create_pend show ?thesis by blast
    qed (use that p' in \<open>auto simp: create_def intro: chained_untouched [OF assms(2)]\<close>)
    with assms(2) p' show ?thesis by (auto simp: chained_def create_def published_def)
  next
    case (CallAddChunk b aid)
    with assms(3) add_chunk_chained [OF assms(1,2)] show ?thesis by (auto simp: map_prod_def split: prod.splits)
  next
    case (CallPublish aid)
    with assms(3) publish_chained [OF assms(1,2)] show ?thesis by (auto simp: map_prod_def split: prod.splits)
  qed (use assms(2,3) in auto)
  then show "chained L kp p'" and "stored L p \<subseteq>\<^sub>m stored L p'" by simp_all
qed

section \<open>Heads that were served\<close>

definition readable :: "'s prov_libs \<Rightarrow> keypair \<Rightarrow> 's provider \<Rightarrow> signed_head \<Rightarrow> bool" where
  "readable L kp p sh \<longleftrightarrow>
     (\<exists>c adss. signed_head_open (pl_cid L) (pl_key L) sh = Ok (key_public (pl_key L) kp, c) \<and>
        ad_chain (pl_ad L) (stored L p) (Some c) adss)"

definition serves :: "'s prov_libs \<Rightarrow> keypair \<Rightarrow> 's sequential \<Rightarrow> bool" where
  "serves L kp q \<longleftrightarrow> chained L kp (sq_prov q) \<and>
     (\<forall>t sh. (t, CallHead, AnsHead (Ok sh)) \<in> set (sq_log q) \<longrightarrow> readable L kp (sq_prov q) sh)"

lemma readable_grows: "readable L kp p sh \<Longrightarrow> stored L p \<subseteq>\<^sub>m stored L p' \<Longrightarrow> readable L kp p' sh"
  unfolding readable_def by (blast intro: ad_chain_mono map_le_Some)

lemma head_handler_readable:
  assumes "prov_good L" and "chained L kp p" and "head_handler (pl_cid L) (pl_key L) p = Ok sh"
  shows "readable L kp p sh"
proof -
  from assms(3) obtain c where c: "head p = Some c" "signed_head_new (pl_cid L) (pl_key L) (prov_keypair p) c = Ok sh"
    by (auto simp: head_handler_def outcome_simps split: option.splits)
  from assms(2) obtain adss where "ad_chain (pl_ad L) (stored L p) (Some c) adss" and "prov_keypair p = kp"
    by (auto simp: chained_def published_def c(1))
  with c(2) assms(1) show ?thesis
    by (auto simp: readable_def prov_good_def intro: signed_head_new_open)
qed

lemma seq_trans_serves:
  assumes "prov_good L" and "seq_trans L allowed q q'" and "serves L kp q"
  shows "serves L kp q'"
  using assms(2,3)
proof (induction rule: seq_trans.induct)
  case (seq_do q t call a p)
  then have chained: "chained L kp (sq_prov q)" by (simp add: serves_def)
  note kept = prov_do_chained [OF assms(1) chained seq_do(2)]
  have "readable L kp p sh" if "call = CallHead" "a = AnsHead (Ok sh)" for sh
    using that seq_do(2) head_handler_readable [OF assms(1) chained] by auto
  with seq_do kept show ?case by (auto simp: serves_def intro: readable_grows)
qed (simp add: serves_def)

text \<open>
  C11. A head that was served stays readable: a signed head that a provider built by \<open>Provider::new\<close> has
  given to any \<open>/head\<close> request opens under the public key of the node, and from its CID the links lead
  through a complete chain of advertisements, each with its complete chain of entry chunks, in the block
  store as it is now, whatever calls of whatever threads were interleaved since and are still under way.
\<close>

theorem served_heads_stay_readable:
  assumes "prov_good L" and "(lock_trans L allowed)\<^sup>*\<^sup>* (locked_new (provider_new kp bs config)) c"
    and "(t, CallHead, AnsHead (Ok sh)) \<in> set (lk_log c)"
  shows "\<exists>h adss. signed_head_open (pl_cid L) (pl_key L) sh = Ok (key_public (pl_key L) kp, h) \<and>
    ad_chain (pl_ad L) (get_obj (pl_obj L) (blockstore (lk_prov c))) (Some h) adss"
proof -
  have "serves L kp (lock_view (locked_new (provider_new kp bs config)))"
    by (simp add: serves_def lock_view_new chained_new)
  with locks.transfer_inv [OF assms(2) lock_inv_new, where P = "serves L kp"] seq_trans_serves [OF assms(1)]
  have "serves L kp (lock_view c)" by blast
  with assms(3) have "readable L kp (restore c (lk_prov c)) sh" by (auto simp: serves_def lock_view_def)
  then show ?thesis by (simp add: readable_def blockstore_restore)
qed

text \<open>An advertisement is published, its head served, and the next \<open>publish\<close> has just taken the head out.\<close>

definition publish_then_head :: "lock_event list" where
  "publish_then_head =
     [Arrive 0 (CallCreate 1 plain_ad), Move 0, Arrive 0 (CallPublish 1), Arrive 1 CallHead,
      Move 0, Move 0, Move 0, Move 1, Arrive 0 (CallPublish 2), Move 0]"

lemma plain_libs_good: "prov_good plain_prov_libs"
  by (simp add: prov_good_def plain_prov_libs_def)

lemma run_publish_then_head:
  "\<exists>c sh. run_locks plain_prov_libs publish_then_head (locked_new fresh_provider) = Some c \<and>
     (1, CallHead, AnsHead (Ok sh)) \<in> set (lk_log c) \<and> lk_head c = Some 0"
  by (simp add: publish_then_head_def locked_new_def lock_step_def ready_step_def at_once_def
      fresh_provider_def provider_new_def create_def plain_ad_def publish_put_def sign_def sig_payload_def
      link_bytes_def plain_prov_libs_def plain_ad_lib_def list_obj_store_def head_handler_def
      signed_head_new_def toy_key_lib_def Let_def)

theorem served_heads_stay_readable_witness:
  "\<exists>c sh h adss. run_locks plain_prov_libs publish_then_head (locked_new fresh_provider) = Some c \<and>
     (1, CallHead, AnsHead (Ok sh)) \<in> set (lk_log c) \<and> head (lk_prov c) = None \<and>
     signed_head_open unary_cid_lib toy_key_lib sh = Ok (PublicKey 3, h) \<and>
     ad_chain plain_ad_lib (get_obj list_obj_store (blockstore (lk_prov c))) (Some h) adss"
proof -
  obtain c sh where c: "run_locks plain_prov_libs publish_then_head (locked_new fresh_provider) = Some c"
    and sh: "(1, CallHead, AnsHead (Ok sh)) \<in> set (lk_log c)" and h: "lk_head c = Some 0"
    using run_publish_then_head by blast
  have r: "(lock_trans plain_prov_libs (\<lambda>t call. True))\<^sup>*\<^sup>* (locked_new fresh_provider) c"
    by (rule run_locks_reach [OF c]) simp
  then have "head (lk_prov c) = None"
    using locks.steps_inv [OF _ lock_inv_new] h lock_inv_simps(4) by blast
  with c sh served_heads_stay_readable [OF plain_libs_good r [unfolded fresh_provider_def] sh] show ?thesis
    by (auto simp: plain_prov_libs_def toy_key_lib_def)
qed

end
