(* ===== verification/Spec2Isabelle.thy ===== *)
theory Spec2Isabelle
  imports Store Signed_Head Advertisement Index_Provider Metrics Codec Libp2p Discovery Network_Config
    Channels Behaviour Service Service_Waiters Service_Publish Files Identity Addresses Servers Node_Interface Node_System
    Node_Refinement Node_Progress Transport Service_Safety Node_Safety Rpc_Server Rpc_Client
    Startup Shutdown Simulation Provider_Locks Served_Heads
begin

text \<open>
  \<^bold>\<open>Ursa: a verification development of the content delivery node\<close>

  Ursa is a libp2p node that stores IPLD blocks, exchanges them with peers over bitswap, and
  advertises the blocks it holds to network indexers. The repository is a Cargo workspace,
  \<open>src/crates/\<close>; this development models its own logic and takes every third-party crate (libp2p,
  libp2p-bitswap, cid, forest, serde, rocksdb, axum, metrics) as parameters, records of functions
  whose documented behaviour is stated as named predicates (\<open>cid_lib_ok\<close>, \<open>kvdb_ok\<close>,
  \<open>obj_store_ok\<close>, \<open>gossip_lib_ok\<close>, \<open>bitswap_ids_fresh\<close>, \<open>pem_lib_ok\<close>, \<open>fs_ok\<close>, \<open>car_lib_ok\<close>, ...). Each predicate has an instance on a
  concrete function, used by the witnesses.

  \<^bold>\<open>How the parts interact.\<close> \<open>main\<close> (\<open>ursa/src/main.rs\<close>) reads or creates the configuration, loads the key
  pair of the node (\<open>ursa/src/ursa/identity.rs\<close>) and starts the network service, the index provider and
  three HTTP servers, then waits for an interrupt. A client (\<open>ursa-rpc-client\<close>, or any HTTP client) talks to the front ends of
  \<open>ursa-rpc-server\<close>, which call the node interface (\<open>api.rs\<close>); this reads the shared store and, for what is
  not there, sends \<open>UrsaCommand\<close>s to the network service (\<open>ursa-network/src/service.rs\<close>) and waits for the
  answer on a one-shot channel. The service owns the swarm, whose behaviour
  (\<open>behaviour.rs\<close>) combines libp2p sub-behaviours with peer discovery (\<open>discovery.rs\<close>) and
  the request/response codec (\<open>codec/protocol.rs\<close>), and hands \<open>BehaviourEvent\<close>s back in order. A block
  request registers a one-shot channel and starts a bitswap query; the completed query is reported
  by the behaviour and answered by the service after it finds the block in the store
  (\<open>ursa-store/src/store.rs\<close>). An index command queues a root; when the node knows its public
  address, the service walks the stored DAG below each queued root and hands its multihashes to
  the index provider (\<open>ursa-index-provider/src/\<close>), which chains signed advertisements and serves them
  over HTTP. Events are counted by \<open>ursa-metrics\<close>.

  \<^bold>\<open>Theories.\<close>
  \<^item> \<open>Ursa_Prelude\<close>: bytes, identifiers, multiaddresses, the outcome of a Rust call (\<open>Ok\<close>, \<open>Err\<close> or a
    panic), the errors built with \<open>anyhow!\<close>, \<open>convert_cid\<close> (\<open>ursa-utils/src/lib.rs\<close>).
  \<^item> \<open>Store\<close>: \<open>BitswapStorage\<close> and \<open>Store::dag_traversal\<close>. \<open>missing_blocks\<close> and \<open>dag_traversal\<close> are loops
    over a stack and over a hash set whose iteration order is a parameter; both are shown equal to
    reachability in the link graph, and to agree with each other. Interface \<open>bitswap_store\<close>.
  \<^item> \<open>Signed_Head\<close>, \<open>Advertisement\<close>, \<open>Index_Provider\<close>: signed heads and their JSON form, advertisements
    and their signature payload, and the provider's state with \<open>create\<close>, \<open>add_chunk\<close>, \<open>publish\<close>, the
    announcement and the HTTP handlers. The chain of advertisements is specified inductively
    (\<open>ad_chain\<close>, \<open>entry_chain\<close>). Interface \<open>ad_publisher\<close>.
  \<^item> \<open>Provider_Locks\<close>: the same methods guard by guard, run by threads that share a provider (\<open>lock_trans\<close>). They are
    linearizable; with one publishing thread they always return, with two they can deadlock. \<open>Served_Heads\<close>: a head
    that was served leads to a complete chain for ever after.
  \<^item> \<open>Simulation\<close>: the interface \<open>simulation\<close> of a refinement, interpreted by \<open>Provider_Locks\<close> and \<open>Node_Refinement\<close>.
  \<^item> \<open>Metrics\<close>: metric names, \<open>track\<close> as the recorder calls it makes, the HTTP middleware.
  \<^item> \<open>Codec\<close>: UTF-8 validation and the four operations of \<open>UrsaExchangeCodec\<close>.
  \<^item> \<open>Libp2p\<close>: the operations of the libp2p crates the node calls, over an abstract state.
  \<^item> \<open>Discovery\<close>: \<open>DiscoveryBehaviour\<close>: connected peers, queued events, bootstrapping, polling.
    Interface \<open>event_source\<close> (a queue that is delivered in order).
  \<^item> \<open>Network_Config\<close>: \<open>NetworkConfig\<close> and the gossipsub parameters. \<open>Transport\<close>: the layers \<open>transport.rs\<close>
    stacks, as a description of the stack, and the settings of the swarm.
  \<^item> \<open>Channels\<close>: the interface \<open>waiter_table\<close> of a table of waiting one-shot channels.
  \<^item> \<open>Behaviour\<close>: \<open>Behaviour\<close>: every call of the service and every \<open>handle_\<close> function. Its event queue
    interprets \<open>event_source\<close>, its pending responses interpret \<open>waiter_table\<close>, and an invariant
    relates running, completed and reported bitswap queries.
  \<^item> \<open>Service\<close>: the service loop, one definition per arm; \<open>Service_Waiters\<close>: the waiting channels
    (interface \<open>waiter_table\<close>), the step relation \<open>svc_reach\<close> and its invariant; \<open>Service_Publish\<close>: the
    publication of queued roots, which joins \<open>Store\<close> and \<open>Index_Provider\<close>; \<open>Service_Safety\<close>: every outcome
    a step and the loop \<open>service_start\<close> can have, through all the \<open>unwrap\<close> and \<open>expect\<close> calls of the handlers.
  \<^item> \<open>Files\<close>, \<open>Identity\<close>: paths and files; the PEM form of a key pair, saving and loading it, and the identity
    manager. A round trip through the file system, and which names share a file.
  \<^item> \<open>Node_Interface\<close>: the operations of \<open>NodeNetworkInterface\<close>, each up to the command it sends and from
    the answer on. \<open>Node_System\<close>: the node, which is the service with its command queue, the shared store
    and the waiting calls, as the step relation \<open>node_reach\<close> with its invariant. \<open>Node_Refinement\<close>: an
    abstract content store (\<open>spec_step\<close>: blocks, open calls, truthful answers) and a simulation of every
    step of the node. \<open>Node_Progress\<close>: where every waiting call is. \<open>Node_Safety\<close>: why the
    service of a node ends.
  \<^item> \<open>Rpc_Server\<close>: the JSON-RPC methods, the HTTP handlers and the dispatch between the two. Interface
    \<open>network_interface\<close>, what the handlers rely on, interpreted on the answers of the node. \<open>Rpc_Client\<close>:
    \<open>call\<close> and the functions of the client, joined with the server.
  \<^item> \<open>Addresses\<close>: numbers, IPv4 and socket addresses in text, at the width of the result. \<open>Servers\<close>: the
    metrics server, the server of the index provider and the gateway, as what they bind and route.
  \<^item> \<open>Startup\<close>: configuration file, command line and \<open>main\<close>, up to the running node. \<open>Shutdown\<close>: waiting for an
    interrupt, the end of \<open>main\<close> and the build script.
  \<^item> This theory: properties that span components.

  \<^bold>\<open>State and effects.\<close> A Rust method is a function from the state record to its outcome and the new
  record. What is sent on channels, to the metrics recorder or over HTTP is a list in the state,
  in the order of the calls. Log output is not modelled. Lock-protected fields are plain fields
  and a method of the provider is one function; \<open>Provider_Locks\<close> shows that this is what callers see of the
  guards the methods really take. The store is changed by other tasks, so a handler that reads it repeatedly takes the
  sequence of states it finds.

  An asynchronous operation that waits for the service is a \<open>task\<close>: a result, or a command with the
  continuation that takes the answer. A run of the node, in which other calls, events and changes of
  the store come in between, is a sequence of \<open>node_op\<close>s; the store may only gain blocks
  (\<open>stores_grow\<close>), since no code removes one.

  \<^bold>\<open>Loops.\<close> \<open>missing_loop\<close>, \<open>dag_loop\<close>, \<open>kad_poll_loop\<close>, \<open>mdns_poll_loop\<close>, \<open>wait_block\<close>, \<open>publish_loop\<close>,
  \<open>service_start\<close> and \<open>poll_running\<close> are partial functions into \<open>option\<close>: \<open>None\<close> is a loop that does not end. No fuel
  is used. For each loop that is meant to end there is a theorem that it returns, under a hypothesis
  that the code needs (an acyclic or finite link graph, a library that stops producing events, a
  block that arrives, an interrupt); for \<open>wait_block\<close> and \<open>poll_running\<close> it is also shown that they do not return
  without that. \<open>service_start\<close> is meant to run for ever; the lemmas say from which rounds it returns.

  \<^bold>\<open>Not modelled.\<close> The layers of the transport below the choice of the stack, binding sockets and
  serving, the axum and JSON-RPC routers (parameters), the argument parser that \<open>structopt\<close> derives, the
  code generated by \<open>derive(NetworkBehaviour)\<close> (its events arrive in any order), what the operating
  system does to a cancelled task, log output, and tests: these are third-party or generated code and
  input/output without logic of the repository's own.
\<close>

section \<open>From construction to every reachable state\<close>

text \<open>
  C4. From construction on, no block request is stranded: in every state that a service built by
  \<open>UrsaService::new\<close> reaches, each CID with waiting channels has a running bitswap query or a queued
  completion event, and no query number is both running and completed.
\<close>

theorem service_never_strands:
  assumes "service_new pl gl mk (l_net L) peer_of kp config provider = Ok s0"
    and "bitswap_ids_fresh (l_net L) issued" and "svc_reach L s0 s"
  shows "(\<forall>c chans. response_channels s c = Some chans \<longrightarrow> chans \<noteq> [] \<and> awaited c (swarm s)) \<and>
    (\<forall>info. Bitswap info \<in> set (beh_events (swarm s)) \<longrightarrow> queries (swarm s) (info_query_id info) = None)"
proof -
  have inv: "svc_inv issued s"
    using svc_reach_inv [OF assms(3,2)] service_new_inv [OF assms(1)] by blast
  then obtain ended where q: "queries_ok issued ended (swarm s)" by (auto simp: svc_inv_def)
  have "info_query_id info \<in> set (query_ids es)" if "Bitswap info \<in> set es" for info es
    using that by (induction es) auto
  with q have "\<forall>info. Bitswap info \<in> set (beh_events (swarm s)) \<longrightarrow> queries (swarm s) (info_query_id info) = None"
    by (simp add: queries_ok_def)
  with inv show ?thesis by (auto simp: svc_inv_def)
qed

text \<open>A peer connects, then a block is requested: the request waits for it.\<close>

lemma connect_then_get:
  fixes L :: "('w, 's, 'p) libs"
  assumes "cid_lib_ok (l_cid L)" and "response_channels s0 = Map.empty"
  shows "\<exists>s. svc_reach L s0 s \<and> response_channels s c = Some [ch]"
proof -
  let ?op = "OpDisc (ConnEstablished p 0 0 None 0) :: ('w, 's) svc_op"
  obtain s1 where s1: "svc_do L ?op s0 = Some (Ok (), s1)"
    by (simp add: case_prod_beta)
  then have "response_channels s1 = Map.empty" "peers (swarm s1) \<noteq> {}"
    using assms(2) by (auto simp: inject_connection_established_def peers_def split: if_splits)
  then have "fst (handle_command L (GetBitswap c Get ch) s1) = Ok ()"
    "response_channels (snd (handle_command L (GetBitswap c Get ch) s1)) c = Some [ch]"
    using assms(1) by (simp_all add: handle_command_def on_get_bitswap_def get_block_def case_prod_beta Let_def)
  moreover have "svc_do L (OpCommand (GetBitswap c Get ch)) s1 = Some (handle_command L (GetBitswap c Get ch) s1)"
    by simp
  ultimately show ?thesis
    using reach_op [OF reach_op [OF reach_init s1], of "OpCommand (GetBitswap c Get ch)"]
    by (metis prod.collapse)
qed

theorem service_never_strands_witness:
  "\<exists>s0 s. service_new plain_peer_lib checking_gossip_lib (\<lambda>g. g) counter_libp2p (\<lambda>k. PeerId 0) (Ed25519 3)
     demo_config fresh_provider = Ok s0 \<and> svc_reach demo_libs s0 s \<and>
     response_channels s (Cid 4) = Some [41] \<and> awaited (Cid 4) (swarm s)"
proof -
  obtain s0 where s0: "service_new plain_peer_lib checking_gossip_lib (\<lambda>g. g) (l_net demo_libs)
      (\<lambda>k. PeerId 0) (Ed25519 3) demo_config fresh_provider = Ok s0"
    using demo_service_new by auto
  obtain s where s: "svc_reach demo_libs s0 s" "response_channels s (Cid 4) = Some [41]"
    using connect_then_get [of demo_libs s0] service_new_Ok(3) [OF s0] by auto
  show ?thesis
    using s0 s service_never_strands [where issued = "\<lambda>w. {..<w}", OF s0 _ s(1)] by auto
qed

section \<open>From an upload to the indexer\<close>

text \<open>A root indexed before the node knows its public address is published once it does.\<close>

lemma index_then_public:
  assumes libs: "publish_libs_ok L" "libs_answer L" "kvdb_ok (l_cid L) (l_kv L) tbl"
    and s: "public_address (l_net L) (swarm s) = None" "beh_events (swarm s) = []"
    and p: "root_cids (index_provider s) = []" "ads_typed (index_provider s)"
      "published (l_ad L) (l_obj L) (index_provider s) adss"
    and st: "\<And>i. store_sound L (st i)" "\<And>i. dag_walkable L tbl (st i) root" "\<And>i. dag_stored L tbl (st i) root"
  shows "\<exists>s1 s2 s3 s4 ess.
    svc_do L (OpCommand (Index (root # cids) ch)) s = Some (Ok (), s1) \<and>
    index_replies s1 = index_replies s @ [(ch, Ok (root # cids))] \<and>
    svc_do L (OpSub (InAutonat (StatusChanged old (NatPublic a)))) s1 = Some (Ok (), s2) \<and>
    svc_do L (OpEvent st aid rng (NatStatusChanged old (NatPublic a))) s2 = Some (Ok (), s3) \<and>
    svc_do L (OpEvent st aid rng (StartPublish a)) s3 = Some (Ok (), s4) \<and>
    published (l_ad L) (l_obj L) (index_provider s4) (ess # adss) \<and> advertises L tbl (st 0) root ess \<and>
    prov_keypair (index_provider s4) = prov_keypair (index_provider s)"
proof -
  define s1 where "s1 = set_roots [root] s\<lparr>index_replies := index_replies s @ [(ch, Ok (root # cids))]\<rparr>"
  define s2 where "s2 = s1\<lparr>swarm := push_event (NatStatusChanged old (NatPublic a)) (swarm s)\<rparr>"
  define s3 where "s3 = s1\<lparr>swarm := push_event (StartPublish a) ((swarm s)\<lparr>beh_events := []\<rparr>)\<rparr>"
  let ?t = "s1\<lparr>swarm := (swarm s)\<lparr>beh_events := []\<rparr>\<rparr>"
  have d1: "svc_do L (OpCommand (Index (root # cids) ch)) s = Some (Ok (), s1)"
    using s(1) p(1) by (simp add: s1_def handle_command_def on_index_def set_roots_def)
  have d2: "svc_do L (OpSub (InAutonat (StatusChanged old (NatPublic a)))) s1 = Some (Ok (), s2)"
    by (simp add: s2_def s1_def handle_autonat_def set_roots_def)
  have e2: "beh_events (swarm s2) = [NatStatusChanged old (NatPublic a)]" using s(2) by (simp add: s2_def push_event_def)
  have d3: "svc_do L (OpEvent st aid rng (NatStatusChanged old (NatPublic a))) s2 = Some (Ok (), s3)"
    by (subst svc_do_delivers [OF e2], cases old)
      (simp_all add: handle_event_def on_nat_status_changed_def publish_ad_def s3_def s2_def push_event_def)
  have e3: "beh_events (swarm s3) = [StartPublish a]" by (simp add: s3_def push_event_def)
  have t: "s3\<lparr>swarm := (swarm s3)\<lparr>beh_events := []\<rparr>\<rparr> = ?t" by (simp add: s3_def push_event_def)
  have q: "root_cids (index_provider ?t) = [root]" "ads_typed (index_provider ?t)"
    "prov_keypair (index_provider ?t) = prov_keypair (index_provider s)"
    using p(2) by (simp_all add: s1_def set_roots_def)
  have "\<exists>s4. publish_loop L st aid (publish_address a) 0 ?t = Some (Ok (), s4)"
    by (rule publish_loop_succeeds [OF libs st(1) q(2)]) (use q(1) st in auto)
  then obtain s4 where s4: "publish_loop L st aid (publish_address a) 0 ?t = Some (Ok (), s4)" by blast
  then have d4: "svc_do L (OpEvent st aid rng (StartPublish a)) s3 = Some (Ok (), s4)"
    by (subst svc_do_delivers [OF e3]) (simp add: handle_event_def on_start_publish_def t)
  have "published (l_ad L) (l_obj L) (index_provider ?t) adss"
    using p(3) by (simp add: s1_def set_roots_def published_def)
  from publish_loop_advertises [OF libs(1,3) _ _ this q(1) s4] st(2,3)
  obtain new where "published (l_ad L) (l_obj L) (index_provider s4) (rev new @ adss)"
    "length new = length [root]" "advertises L tbl (st 0) root (new ! 0)"
    by auto
  then obtain ess where "published (l_ad L) (l_obj L) (index_provider s4) (ess # adss)" "advertises L tbl (st 0) root ess"
    by (auto simp: length_Suc_conv)
  moreover have "prov_keypair (index_provider s4) = prov_keypair (index_provider s)"
    using publish_loop_keypair [OF s4] q(3) by simp
  moreover have "index_replies s1 = index_replies s @ [(ch, Ok (root # cids))]" by (simp add: s1_def)
  ultimately show ?thesis using d1 d2 d3 d4 by blast
qed


lemma full_store_load: "car_load one_block_cars (Ok [3, 4]) full_store = (Ok [Cid 2], full_store)"
proof -
  have "full_store([1, 1] \<mapsto> [3, 4]) = full_store" by (rule ext) (simp add: full_store_def part_store_def)
  then show ?thesis by (simp add: one_block_cars_def numeral_2_eq_2)
qed


section \<open>From connections to the peer gauge\<close>

text \<open>The path of a connection event: discovery, behaviour, service.\<close>

fun peer_event :: "discovery_event \<Rightarrow> behaviour_event" where
  "peer_event (Connected p) = PeerConnected p"
| "peer_event (Disconnected p) = PeerDisconnected p"

lemma handle_discovery_push: "handle_discovery e b = push_event (peer_event e) b"
  by (cases e) (simp_all add: handle_discovery_def)

text \<open>The service handles a list of events one after the other.\<close>

fun service_events ::
  "('w, 's, 'p) libs \<Rightarrow> (nat \<Rightarrow> 's) \<Rightarrow> (nat \<Rightarrow> usize) \<Rightarrow> nat \<Rightarrow> behaviour_event list \<Rightarrow> ('w, 'p) service \<Rightarrow>
   (unit result \<times> ('w, 'p) service) option" where
  "service_events L st aid rng [] s = Some (Ok (), s)"
| "service_events L st aid rng (e # es) s =
     (case handle_event L st aid rng e s of
        Some (Ok u, s') \<Rightarrow> service_events L st aid rng es s'
      | other \<Rightarrow> other)"

lemma handle_discovery_fold:
  "beh_events (fold handle_discovery es b) = beh_events b @ map peer_event es"
  by (induction es arbitrary: b) (simp_all add: handle_discovery_push push_event_def)

lemma service_events_gauge:
  assumes "replay es S = Some T" and "finite S"
  shows "\<exists>s'. service_events L st aid rng (map peer_event es) s = Some (Ok (), s') \<and>
    gauge_value ''active_connected_peers'' (metric_log s') =
    gauge_value ''active_connected_peers'' (metric_log s) + int (card T) - int (card S)"
  using assms
proof (induction es S arbitrary: s rule: replay.induct)
  case (1 S)
  then show ?case by simp
next
  case (2 p es S)
  let ?t = "on_peer_connected p s"
  from "2.prems" have "p \<notin> S" "replay es (insert p S) = Some T" by (auto split: if_splits)
  with "2.IH" [of ?t] "2.prems"(2) obtain s' where
    "service_events L st aid rng (map peer_event es) ?t = Some (Ok (), s')"
    "gauge_value ''active_connected_peers'' (metric_log s') =
     gauge_value ''active_connected_peers'' (metric_log ?t) + int (card T) - int (card (insert p S))"
    by auto
  then show ?case
    using \<open>p \<notin> S\<close> "2.prems"(2)
    by (simp add: handle_event_def on_peer_connected_def send_event_def track_svc_def track_def)
next
  case (3 p es S)
  let ?t = "on_peer_disconnected p s"
  from "3.prems" have "p \<in> S" "replay es (S - {p}) = Some T" by (auto split: if_splits)
  with "3.IH" [of ?t] "3.prems"(2) obtain s' where
    "service_events L st aid rng (map peer_event es) ?t = Some (Ok (), s')"
    "gauge_value ''active_connected_peers'' (metric_log s') =
     gauge_value ''active_connected_peers'' (metric_log ?t) + int (card T) - int (card (S - {p}))"
    by auto
  moreover have "int (card S) = int (card (S - {p})) + 1"
    using card.remove [OF "3.prems"(2) \<open>p \<in> S\<close>] by linarith
  ultimately show ?case
    by (simp add: handle_event_def on_peer_disconnected_def send_event_def track_svc_def track_def)
qed

text \<open>
  C22. The gauge of connected peers is right: for every run of discovery from a node without peers,
  the behaviour queues exactly one event per reported connection change, and after the service
  has handled these events the gauge has grown by the number of peers discovery holds.
\<close>

theorem connected_peers_gauge:
  assumes "disc_peers d = {}" and "disc.run lp xs (d, w) = (emitted, delivered, (d', w'))"
  shows "beh_events (fold handle_discovery emitted b) = beh_events b @ map peer_event emitted \<and>
    (\<exists>s'. service_events L st aid rng (map peer_event emitted) s = Some (Ok (), s') \<and>
      gauge_value ''active_connected_peers'' (metric_log s') =
      gauge_value ''active_connected_peers'' (metric_log s) + int (card (disc_peers d')))"
  using service_events_gauge [of emitted "{}" "disc_peers d'" L st aid rng s] run_replay [OF assms(2)] assms(1)
  by (simp add: handle_discovery_fold)

theorem connected_peers_gauge_witness:
  "\<exists>em out d' w' s'. disc.run counter_libp2p [Some (ConnEstablished (PeerId 1) 0 0 None 0)]
      (idle_discovery\<lparr>disc_peers := {}\<rparr>, 0) = (em, out, (d', w')) \<and> disc_peers d' = {PeerId 1} \<and>
     service_events demo_libs (\<lambda>i. full_store) (\<lambda>i. 1) 0 (map peer_event em) demo_service = Some (Ok (), s') \<and>
     gauge_value ''active_connected_peers'' (metric_log s') = 1"
proof -
  let ?d = "idle_discovery\<lparr>disc_peers := {}\<rparr>"
  obtain em out d' w' where r: "disc.run counter_libp2p [Some (ConnEstablished (PeerId 1) 0 0 None 0)] (?d, 0) =
      (em, out, (d', w'))"
    by (cases "disc.run counter_libp2p [Some (ConnEstablished (PeerId 1) 0 0 None 0)] (?d, 0)") auto
  then have d': "disc_peers d' = {PeerId 1}" by (auto simp: disc_inject_defs)
  have "metric_log demo_service = []" by (simp add: demo_service_def)
  then show ?thesis
    using r d' connected_peers_gauge [OF _ r, of idle_behaviour demo_libs "\<lambda>i. full_store" "\<lambda>i. 1" 0 demo_service]
    by auto
qed

section \<open>From the process to its clients\<close>

lemma started_node:
  assumes "main E put_cl get_cl opts cmd f = (Value (Started st), f')"
  shows "\<exists>config s provider store. service_new (e_peer E) (e_gossip E) (e_mk E) (e_net E) (e_peer_of E) (st_keypair st)
      config provider = Ok s \<and> st_node st = node_start s store \<and> e_open_store E (net_database_path config) = Ok store"
proof -
  from main_Started [OF assms] obtain config f1 where "start_node E opts config f1 = (Value st, f')" by blast
  from start_node_Value [OF this] show ?thesis by force
qed

text \<open>
  C3. A process that \<open>main\<close> started answers truthfully for as long as it runs: no call to its node
  interface is answered twice, every successful get has returned the block the store holds, and
  the first CID that a successful put returned is the root of a file whose indexing the network
  service has accepted.
\<close>

theorem started_node_answers_truthfully:
  assumes "main E put_cl get_cl opts cmd f = (Value (Started st), f')"
    and "l_net L = e_net E" and "node_libs_ok L tbl cars"
    and "node_reach L cars (content (l_cid L) tbl) (st_node st) n"
  shows "distinct (map fst (call_results n)) \<and>
    (\<forall>ch c v. (ch, CallGet c, AnsGet (Ok v)) \<in> set (call_results n) \<longrightarrow>
       v \<noteq> None \<and> v = content (l_cid L) tbl (node_store n) c) \<and>
    (\<forall>ch rd cids. (ch, CallPut rd, AnsPut (Ok cids)) \<in> set (call_results n) \<longrightarrow>
       cids \<noteq> [] \<and> hd cids \<in> node_indexed n)"
proof -
  from started_node [OF assms(1)] obtain config s provider store where
    s: "service_new (e_peer E) (e_gossip E) (e_mk E) (l_net L) (e_peer_of E) (st_keypair st) config provider = Ok s"
    and n: "st_node st = node_start s store"
    unfolding assms(2) by blast
  note inv = spec_invD [OF node_results_inv [OF assms(3) s assms(4) [unfolded n]]]
  have abs: "spec_results (node_abs (content (l_cid L) tbl) n) = call_results n"
    "spec_blocks (node_abs (content (l_cid L) tbl) n) = content (l_cid L) tbl (node_store n)"
    "spec_indexed (node_abs (content (l_cid L) tbl) n) = node_indexed n"
    by (simp_all add: node_abs_def)
  from inv show ?thesis unfolding abs by blast
qed

theorem started_node_answers_truthfully_witness:
  "\<forall>(put_cl :: (network_put_file_params, string, string) client_lib)
     (get_cl :: (network_get_file_params, string, string) client_lib). \<exists>st f' n.
     main (demo_env 5) put_cl get_cl \<lparr>opt_config = None, opt_rpc = False, opt_rpc_port = None\<rparr> None
       [default_config_path ''/root'' \<mapsto> (''d'', 0)] = (Value (Started st), f') \<and>
     node_reach demo_libs one_block_cars (content unary_cid_lib (\<lambda>s. s)) (st_node st) n \<and>
     call_results n = [(7, CallGet (Cid 3), AnsGet (Ok (Some [4])))] \<and>
     content unary_cid_lib (\<lambda>s. s) (node_store n) (Cid 3) = Some [4]"
proof (intro allI)
  fix put_cl :: "(network_put_file_params, string, string) client_lib"
    and get_cl :: "(network_get_file_params, string, string) client_lib"
  let ?f = "[default_config_path ''/root'' \<mapsto> (''d'', 0)] :: path \<Rightarrow> (string \<times> nat) option"
  have "?f [''keys'', ''default.pem''] = None"
    by (simp add: default_config_path_def DEFAULT_CONFIG_PATH_STR_def join_def components_def)
  then obtain st f' where st: "main (demo_env 5) put_cl get_cl \<lparr>opt_config = None, opt_rpc = False, opt_rpc_port = None\<rparr> None ?f =
      (Value (Started st), f')"
    using demo_main [of ?f put_cl get_cl] by auto
  obtain s where s: "st_node st = node_start s part_store" using started_node [OF st] by (auto simp: demo_env_def)
  obtain n where r: "node_reach demo_libs one_block_cars (content (l_cid demo_libs) (\<lambda>s. s)) (st_node st) n"
    and c: "call_results n = [(7, CallGet (Cid 3), AnsGet (Ok (Some [4])))]"
    using demo_get_answered [of s] by (auto simp: s)
  have L: "node_libs_ok demo_libs (\<lambda>s. s) one_block_cars" "l_net demo_libs = e_net (demo_env 5)"
    by (simp_all add: node_libs_ok_def demo_env_def)
  from started_node_answers_truthfully [OF st L(2,1) r] st r c
  show "\<exists>st f' n. main (demo_env 5) put_cl get_cl \<lparr>opt_config = None, opt_rpc = False, opt_rpc_port = None\<rparr> None ?f =
      (Value (Started st), f') \<and>
      node_reach demo_libs one_block_cars (content unary_cid_lib (\<lambda>s. s)) (st_node st) n \<and>
      call_results n = [(7, CallGet (Cid 3), AnsGet (Ok (Some [4])))] \<and>
      content unary_cid_lib (\<lambda>s. s) (node_store n) (Cid 3) = Some [4]"
    by (intro exI [of _ st] exI [of _ f'] exI [of _ n]) auto
qed

end
